(* ===== verification/Prelude.thy ===== *)
theory Prelude
  imports Main "HOL-Library.Word" "HOL-Library.Monad_Syntax"
begin

text \<open>
  Prelude of the kernel model: the machine integers of the source, Rust's checked arithmetic,
  alignment of addresses, and the generic facts on words, lists and options the components share.

  Every call of the source that may fail to come back to its caller (a panic, an endless loop) is a
  function into an option: \<open>None\<close> is "the call never returns", \<open>Some r\<close> is "it returns \<open>r\<close>". The
  kernel is built with the profile \<open>dev\<close> (kernel/GNUmakefile), whose integer arithmetic is checked:
  an addition that overflows panics. \<open>checked_add\<close>, \<open>checked_sub\<close> and \<open>checked_mul\<close> are these
  operations; the wrapping operations of the source (\<open>wrapping_add\<close>, \<open>wrapping_sub\<close>) are the
  operations of the word library.
\<close>

unbundle bit_operations_syntax

type_synonym u8 = "8 word"
type_synonym u16 = "16 word"
type_synonym u32 = "32 word"
type_synonym u64 = "64 word"

named_theorems checked_simps \<open>when a checked operation returns, and what it returns\<close>
named_theorems align_simps \<open>page-aligned addresses and offsets within a page\<close>

section \<open>Checked arithmetic\<close>

definition checked_add :: "'a::len word \<Rightarrow> 'a word \<Rightarrow> 'a word option" where
  "checked_add a b = (if unat a + unat b < 2 ^ LENGTH('a) then Some (a + b) else None)"

definition checked_sub :: "'a::len word \<Rightarrow> 'a word \<Rightarrow> 'a word option" where
  "checked_sub a b = (if b \<le> a then Some (a - b) else None)"

definition checked_mul :: "'a::len word \<Rightarrow> 'a word \<Rightarrow> 'a word option" where
  "checked_mul a b = (if unat a * unat b < 2 ^ LENGTH('a) then Some (a * b) else None)"

lemma checked_add_eq_Some [checked_simps]:
  fixes a b c :: "'a::len word"
  shows "checked_add a b = Some c \<longleftrightarrow> unat c = unat a + unat b"
proof
  assume "checked_add a b = Some c"
  then show "unat c = unat a + unat b"
    by (auto simp: checked_add_def unat_word_ariths split: if_splits)
next
  assume *: "unat c = unat a + unat b"
  then have "unat a + unat b < 2 ^ LENGTH('a)"
    by (metis unsigned_less)
  moreover from * have "c = a + b"
    by (metis of_nat_add of_nat_unat ucast_id)
  ultimately show "checked_add a b = Some c"
    by (simp add: checked_add_def)
qed

lemma checked_add_eq_None [checked_simps]:
  fixes a b :: "'a::len word"
  shows "checked_add a b = None \<longleftrightarrow> 2 ^ LENGTH('a) \<le> unat a + unat b"
  by (auto simp: checked_add_def)

lemma checked_add_Some_value:
  "checked_add a b = Some c \<Longrightarrow> c = a + b"
  by (auto simp: checked_add_def split: if_splits)

lemma checked_sub_eq_Some [checked_simps]:
  fixes a b c :: "'a::len word"
  shows "checked_sub a b = Some c \<longleftrightarrow> unat a = unat b + unat c"
proof
  assume "checked_sub a b = Some c"
  then show "unat a = unat b + unat c"
    by (auto simp: checked_sub_def word_le_nat_alt unat_sub split: if_splits)
next
  assume *: "unat a = unat b + unat c"
  then have "checked_add b c = Some a"
    by (simp add: checked_simps)
  then have "a = b + c"
    by (rule checked_add_Some_value)
  with * show "checked_sub a b = Some c"
    by (simp add: checked_sub_def word_le_nat_alt)
qed

lemma checked_sub_add: "checked_add a b = Some c \<Longrightarrow> checked_sub c b = Some a"
  by (simp add: checked_simps)

lemma checked_mul_eq_Some [checked_simps]:
  fixes a b c :: "'a::len word"
  shows "checked_mul a b = Some c \<longleftrightarrow> unat c = unat a * unat b"
proof
  assume "checked_mul a b = Some c"
  then show "unat c = unat a * unat b"
    by (auto simp: checked_mul_def unat_word_ariths split: if_splits)
next
  assume *: "unat c = unat a * unat b"
  then have "unat a * unat b < 2 ^ LENGTH('a)"
    by (metis unsigned_less)
  moreover from * have "c = a * b"
    by (metis of_nat_mult of_nat_unat ucast_id)
  ultimately show "checked_mul a b = Some c"
    by (simp add: checked_mul_def)
qed

text \<open>A loop that counts up with checked additions runs out of room.\<close>

lemma checked_add_room:
  fixes a b c :: "'a::len word"
  assumes "checked_add a b = Some c" and "0 < unat b"
  shows "2 ^ LENGTH('a) - unat c < 2 ^ LENGTH('a) - unat a"
  using assms by (intro diff_less_mono2) (auto simp: checked_simps)

section \<open>Results and the question mark\<close>

text \<open>
  A function of the source that returns a \<open>Result\<close> and changes state is a function to
  \<open>(('e + 'a) \<times> 's) option\<close>. \<open>try_bind\<close> is the operator \<open>?\<close>: an error is returned with the state as
  it is then.
\<close>

definition try_bind ::
  "(('e + 'a) \<times> 's) option \<Rightarrow> ('a \<Rightarrow> 's \<Rightarrow> (('e + 'b) \<times> 's) option) \<Rightarrow> (('e + 'b) \<times> 's) option"
where
  "try_bind m k =
     (case m of
        None \<Rightarrow> None
      | Some (r, s) \<Rightarrow> (case r of Inl e \<Rightarrow> Some (Inl e, s) | Inr x \<Rightarrow> k x s))"

lemma try_bind_simps [simp]:
  "try_bind None k = None" "try_bind (Some (Inl e, s)) k = Some (Inl e, s)"
  "try_bind (Some (Inr x, s)) k = k x s"
  by (simp_all add: try_bind_def)

lemma try_bind_eq_Some:
  "try_bind m k = Some (r, s') \<longleftrightarrow>
     (\<exists>e. m = Some (Inl e, s') \<and> r = Inl e) \<or> (\<exists>x s. m = Some (Inr x, s) \<and> k x s = Some (r, s'))"
  by (auto simp: try_bind_def split: option.splits sum.splits)

lemma try_bind_cong [fundef_cong]:
  "m = m' \<Longrightarrow> (\<And>x s. m' = Some (Inr x, s) \<Longrightarrow> k x s = k' x s) \<Longrightarrow> try_bind m k = try_bind m' k'"
  by (auto simp: try_bind_def split: option.splits sum.splits)

section \<open>Loops over ranges\<close>

text \<open>
  \<open>for x in xs \<dots>\<close> whose body may panic: \<open>for_each body xs\<close>. Where every pass of the body returns, the loop is a fold.
\<close>

fun for_each :: "('a \<Rightarrow> 's \<Rightarrow> 's option) \<Rightarrow> 'a list \<Rightarrow> 's \<Rightarrow> 's option" where
  "for_each body [] s = Some s"
| "for_each body (x # xs) s = do { s \<leftarrow> body x s; for_each body xs s }"

lemma for_each_fold:
  assumes "P s" and "\<And>x s. x \<in> set xs \<Longrightarrow> P s \<Longrightarrow> body x s = Some (f x s) \<and> P (f x s)"
  shows "for_each body xs s = Some (fold f xs s) \<and> P (fold f xs s)"
  using assms by (induction xs arbitrary: s) simp_all

lemma for_each_append: "for_each body (xs @ ys) s = do { s \<leftarrow> for_each body xs s; for_each body ys s }"
  by (induction xs arbitrary: s) (simp_all split: Option.bind_splits)

lemma fold_concat_map: "fold f (concat (map g ys)) = fold (\<lambda>y. fold f (g y)) ys"
  by (induction ys) simp_all

section \<open>Alignment\<close>

text \<open>
  The source clears and keeps the low bits of an address with \<open>x & !(PAGE_SIZE - 1)\<close> and
  \<open>x & (PAGE_SIZE - 1)\<close>. The masks are \<open>mask 12\<close> and its complement; the facts below are for any
  width and any number of low bits.
\<close>

definition aligned :: "nat \<Rightarrow> 'a::len word \<Rightarrow> bool" where
  "aligned n x \<longleftrightarrow> x AND mask n = 0"

lemma unat_and_mask [align_simps]: "unat (x AND mask n) = unat x mod 2 ^ n"
  for x :: "'a::len word"
proof -
  have "unat (x AND mask n) = take_bit n (unat x)"
    by (simp add: unsigned_take_bit_eq flip: take_bit_eq_mask)
  then show ?thesis by (simp add: take_bit_eq_mod)
qed

lemma and_mask_split: "(x AND NOT (mask n)) + (x AND mask n) = x"
  for x :: "'a::len word"
proof -
  have "(x AND NOT (mask n)) + (x AND mask n) = (x AND NOT (mask n)) OR (x AND mask n)"
    by (rule disjunctive_add) (simp add: bit_simps)
  also have "\<dots> = x"
    by (rule bit_word_eqI) (auto simp add: bit_simps)
  finally show ?thesis .
qed

lemma unat_and_not_mask [align_simps]: "unat (x AND NOT (mask n)) = unat x - unat x mod 2 ^ n"
  for x :: "'a::len word"
proof -
  have "x AND NOT (mask n) = x - (x AND mask n)"
    using and_mask_split [of x n] by (metis add_diff_cancel_right')
  moreover have "(x AND mask n) \<le> x"
    by (simp add: word_le_nat_alt unat_and_mask)
  ultimately show ?thesis
    by (simp add: unat_sub unat_and_mask)
qed

lemma aligned_iff_dvd: "aligned n x \<longleftrightarrow> 2 ^ n dvd unat x"
  for x :: "'a::len word"
  by (metis aligned_def dvd_eq_mod_eq_0 unat_and_mask unat_eq_zero)

lemma aligned_and_not_mask [simp]: "aligned n (x AND NOT (mask n))"
  for x :: "'a::len word"
  unfolding aligned_def by (rule bit_word_eqI) (simp add: bit_simps)

lemma aligned_and_not_mask_id: "aligned n x \<Longrightarrow> x AND NOT (mask n) = x"
  for x :: "'a::len word"
  using and_mask_split [of x n] by (simp add: aligned_def)

lemma mask_12 [align_simps]: "(4095 :: u64) = mask 12"
  by (simp add: mask_eq_exp_minus_1)

lemma word_below_bits: "w < 2 ^ k \<Longrightarrow> bit w n \<Longrightarrow> n < k" for w :: "'a::len word"
proof (rule ccontr)
  assume w: "w < 2 ^ k" and b: "bit w n" and "\<not> n < k"
  have "drop_bit k w = 0" using w by (simp add: drop_bit_eq_div div_word_less)
  moreover have "bit (drop_bit k w) (n - k)" using b \<open>\<not> n < k\<close> by (simp add: bit_drop_bit_eq)
  ultimately show False by simp
qed

text \<open>Two different multiples of \<open>2 ^ n\<close> are at least \<open>2 ^ n\<close> apart, on either side.\<close>

lemma aligned_diff:
  fixes a b :: "'a::len word"
  assumes "aligned n a" "aligned n b" "a \<noteq> b" "n \<le> LENGTH('a)"
  shows "2 ^ n \<le> unat (b - a)"
proof -
  have "(2::nat) ^ n dvd 2 ^ LENGTH('a)"
    using assms(4) by (simp add: le_imp_power_dvd)
  moreover have "2 ^ n dvd unat a" "2 ^ n dvd unat b"
    using assms(1,2) by (simp_all add: aligned_iff_dvd)
  ultimately have "2 ^ n dvd unat (b - a)"
    by (simp add: unat_sub_if' dvd_diff_nat)
  moreover have "unat (b - a) \<noteq> 0"
    using assms(3) by (simp add: unat_eq_zero)
  ultimately show ?thesis
    by (meson dvd_imp_le neq0_conv)
qed

text \<open>The distances between two different words, both ways round, make up the whole space.\<close>

lemma unat_diff_both:
  fixes a b :: "'a::len word"
  assumes "a \<noteq> b"
  shows "unat (b - a) + unat (a - b) = 2 ^ LENGTH('a)"
proof -
  have *: "unat (y - x) + unat (x - y) = 2 ^ LENGTH('a)" if "unat x < unat y" for x y :: "'a word"
  proof -
    have "unat (y - x) = unat y - unat x" "unat (x - y) = unat x + 2 ^ LENGTH('a) - unat y"
      using that by (simp_all add: unat_sub_if')
    moreover have "unat y < 2 ^ LENGTH('a)" by (rule unsigned_less)
    ultimately show ?thesis using that by linarith
  qed
  from assms have "unat a < unat b \<or> unat b < unat a"
    by (metis linorder_neqE_nat word_unat_eq_iff)
  then show ?thesis
    using * [of a b] * [of b a] by (auto simp: add.commute)
qed

end
