(* ===== verification/Phys_Memory.thy ===== *)
theory Phys_Memory
  imports Prelude
begin

text \<open>
  The memory the kernel reads and writes through raw pointers: one byte per 64-bit address, integers
  in little-endian order (x86_64). \<open>ptr::read\<close> and \<open>ptr::write\<close> of an integer are \<open>rd64\<close>/\<open>wr64\<close> and
  \<open>rd32\<close>/\<open>wr32\<close>; \<open>ptr::write_bytes\<close> is \<open>mem_fill\<close>; the overlapping \<open>ptr::copy\<close> is \<open>mem_copy\<close>.
  The contract the other components use is the locale \<open>cell_store\<close>: what is read after a
  write of the same cell, and that a separate cell is unchanged. It is interpreted for 64-bit and
  32-bit cells.
\<close>

type_synonym mem = "u64 \<Rightarrow> u8"

section \<open>Bytes of integers\<close>

fun le_bytes :: "nat \<Rightarrow> 'a::len word \<Rightarrow> u8 list" where
  "le_bytes 0 w = []"
| "le_bytes (Suc n) w = ucast w # le_bytes n (drop_bit 8 w)"

fun of_le_bytes :: "u8 list \<Rightarrow> 'a::len word" where
  "of_le_bytes [] = 0"
| "of_le_bytes (b # bs) = ucast b OR push_bit 8 (of_le_bytes bs)"

lemma length_le_bytes [simp]: "length (le_bytes n w) = n"
  by (induction n arbitrary: w) simp_all

lemma of_le_bytes_take_bit: "of_le_bytes (le_bytes n w) = take_bit (8 * n) (w :: 'a::len word)"
proof (induction n arbitrary: w)
  case 0
  then show ?case by simp
next
  case (Suc n)
  have "of_le_bytes (le_bytes (Suc n) w)
      = ucast (ucast w :: u8) OR push_bit 8 (take_bit (8 * n) (drop_bit 8 w))"
    by (simp add: Suc.IH)
  also have "\<dots> = take_bit (8 * Suc n) w"
    by (rule bit_word_eqI) (auto simp add: bit_simps)
  finally show ?case .
qed

lemma of_le_bytes_le_bytes: "LENGTH('a) \<le> 8 * n \<Longrightarrow> of_le_bytes (le_bytes n w) = (w :: 'a::len word)"
  by (simp add: of_le_bytes_take_bit take_bit_word_eq_self)

section \<open>Reading and writing bytes\<close>

definition mem_read :: "mem \<Rightarrow> u64 \<Rightarrow> nat \<Rightarrow> u8 list" where
  "mem_read m a n = map (\<lambda>i. m (a + of_nat i)) [0..<n]"

definition mem_write :: "mem \<Rightarrow> u64 \<Rightarrow> u8 list \<Rightarrow> mem" where
  "mem_write m a bs = (\<lambda>x. if unat (x - a) < length bs then bs ! unat (x - a) else m x)"

definition mem_fill :: "mem \<Rightarrow> u64 \<Rightarrow> u8 \<Rightarrow> nat \<Rightarrow> mem" where
  "mem_fill m a v n = (\<lambda>x. if unat (x - a) < n then v else m x)"

definition mem_copy :: "mem \<Rightarrow> u64 \<Rightarrow> u64 \<Rightarrow> nat \<Rightarrow> mem" where
  "mem_copy m src dst n = (\<lambda>x. if unat (x - dst) < n then m (src + (x - dst)) else m x)"

definition rd64 :: "mem \<Rightarrow> u64 \<Rightarrow> u64" where
  "rd64 m a = of_le_bytes (mem_read m a 8)"

definition wr64 :: "mem \<Rightarrow> u64 \<Rightarrow> u64 \<Rightarrow> mem" where
  "wr64 m a v = mem_write m a (le_bytes 8 v)"

definition rd32 :: "mem \<Rightarrow> u64 \<Rightarrow> u32" where
  "rd32 m a = of_le_bytes (mem_read m a 4)"

definition wr32 :: "mem \<Rightarrow> u64 \<Rightarrow> u32 \<Rightarrow> mem" where
  "wr32 m a v = mem_write m a (le_bytes 4 v)"

text \<open>
  The ranges \<open>[a, a + n)\<close> and \<open>[b, b + k)\<close> of the address space, which wraps around, have no byte in
  common.
\<close>

definition disj :: "u64 \<Rightarrow> nat \<Rightarrow> u64 \<Rightarrow> nat \<Rightarrow> bool" where
  "disj a n b k \<longleftrightarrow> n \<le> unat (b - a) \<and> k \<le> unat (a - b)"

definition in_range :: "u64 \<Rightarrow> u64 \<Rightarrow> nat \<Rightarrow> bool" where
  "in_range x a n \<longleftrightarrow> unat (x - a) < n"

lemma disj_sym: "disj a n b k \<longleftrightarrow> disj b k a n"
  by (auto simp: disj_def)

lemma disj_outside:
  assumes "disj a n b k" and "i < k"
  shows "n \<le> unat (b + of_nat i - a)"
proof -
  from assms have k: "k \<le> unat (a - b)" and n: "n \<le> unat (b - a)"
    by (auto simp: disj_def)
  have sum: "unat (b - a) + i < 2 ^ 64"
    using k assms(2) unat_diff_both [of a b] by (cases "a = b") auto
  then have i: "unat (of_nat i :: u64) = i"
    by (simp add: unat_of_nat)
  have "unat (b - a + of_nat i) = unat (b - a) + i"
    using sum by (simp add: unat_word_ariths i)
  then show ?thesis
    using n by (simp add: algebra_simps)
qed

lemma disj_subrange:
  assumes "disj a n b k" and "unat (a' - a) + n' \<le> n" and "unat (b' - b) + k' \<le> k"
    and "0 < n'" and "0 < k'"
  shows "disj a' n' b' k'"
proof -
  have *: "n' \<le> unat (b' - a')"
    if d: "n \<le> unat (b - a)" "k \<le> unat (a - b)" and a': "unat (a' - a) + n' \<le> n"
      and b': "unat (b' - b) + k' \<le> k" and "0 < k'" for a a' b b' :: u64 and n n' k k'
  proof -
    from d b' \<open>0 < k'\<close> have s: "unat (b - a) + unat (b' - b) < 2 ^ 64"
      using unat_diff_both [of a b] by (cases "a = b") auto
    have "unat (b' - a) = unat ((b - a) + (b' - b))"
      by (simp add: algebra_simps)
    also have "\<dots> = unat (b - a) + unat (b' - b)"
      using s by (subst unat_word_ariths) simp
    finally have ba: "unat (b' - a) = unat (b - a) + unat (b' - b)" .
    have "unat (b' - a') = unat ((b' - a) - (a' - a))"
      by (simp add: algebra_simps)
    also have "\<dots> = unat (b' - a) - unat (a' - a)"
      using ba d(1) a' by (intro unat_sub) (simp add: word_le_nat_alt)
    finally show ?thesis
      using ba d(1) a' by simp
  qed
  from assms show ?thesis
    using * [of n b a k a' n' b' k'] * [of k a b n b' k' a' n'] by (auto simp: disj_def)
qed

lemma disj_aligned:
  assumes "aligned 12 a" and "aligned 12 b" and "a \<noteq> b"
  shows "disj a 4096 b 4096"
  using aligned_diff [of 12 a b] aligned_diff [of 12 b a] assms by (simp add: disj_def)

text \<open>Ranges given by their offsets from one address.\<close>

lemma u64_lt: "unat (w :: u64) < 2 ^ 64"
proof -
  have "unat w < 2 ^ LENGTH(64)" by (rule unsigned_less)
  then show ?thesis by simp
qed

lemma unat_of_nat_diff: "j \<le> i \<Longrightarrow> i < 2 ^ 64 \<Longrightarrow> unat (of_nat i - of_nat j :: u64) = i - j"
  using of_nat_diff [of j i, where ?'a = u64] by (simp add: unat_of_nat flip: of_nat_diff)

lemma u64_of_nat: "n < 2 ^ 64 \<Longrightarrow> unat (of_nat n :: u64) = n"
  by (simp add: unat_of_nat)

lemma offsets_disj:
  assumes "i + n \<le> j" "j + k < 2 ^ 64" "0 < n" "0 < k"
  shows "disj (a + of_nat i) n (a + of_nat j) k"
proof -
  have d: "unat (of_nat j - of_nat i :: u64) = j - i"
    using assms by (intro unat_of_nat_diff) auto
  have "(of_nat j - of_nat i :: u64) \<noteq> 0"
    using d assms by (auto simp: unat_eq_zero [symmetric])
  then have "unat (of_nat j - of_nat i :: u64) + unat (of_nat i - of_nat j :: u64) = 2 ^ 64"
    using unat_diff_both [of "of_nat i :: u64" "of_nat j"] by auto
  moreover have "unat (of_nat j - of_nat i :: u64) + k < 2 ^ 64 - i"
    using d assms by linarith
  ultimately have "k \<le> unat (of_nat i - of_nat j :: u64)" by linarith
  with d assms(1) show ?thesis by (simp add: disj_def)
qed

text \<open>A range of \<open>n\<close> pages is the union of its pages.\<close>

lemma pages_cover:
  fixes y :: u64
  assumes "n * 4096 < 2 ^ 64"
  shows "unat y < n * 4096 \<longleftrightarrow> (\<exists>j. j < n \<and> unat (y - of_nat (j * 4096)) < 4096)"
proof
  assume y: "unat y < n * 4096"
  let ?j = "unat y div 4096"
  have "?j < n" using y by (simp add: div_less_iff_less_mult)
  have j: "unat (of_nat (?j * 4096) :: u64) = ?j * 4096"
    using y assms by (subst unat_of_nat) (auto intro: mod_less le_less_trans [OF div_times_less_eq_dividend])
  have "unat (y - of_nat (?j * 4096)) = unat y - ?j * 4096"
    by (subst unat_sub) (simp_all only: word_le_nat_alt j div_times_less_eq_dividend)
  also have "\<dots> < 4096"
    by (simp add: minus_div_mult_eq_mod)
  finally show "\<exists>j. j < n \<and> unat (y - of_nat (j * 4096)) < 4096"
    using \<open>?j < n\<close> by blast
next
  assume "\<exists>j. j < n \<and> unat (y - of_nat (j * 4096)) < 4096"
  then obtain j where j: "j < n" "unat (y - of_nat (j * 4096)) < 4096" by blast
  let ?d = "y - of_nat (j * 4096)"
  have j': "j * 4096 + 4096 \<le> n * 4096" using j(1) by simp
  have "unat (of_nat (j * 4096) :: u64) = j * 4096"
    using j' assms by (subst unat_of_nat) simp
  then have "unat (of_nat (j * 4096) + ?d) = j * 4096 + unat ?d"
    using j' j(2) assms by (subst unat_word_ariths) simp
  then show "unat y < n * 4096"
    using j' j(2) by simp
qed

section \<open>Reading after writing\<close>

lemma mem_read_cong: "(\<And>i. i < n \<Longrightarrow> m (a + of_nat i) = m' (a + of_nat i)) \<Longrightarrow> mem_read m a n = mem_read m' a n"
  by (simp add: mem_read_def)

lemma mem_write_other: "length bs \<le> unat (x - a) \<Longrightarrow> mem_write m a bs x = m x"
  by (simp add: mem_write_def)

lemma mem_fill_other: "n \<le> unat (x - a) \<Longrightarrow> mem_fill m a v n x = m x"
  by (simp add: mem_fill_def)

lemma mem_read_write_same:
  assumes "length bs = n" and "n < 2 ^ 64"
  shows "mem_read (mem_write m a bs) a n = bs"
proof (rule nth_equalityI)
  show "length (mem_read (mem_write m a bs) a n) = length bs"
    using assms by (simp add: mem_read_def)
  fix i assume "i < length (mem_read (mem_write m a bs) a n)"
  then have "i < n" by (simp add: mem_read_def)
  with assms show "mem_read (mem_write m a bs) a n ! i = bs ! i"
    by (simp add: mem_read_def mem_write_def unat_of_nat)
qed

lemma mem_read_write_disj: "disj a (length bs) b n \<Longrightarrow> mem_read (mem_write m a bs) b n = mem_read m b n"
  by (rule mem_read_cong) (simp add: mem_write_other disj_outside)

lemma mem_read_fill_disj: "disj a k b n \<Longrightarrow> mem_read (mem_fill m a v k) b n = mem_read m b n"
  by (rule mem_read_cong) (simp add: mem_fill_other disj_outside)

lemma mem_read_fill_inside:
  assumes "unat (b - a) + n \<le> k" and "k < 2 ^ 64"
  shows "mem_read (mem_fill m a v k) b n = replicate n v"
proof (rule nth_equalityI)
  show "length (mem_read (mem_fill m a v k) b n) = length (replicate n v)"
    by (simp add: mem_read_def)
  fix i assume "i < length (mem_read (mem_fill m a v k) b n)"
  then have i: "i < n" by (simp add: mem_read_def)
  then have "unat (of_nat i :: u64) = i"
    using assms by (simp add: unat_of_nat)
  then have "unat (b - a + of_nat i) = unat (b - a) + i"
    using assms i by (simp add: unat_word_ariths)
  then have "unat (b + of_nat i - a) < k"
    using assms i by (simp add: algebra_simps)
  with i show "mem_read (mem_fill m a v k) b n ! i = replicate n v ! i"
    by (simp add: mem_read_def mem_fill_def)
qed

lemma of_le_bytes_zeros [simp]: "of_le_bytes (replicate n 0) = 0"
  by (induction n) simp_all

section \<open>The contract of memory cells\<close>

text \<open>
  A store of cells: \<open>rd\<close> and \<open>wr\<close> of one cell, \<open>sep a b\<close> when the cells at \<open>a\<close> and \<open>b\<close> share no
  byte. A client that updates several cells uses the facts on lists of writes.
\<close>

locale cell_store =
  fixes rd :: "'m \<Rightarrow> 'a \<Rightarrow> 'v" and wr :: "'m \<Rightarrow> 'a \<Rightarrow> 'v \<Rightarrow> 'm" and sep :: "'a \<Rightarrow> 'a \<Rightarrow> bool"
  assumes rd_wr_same: "rd (wr m a v) a = v"
    and rd_wr_sep: "sep a b \<Longrightarrow> rd (wr m a v) b = rd m b"
    and sep_sym: "sep a b \<Longrightarrow> sep b a"
begin

lemma rd_writes_sep: "(\<And>a v. (a, v) \<in> set ws \<Longrightarrow> sep a b) \<Longrightarrow> rd (fold (\<lambda>(a, v) m. wr m a v) ws m) b = rd m b"
proof (induction ws arbitrary: m)
  case Nil
  then show ?case by simp
next
  case (Cons w ws)
  obtain a v where w: "w = (a, v)" by (cases w)
  have "rd (fold (\<lambda>(a, v) m. wr m a v) ws (wr m a v)) b = rd (wr m a v) b"
    using Cons.prems by (intro Cons.IH) auto
  moreover have "sep a b"
    using Cons.prems by (auto simp: w)
  ultimately show ?case by (simp add: w rd_wr_sep)
qed

text \<open>The same value into several cells, which may repeat.\<close>

lemma rd_writes_same:
  "(\<And>a. a \<in> set as \<Longrightarrow> a = b \<or> sep a b) \<Longrightarrow>
     rd (fold (\<lambda>a m. wr m a v) as m) b = (if b \<in> set as then v else rd m b)"
proof (induction as arbitrary: m)
  case (Cons a as)
  have "rd (fold (\<lambda>a m. wr m a v) as (wr m a v)) b = (if b \<in> set as then v else rd (wr m a v) b)"
    using Cons.prems by (intro Cons.IH) simp
  moreover have "rd (wr m a v) b = (if a = b then v else rd m b)"
    using Cons.prems [of a] by (auto simp: rd_wr_same rd_wr_sep)
  ultimately show ?case by auto
qed simp

lemma rd_writes_hit:
  assumes "(a, v) \<in> set ws" and "distinct (map fst ws)"
    and "\<And>x y. x \<in> fst ` set ws \<Longrightarrow> y \<in> fst ` set ws \<Longrightarrow> x \<noteq> y \<Longrightarrow> sep x y"
  shows "rd (fold (\<lambda>(a, v) m. wr m a v) ws m) a = v"
  using assms
proof (induction ws arbitrary: m)
  case Nil
  then show ?case by simp
next
  case (Cons w ws)
  obtain a' v' where w: "w = (a', v')" by (cases w)
  show ?case
  proof (cases "(a, v) \<in> set ws")
    case True
    have "rd (fold (\<lambda>(a, v) m. wr m a v) ws (wr m a' v')) a = v"
      by (rule Cons.IH [OF True]) (use Cons.prems in auto)
    then show ?thesis by (simp add: w)
  next
    case False
    with Cons.prems(1) have av: "a' = a" "v' = v" by (auto simp: w)
    have "sep b a" if "(b, u) \<in> set ws" for b u
    proof -
      have "b \<in> fst ` set ws" using that by (metis fst_conv imageI)
      moreover from this have "b \<noteq> a" using Cons.prems(2) by (auto simp: w av)
      ultimately show ?thesis by (intro Cons.prems(3)) (auto simp: w av)
    qed
    then show ?thesis
      by (simp add: w av rd_writes_sep rd_wr_same)
  qed
qed

end

lemma rd64_wr64_same: "rd64 (wr64 m a v) a = v"
  unfolding rd64_def wr64_def
  by (subst mem_read_write_same) (simp_all add: of_le_bytes_le_bytes)

lemma rd32_wr32_same: "rd32 (wr32 m a v) a = v"
  unfolding rd32_def wr32_def
  by (subst mem_read_write_same) (simp_all add: of_le_bytes_le_bytes)

interpretation c64: cell_store rd64 wr64 "\<lambda>a b. disj a 8 b 8"
proof unfold_locales
  show "rd64 (wr64 m a v) a = v" for m a v
    by (rule rd64_wr64_same)
  show "rd64 (wr64 m a v) b = rd64 m b" if "disj a 8 b 8" for m a v b
    using that by (simp add: rd64_def wr64_def mem_read_write_disj)
  show "disj b 8 a 8" if "disj a 8 b 8" for a b
    using that by (simp add: disj_sym)
qed

interpretation c32: cell_store rd32 wr32 "\<lambda>a b. disj a 4 b 4"
proof unfold_locales
  show "rd32 (wr32 m a v) a = v" for m a v
    by (rule rd32_wr32_same)
  show "rd32 (wr32 m a v) b = rd32 m b" if "disj a 4 b 4" for m a v b
    using that by (simp add: rd32_def wr32_def mem_read_write_disj)
  show "disj b 4 a 4" if "disj a 4 b 4" for a b
    using that by (simp add: disj_sym)
qed

text \<open>Cells of one kind against writes and fills of another size.\<close>

lemma rd64_fill_disj: "disj a k b 8 \<Longrightarrow> rd64 (mem_fill m a v k) b = rd64 m b"
  by (simp add: rd64_def mem_read_fill_disj)

lemma rd64_fill_zero: "unat (b - a) + 8 \<le> k \<Longrightarrow> k < 2 ^ 64 \<Longrightarrow> rd64 (mem_fill m a 0 k) b = 0"
  by (simp add: rd64_def mem_read_fill_inside)

lemma rd64_wr32_disj: "disj a 4 b 8 \<Longrightarrow> rd64 (wr32 m a v) b = rd64 m b"
  by (simp add: rd64_def wr32_def mem_read_write_disj)

lemma rd32_wr64_disj: "disj a 8 b 4 \<Longrightarrow> rd32 (wr64 m a v) b = rd32 m b"
  by (simp add: rd32_def wr64_def mem_read_write_disj)

lemma wr64_other: "8 \<le> unat (x - a) \<Longrightarrow> wr64 m a v x = m x"
  by (simp add: wr64_def mem_write_other)

end
