(* ===== verification/Machine.thy ===== *)
theory Machine
  imports Phys_Memory
begin

text \<open>
  What lies outside the kernel's own source: the port and model-specific-register instructions behind
  \<^verbatim>\<open>kernel/src/io/mod.rs\<close> and the \<open>asm!\<close> wrappers, memory-mapped device registers, the heap of the
  crate \<open>linked_list_allocator\<close>, and the devices' own activity. Their state is a type variable \<open>'h\<close>, and
  each access is a field of a record that the operations of the drivers take as an argument.

  \<open>hw_step\<close> is what the devices do between two steps of the kernel: they may change their own state and
  write to memory (DMA), and may raise the interrupt of the xHCI controller (the third component).
  A heap allocation that fails panics, which is \<open>None\<close>.
\<close>

record 'h ports =
  inb :: "u16 \<Rightarrow> 'h \<Rightarrow> u8 \<times> 'h"
  outb :: "u16 \<Rightarrow> u8 \<Rightarrow> 'h \<Rightarrow> 'h"
  inl :: "u16 \<Rightarrow> 'h \<Rightarrow> u32 \<times> 'h"
  outl :: "u16 \<Rightarrow> u32 \<Rightarrow> 'h \<Rightarrow> 'h"
  rdmsr :: "u32 \<Rightarrow> 'h \<Rightarrow> u64 \<times> 'h"
  wrmsr :: "u32 \<Rightarrow> u64 \<Rightarrow> 'h \<Rightarrow> 'h"

record 'h machine = "'h ports" +
  mrd8 :: "u64 \<Rightarrow> 'h \<Rightarrow> u8 \<times> 'h"
  mrd32 :: "u64 \<Rightarrow> 'h \<Rightarrow> u32 \<times> 'h"
  mwr32 :: "u64 \<Rightarrow> u32 \<Rightarrow> 'h \<Rightarrow> 'h"
  mwr64 :: "u64 \<Rightarrow> u64 \<Rightarrow> 'h \<Rightarrow> 'h"
  heap_alloc :: "nat \<Rightarrow> nat \<Rightarrow> 'h \<Rightarrow> (u64 \<times> 'h) option"
  heap_free :: "u64 \<Rightarrow> 'h \<Rightarrow> 'h"
  hw_step :: "'h \<Rightarrow> mem \<Rightarrow> 'h \<times> mem \<times> bool"

end
