(* ===== verification/Trb_Ring.thy ===== *)
theory Trb_Ring
  imports Machine
begin

text \<open>
  Transfer request blocks (\<open>struct Trb\<close> of \<^verbatim>\<open>kernel/src/usb/xhci.rs\<close>) in memory, the link TRB, and the
  contract of the rings the driver fills: the locale \<open>producer_ring\<close> and its extensions \<open>linked_ring\<close>
  (the last slot is a link TRB, written when the producer wraps) and \<open>unlinked_ring\<close> (the last slot is
  never written). \<open>xhc_fetch\<close> is the controller's side as the xHCI specification documents it.
\<close>

record Trb =
  parameter :: u64
  status :: u32
  control :: u32

definition Trb_empty :: Trb where
  "Trb_empty = \<lparr>parameter = 0, status = 0, control = 0\<rparr>"

definition trb_read :: "mem \<Rightarrow> u64 \<Rightarrow> Trb" where
  "trb_read m a = \<lparr>parameter = rd64 m a, status = rd32 m (a + 8), control = rd32 m (a + 12)\<rparr>"

definition trb_write :: "mem \<Rightarrow> u64 \<Rightarrow> Trb \<Rightarrow> mem" where
  "trb_write m a t = wr32 (wr32 (wr64 m a (parameter t)) (a + 8) (status t)) (a + 12) (control t)"

definition trb_slot :: "u64 \<Rightarrow> nat \<Rightarrow> u64" where
  "trb_slot ring i = ring + 16 * of_nat i"

definition TRB_TYPE_LINK :: u32 where "TRB_TYPE_LINK = 6"

definition bool_u32 :: "bool \<Rightarrow> u32" where
  "bool_u32 b = (if b then 1 else 0)"

definition link_trb :: "u64 \<Rightarrow> bool \<Rightarrow> Trb" where
  "link_trb ring_phys cycle =
     \<lparr>parameter = ring_phys, status = 0,
      control = push_bit 10 TRB_TYPE_LINK OR push_bit 1 1 OR bool_u32 cycle\<rparr>"

definition write_link_trb :: "u64 \<Rightarrow> u64 \<Rightarrow> nat \<Rightarrow> bool \<Rightarrow> mem \<Rightarrow> mem" where
  "write_link_trb ring_virt ring_phys ring_size cycle m =
     trb_write m (trb_slot ring_virt (ring_size - 1)) (link_trb ring_phys cycle)"

definition trb_type :: "Trb \<Rightarrow> u32" where
  "trb_type t = drop_bit 10 (control t) AND 0x3F"

definition trb_cycle :: "Trb \<Rightarrow> bool" where
  "trb_cycle t \<longleftrightarrow> control t AND 0x1 \<noteq> 0"

section \<open>TRBs as memory cells\<close>

lemma disj_offset:
  assumes "n \<le> unat d" "unat d + k \<le> 2 ^ 64" "0 < unat d"
  shows "disj a n (a + d) k"
proof -
  have "a + d - a = d" by simp
  moreover have "a \<noteq> a + d" using assms(3) by auto
  ultimately show ?thesis
    using assms unat_diff_both [of a "a + d"] by (simp add: disj_def)
qed

lemma trb_fields_disj:
  "disj a 8 (a + 8) 4" "disj a 8 (a + 12) 4" "disj (a + 8) 4 (a + 12) 4"
  "disj (a + 8) 4 a 8" "disj (a + 12) 4 a 8" "disj (a + 12) 4 (a + 8) 4"
proof -
  have "a + 12 = (a + 8) + 4" by simp
  then show *: "disj (a + 8) 4 (a + 12) 4" using disj_offset [of 4 4 4 "a + 8"] by (simp only:) simp
  show "disj a 8 (a + 8) 4" "disj a 8 (a + 12) 4" by (simp_all add: disj_offset)
  then show "disj (a + 8) 4 a 8" "disj (a + 12) 4 a 8" by (simp_all add: disj_sym)
  show "disj (a + 12) 4 (a + 8) 4" using * by (simp add: disj_sym)
qed

lemma trb_read_write_same: "trb_read (trb_write m a t) a = t"
  using trb_fields_disj [of a]
  by (simp add: trb_read_def trb_write_def rd64_wr32_disj rd64_wr64_same c32.rd_wr_sep rd32_wr32_same)

lemma trb_read_write_disj:
  assumes "disj a 16 b 16"
  shows "trb_read (trb_write m a t) b = trb_read m b"
proof -
  have "disj (a + x) n (b + y) k" if "unat x + n \<le> 16" "unat y + k \<le> 16" "0 < n" "0 < k" for x y n k
    by (rule disj_subrange [OF assms]) (use that in simp_all)
  from this [of 0 8 0 8] this [of 0 8 8 4] this [of 0 8 12 4] this [of 8 4 0 8] this [of 8 4 8 4] this [of 8 4 12 4]
    this [of 12 4 0 8] this [of 12 4 8 4] this [of 12 4 12 4]
  show ?thesis
    by (simp add: trb_read_def trb_write_def rd64_wr32_disj rd32_wr64_disj c64.rd_wr_sep c32.rd_wr_sep)
qed

interpretation trbs: cell_store trb_read trb_write "\<lambda>a b. disj a 16 b 16"
  by unfold_locales (auto simp: trb_read_write_same trb_read_write_disj disj_sym)

lemma trb_slots_disj:
  assumes "i < 2 ^ 32" "j < 2 ^ 32" "i \<noteq> j"
  shows "disj (trb_slot r i) 16 (trb_slot r j) 16"
proof -
  have *: "disj (trb_slot r i) 16 (trb_slot r j) 16" if "i < j" "j < 2 ^ 32" for i j
  proof -
    obtain d where d: "j = i + d" "0 < d" using \<open>i < j\<close> less_imp_add_positive by blast
    have eq: "trb_slot r j = trb_slot r i + 16 * of_nat d"
      by (simp add: trb_slot_def d(1) algebra_simps)
    have "unat (16 * of_nat d :: u64) = 16 * d"
      using that(2) d by (simp add: unat_word_ariths unat_of_nat)
    with that(2) d show ?thesis unfolding eq by (intro disj_offset) simp_all
  qed
  from assms show ?thesis using * [of i j] * [of j i] by (cases "i < j") (simp_all add: disj_sym)
qed

lemma trb_slot_write:
  assumes "i < 2 ^ 32" "j < 2 ^ 32"
  shows "trb_read (trb_write m (trb_slot r i) t) (trb_slot r j) = (if j = i then t else trb_read m (trb_slot r j))"
  using trbs.rd_wr_sep [OF trb_slots_disj [OF assms]] by (simp add: trbs.rd_wr_same)

lemma control_bits:
  "trb_cycle \<lparr>parameter = p, status = s, control = c\<rparr> = bit c 0"
  "trb_cycle (link_trb r b) = b" "trb_type (link_trb r b) = TRB_TYPE_LINK" "bit (control (link_trb r b)) 1"
proof -
  have "c AND 1 = of_bool (bit c 0)" for c :: u32
    by (simp add: and_one_eq mod_2_eq_odd bit_0)
  then show "trb_cycle \<lparr>parameter = p, status = s, control = c\<rparr> = bit c 0" by (simp add: trb_cycle_def)
  show "trb_cycle (link_trb r b) = b" "trb_type (link_trb r b) = TRB_TYPE_LINK" "bit (control (link_trb r b)) 1"
    by (cases b; simp add: trb_cycle_def trb_type_def link_trb_def bool_u32_def TRB_TYPE_LINK_def)+
qed

lemma trb_cycle_bit: "trb_cycle t = bit (control t) 0"
  by (simp add: trb_cycle_def and_one_eq mod_2_eq_odd bit_0)

section \<open>The controller's side of a ring\<close>

text \<open>
  The controller at position \<open>(i, c)\<close> (dequeue index and consumer cycle state) looks at slot \<open>i\<close>: a TRB
  with another cycle bit is not there yet; a link TRB sends it to slot 0, toggling its cycle state if the
  TRB says so; any other TRB is taken.
\<close>

definition xhc_fetch :: "(nat \<Rightarrow> Trb) \<Rightarrow> nat \<times> bool \<Rightarrow> (Trb \<times> nat \<times> bool) option" where
  "xhc_fetch ring = (\<lambda>(i, c).
     if trb_cycle (ring i) \<noteq> c then None
     else if trb_type (ring i) = TRB_TYPE_LINK then
       let c' = (if bit (control (ring i)) 1 then \<not> c else c)
       in if trb_cycle (ring 0) = c' then Some (ring 0, 1, c') else None
     else Some (ring i, i + 1, c))"

text \<open>The producer fills one TRB at a time and the controller looks at the ring after each.\<close>

fun exchange :: "('r \<Rightarrow> 'st \<Rightarrow> 'st) \<Rightarrow> ('st \<Rightarrow> nat \<Rightarrow> Trb) \<Rightarrow> 'r list \<Rightarrow> 'st \<Rightarrow> nat \<times> bool \<Rightarrow> Trb option list" where
  "exchange put slot [] s pos = []"
| "exchange put slot (r # rs) s pos =
     (let s' = put r s in
      case xhc_fetch (slot s') pos of
        None \<Rightarrow> None # exchange put slot rs s' pos
      | Some (t, pos') \<Rightarrow> Some t # exchange put slot rs s' pos')"

definition ring_fresh :: "nat \<Rightarrow> (nat \<Rightarrow> Trb) \<Rightarrow> nat \<Rightarrow> bool \<Rightarrow> bool" where
  "ring_fresh sz ring i c \<longleftrightarrow> i < sz - 1 \<and> (\<forall>j < sz - 1. trb_cycle (ring j) = (if j < i then c else \<not> c))"

text \<open>
  A ring as its producer keeps it: \<open>slot s\<close> is the ring in memory, \<open>idx s\<close> and \<open>cyc s\<close> the enqueue index and
  cycle state, \<open>put r\<close> enqueues the request \<open>r\<close>, \<open>trb_of r c\<close> is the TRB it writes and \<open>legal r\<close> says that it
  is no link TRB and leaves the cycle bit to the ring.
\<close>

locale producer_ring =
  fixes slot :: "'st \<Rightarrow> nat \<Rightarrow> Trb" and idx :: "'st \<Rightarrow> nat" and cyc :: "'st \<Rightarrow> bool"
    and put :: "'r \<Rightarrow> 'st \<Rightarrow> 'st" and trb_of :: "'r \<Rightarrow> bool \<Rightarrow> Trb" and legal :: "'r \<Rightarrow> bool" and sz :: nat
  assumes two: "2 \<le> sz"
    and trb_of_cycle: "legal r \<Longrightarrow> trb_cycle (trb_of r c) = c"
    and trb_of_type: "legal r \<Longrightarrow> trb_type (trb_of r c) \<noteq> TRB_TYPE_LINK"
    and put_here: "idx s < sz - 1 \<Longrightarrow> slot (put r s) (idx s) = trb_of r (cyc s)"
    and put_there: "idx s < sz - 1 \<Longrightarrow> j < sz - 1 \<Longrightarrow> j \<noteq> idx s \<Longrightarrow> slot (put r s) j = slot s j"
    and put_idx: "idx (put r s) = (if idx s + 1 \<ge> sz - 1 then 0 else idx s + 1)"
    and put_cyc: "cyc (put r s) = (if idx s + 1 \<ge> sz - 1 then \<not> cyc s else cyc s)"
begin

lemma fresh_put:
  assumes "ring_fresh sz (slot s) (idx s) (cyc s)" and "legal r"
  shows "ring_fresh sz (slot (put r s)) (idx (put r s)) (cyc (put r s))"
proof -
  have i: "idx s < sz - 1" using assms(1) by (simp add: ring_fresh_def)
  have "trb_cycle (slot (put r s) j) = (if j \<le> idx s then cyc s else \<not> cyc s)" if "j < sz - 1" for j
  proof (cases "j = idx s")
    case True
    then show ?thesis using put_here [OF i] trb_of_cycle [OF assms(2)] by simp
  next
    case False
    then show ?thesis using put_there [OF i that False] assms(1) that by (auto simp: ring_fresh_def)
  qed
  then show ?thesis
    using i by (auto simp: ring_fresh_def put_idx put_cyc)
qed

lemma fetch_here:
  assumes "ring_fresh sz (slot s) (idx s) (cyc s)" and "legal r"
  shows "xhc_fetch (slot (put r s)) (idx s, cyc s) = Some (trb_of r (cyc s), idx s + 1, cyc s)"
  using assms put_here trb_of_cycle trb_of_type by (simp add: ring_fresh_def xhc_fetch_def)

lemma fetch_idle:
  assumes "ring_fresh sz (slot s) (idx s) (cyc s)"
  shows "xhc_fetch (slot s) (idx s, cyc s) = None"
  using assms by (simp add: ring_fresh_def xhc_fetch_def)

end

text \<open>A ring whose producer writes a link TRB in the last slot when it wraps.\<close>

locale linked_ring = producer_ring +
  fixes phys :: "'a \<Rightarrow> u64"
  assumes three: "3 \<le> sz"
    and put_link: "idx s + 1 \<ge> sz - 1 \<Longrightarrow> slot (put r s) (sz - 1) = link_trb (phys s) (cyc s)"
    and put_keep: "idx s + 1 < sz - 1 \<Longrightarrow> slot (put r s) (sz - 1) = slot s (sz - 1)"
begin

lemma deliver:
  assumes fresh: "ring_fresh sz (slot s) (idx s) (cyc s)" and r: "legal r"
    and pos: "pos = (idx s, cyc s) \<or> pos = (sz - 1, \<not> cyc s) \<and> idx s = 0 \<and> slot s (sz - 1) = link_trb x (\<not> cyc s)"
  shows "xhc_fetch (slot (put r s)) pos = Some (trb_of r (cyc s), idx s + 1, cyc s)"
proof -
  have i: "idx s < sz - 1" using fresh by (simp add: ring_fresh_def)
  from pos show ?thesis
  proof
    assume "pos = (idx s, cyc s)"
    with fetch_here [OF fresh r] show ?thesis by simp
  next
    assume at_link: "pos = (sz - 1, \<not> cyc s) \<and> idx s = 0 \<and> slot s (sz - 1) = link_trb x (\<not> cyc s)"
    moreover have "idx s + 1 < sz - 1" using at_link three by simp
    ultimately have "slot (put r s) (sz - 1) = link_trb x (\<not> cyc s)" using put_keep by simp
    moreover have "slot (put r s) 0 = trb_of r (cyc s)" using put_here [OF i] at_link by simp
    ultimately show ?thesis
      using at_link trb_of_cycle [OF r] by (simp add: xhc_fetch_def control_bits control_bits(4) [unfolded One_nat_def] Let_def)
  qed
qed

lemma after_put:
  assumes "ring_fresh sz (slot s) (idx s) (cyc s)"
  shows "(idx s + 1, cyc s) = (idx (put r s), cyc (put r s))
     \<or> (idx s + 1, cyc s) = (sz - 1, \<not> cyc (put r s)) \<and> idx (put r s) = 0
        \<and> slot (put r s) (sz - 1) = link_trb (phys s) (\<not> cyc (put r s))"
  using assms put_link by (auto simp: ring_fresh_def put_idx put_cyc)

text \<open>The controller receives every request, however many there are.\<close>

lemma exchange_all:
  assumes "ring_fresh sz (slot s) (idx s) (cyc s)" and "\<forall>r \<in> set rs. legal r"
    and "pos = (idx s, cyc s) \<or> pos = (sz - 1, \<not> cyc s) \<and> idx s = 0 \<and> (\<exists>x. slot s (sz - 1) = link_trb x (\<not> cyc s))"
  shows "list_all2 (\<lambda>r t. \<exists>c. t = Some (trb_of r c)) rs (exchange put slot rs s pos)"
  using assms
proof (induction rs arbitrary: s pos)
  case Nil
  then show ?case by simp
next
  case (Cons r rs)
  have r: "legal r" using Cons.prems(2) by simp
  obtain x where x: "pos = (idx s, cyc s) \<or> pos = (sz - 1, \<not> cyc s) \<and> idx s = 0 \<and> slot s (sz - 1) = link_trb x (\<not> cyc s)"
    using Cons.prems(3) by blast
  have "list_all2 (\<lambda>r t. \<exists>c. t = Some (trb_of r c)) rs (exchange put slot rs (put r s) (idx s + 1, cyc s))"
    by (rule Cons.IH [OF fresh_put [OF Cons.prems(1) r]])
      (use Cons.prems(2) after_put [OF Cons.prems(1), of r] in auto)
  then show ?case using deliver [OF Cons.prems(1) r x] by (auto simp: Let_def)
qed

end

text \<open>A ring whose last slot is never written: the controller waits there for ever.\<close>

locale unlinked_ring = producer_ring +
  assumes put_last: "idx s < sz - 1 \<Longrightarrow> slot (put r s) (sz - 1) = slot s (sz - 1)"
begin

lemma idx_put: "idx s < sz - 1 \<Longrightarrow> idx (put r s) < sz - 1"
  using two by (auto simp: put_idx)

lemma exchange_stuck:
  assumes "trb_cycle (slot s (sz - 1)) \<noteq> c" "idx s < sz - 1"
  shows "exchange put slot rs s (sz - 1, c) = replicate (length rs) None"
  using assms
proof (induction rs arbitrary: s)
  case (Cons r rs)
  then have "xhc_fetch (slot (put r s)) (sz - 1, c) = None"
    using put_last [OF Cons.prems(2)] by (simp add: xhc_fetch_def)
  moreover have "exchange put slot rs (put r s) (sz - 1, c) = replicate (length rs) None"
    using Cons.prems idx_put put_last by (intro Cons.IH) auto
  ultimately show ?case by simp
qed simp

lemma exchange_until_full:
  assumes "ring_fresh sz (slot s) (idx s) (cyc s)" and "\<forall>r \<in> set rs. legal r"
    and "trb_cycle (slot s (sz - 1)) \<noteq> cyc s"
  shows "exchange put slot rs s (idx s, cyc s) =
     map (\<lambda>r. Some (trb_of r (cyc s))) (take (sz - 1 - idx s) rs) @ replicate (length rs - (sz - 1 - idx s)) None"
  using assms
proof (induction rs arbitrary: s)
  case Nil
  then show ?case by simp
next
  case (Cons r rs)
  have r: "legal r" and i: "idx s < sz - 1" using Cons.prems by (auto simp: ring_fresh_def)
  note fetch = fetch_here [OF Cons.prems(1) r]
  have last: "trb_cycle (slot (put r s) (sz - 1)) \<noteq> cyc s" using Cons.prems(3) put_last [OF i] by simp
  show ?case
  proof (cases "idx s + 1 < sz - 1")
    case True
    then have st: "idx (put r s) = idx s + 1" "cyc (put r s) = cyc s" by (simp_all add: put_idx put_cyc)
    have "exchange put slot rs (put r s) (idx (put r s), cyc (put r s)) =
       map (\<lambda>q. Some (trb_of q (cyc (put r s)))) (take (sz - 1 - idx (put r s)) rs)
         @ replicate (length rs - (sz - 1 - idx (put r s))) None"
      using Cons.IH [of "put r s"] fresh_put [OF Cons.prems(1) r] Cons.prems(2) last st by auto
    moreover have "sz - 1 - idx s = Suc (sz - 1 - (idx s + 1))" using True by simp
    ultimately show ?thesis using fetch by (simp add: st)
  next
    case False
    then have "idx s + 1 = sz - 1" using i by simp
    moreover have "exchange put slot rs (put r s) (sz - 1, cyc s) = replicate (length rs) None"
      by (rule exchange_stuck [OF last idx_put [OF i]])
    moreover have "sz - 1 - idx s = Suc 0" using \<open>idx s + 1 = sz - 1\<close> by simp
    ultimately show ?thesis using fetch by simp
  qed
qed

end

end
