(* ===== verification/Pci.thy ===== *)
theory Pci
  imports Machine
begin

text \<open>
  \<^verbatim>\<open>kernel/src/pci.rs\<close>: access to the PCI configuration space through the ports \<open>0xCF8\<close> and
  \<open>0xCFC\<close>, enumeration, BAR0, the capability list, MSI and MSI-X. The operations take the port
  instructions \<open>io\<close> and thread the device state. A result \<open>None\<close> is a panic.
\<close>

definition CONFIG_ADDRESS :: u16 where "CONFIG_ADDRESS = 0xCF8"
definition CONFIG_DATA :: u16 where "CONFIG_DATA = 0xCFC"

record PciDevice =
  bus :: u8
  device :: u8
  func :: u8
  vendor_id :: u16
  device_id :: u16
  dev_class :: u8
  dev_subclass :: u8
  prog_if :: u8
  header_type :: u8

definition config_address :: "u8 \<Rightarrow> u8 \<Rightarrow> u8 \<Rightarrow> u8 \<Rightarrow> u32" where
  "config_address b d f off =
     push_bit 31 1 OR push_bit 16 (ucast b) OR push_bit 11 (ucast (d AND 0x1F))
       OR push_bit 8 (ucast (f AND 0x07)) OR ucast (off AND 0xFC)"

definition config_read_u32 :: "('h, 'e) ports_scheme \<Rightarrow> u8 \<Rightarrow> u8 \<Rightarrow> u8 \<Rightarrow> u8 \<Rightarrow> 'h \<Rightarrow> u32 \<times> 'h" where
  "config_read_u32 io b d f off h =
     (let addr = config_address b d f off; h = outl io CONFIG_ADDRESS addr h
      in inl io CONFIG_DATA h)"

definition config_read_u16 :: "('h, 'e) ports_scheme \<Rightarrow> u8 \<Rightarrow> u8 \<Rightarrow> u8 \<Rightarrow> u8 \<Rightarrow> 'h \<Rightarrow> u16 \<times> 'h" where
  "config_read_u16 io b d f off h =
     (let (v, h) = config_read_u32 io b d f (off AND 0xFC) h; shift = (off AND 2) * 8
      in (ucast (drop_bit (unat shift) v AND 0xFFFF), h))"

definition config_read_u8 :: "('h, 'e) ports_scheme \<Rightarrow> u8 \<Rightarrow> u8 \<Rightarrow> u8 \<Rightarrow> u8 \<Rightarrow> 'h \<Rightarrow> u8 \<times> 'h" where
  "config_read_u8 io b d f off h =
     (let (v, h) = config_read_u32 io b d f (off AND 0xFC) h; shift = (off AND 3) * 8
      in (ucast (drop_bit (unat shift) v AND 0xFF), h))"

definition config_write_u32 :: "('h, 'e) ports_scheme \<Rightarrow> u8 \<Rightarrow> u8 \<Rightarrow> u8 \<Rightarrow> u8 \<Rightarrow> u32 \<Rightarrow> 'h \<Rightarrow> 'h" where
  "config_write_u32 io b d f off v h =
     (let addr = config_address b d f off; h = outl io CONFIG_ADDRESS addr h
      in outl io CONFIG_DATA v h)"

definition config_write_u16 :: "('h, 'e) ports_scheme \<Rightarrow> u8 \<Rightarrow> u8 \<Rightarrow> u8 \<Rightarrow> u8 \<Rightarrow> u16 \<Rightarrow> 'h \<Rightarrow> 'h" where
  "config_write_u16 io b d f off v h =
     (let (old, h) = config_read_u32 io b d f (off AND 0xFC) h;
          shift = (off AND 2) * 8;
          msk = NOT (push_bit (unat shift) 0xFFFF);
          new = (old AND msk) OR push_bit (unat shift) (ucast v)
      in config_write_u32 io b d f (off AND 0xFC) new h)"

definition config_write_u8 :: "('h, 'e) ports_scheme \<Rightarrow> u8 \<Rightarrow> u8 \<Rightarrow> u8 \<Rightarrow> u8 \<Rightarrow> u8 \<Rightarrow> 'h \<Rightarrow> 'h" where
  "config_write_u8 io b d f off v h =
     (let (old, h) = config_read_u32 io b d f (off AND 0xFC) h;
          shift = (off AND 3) * 8;
          msk = NOT (push_bit (unat shift) 0xFF);
          new = (old AND msk) OR push_bit (unat shift) (ucast v)
      in config_write_u32 io b d f (off AND 0xFC) new h)"

definition probe_function :: "('h, 'e) ports_scheme \<Rightarrow> u8 \<Rightarrow> u8 \<Rightarrow> u8 \<Rightarrow> 'h \<Rightarrow> PciDevice option \<times> 'h" where
  "probe_function io b d f h =
     (let (vid, h) = config_read_u16 io b d f 0x00 h in
      if vid = 0xFFFF then (None, h)
      else
        let (did, h) = config_read_u16 io b d f 0x02 h;
            (cls, h) = config_read_u8 io b d f 0x0B h;
            (sub, h) = config_read_u8 io b d f 0x0A h;
            (pif, h) = config_read_u8 io b d f 0x09 h;
            (hdr, h) = config_read_u8 io b d f 0x0E h
        in (Some \<lparr>bus = b, device = d, func = f, vendor_id = vid, device_id = did, dev_class = cls,
                  dev_subclass = sub, prog_if = pif, header_type = hdr\<rparr>, h))"

text \<open>
  The enumeration. \<open>scan_pci_bus\<close> prints each device it finds and \<open>find_usb_controllers\<close> collects the USB
  controllers; both run the same three loops. The devices printed are the list returned here.
\<close>

fun scan_functions :: "('h, 'e) ports_scheme \<Rightarrow> (PciDevice \<Rightarrow> bool) \<Rightarrow> u8 \<Rightarrow> u8 \<Rightarrow> u8 list \<Rightarrow> 'h \<Rightarrow> PciDevice list \<times> 'h" where
  "scan_functions io keep b d [] h = ([], h)"
| "scan_functions io keep b d (f # fs) h =
     (let (r, h) = probe_function io b d f h;
          found = (case r of Some dev \<Rightarrow> if keep dev then [dev] else [] | None \<Rightarrow> []);
          (rest, h) = scan_functions io keep b d fs h
      in (found @ rest, h))"

definition scan_device :: "('h, 'e) ports_scheme \<Rightarrow> (PciDevice \<Rightarrow> bool) \<Rightarrow> u8 \<Rightarrow> u8 \<Rightarrow> 'h \<Rightarrow> PciDevice list \<times> 'h" where
  "scan_device io keep b d h =
     (let (r, h) = probe_function io b d 0 h in
      case r of
        None \<Rightarrow> ([], h)
      | Some dev \<Rightarrow>
          let found = (if keep dev then [dev] else []);
              (rest, h) = (if header_type dev AND 0x80 \<noteq> 0
                           then scan_functions io keep b d (map of_nat [1..<8]) h else ([], h))
          in (found @ rest, h))"

fun scan_devices :: "('h, 'e) ports_scheme \<Rightarrow> (PciDevice \<Rightarrow> bool) \<Rightarrow> (u8 \<times> u8) list \<Rightarrow> 'h \<Rightarrow> PciDevice list \<times> 'h" where
  "scan_devices io keep [] h = ([], h)"
| "scan_devices io keep ((b, d) # bds) h =
     (let (found, h) = scan_device io keep b d h; (rest, h) = scan_devices io keep bds h
      in (found @ rest, h))"

definition all_slots :: "(u8 \<times> u8) list" where
  "all_slots = List.product (map of_nat [0..<256]) (map of_nat [0..<32])"

definition scan_pci_bus :: "('h, 'e) ports_scheme \<Rightarrow> 'h \<Rightarrow> PciDevice list \<times> 'h" where
  "scan_pci_bus io h = scan_devices io (\<lambda>_. True) all_slots h"

definition find_usb_controllers :: "('h, 'e) ports_scheme \<Rightarrow> 'h \<Rightarrow> PciDevice list \<times> 'h" where
  "find_usb_controllers io h =
     scan_devices io (\<lambda>dev. dev_class dev = 0x0C \<and> dev_subclass dev = 0x03) all_slots h"

definition PCI_COMMAND :: u8 where "PCI_COMMAND = 0x04"
definition CMD_MEMORY_SPACE :: u16 where "CMD_MEMORY_SPACE = push_bit 0 1"
definition CMD_BUS_MASTER :: u16 where "CMD_BUS_MASTER = push_bit 2 1"

definition enable_device :: "('h, 'e) ports_scheme \<Rightarrow> PciDevice \<Rightarrow> 'h \<Rightarrow> 'h" where
  "enable_device io dev h =
     (let (command, h) = config_read_u16 io (bus dev) (device dev) (func dev) PCI_COMMAND h;
          command = command OR CMD_MEMORY_SPACE;
          command = command OR CMD_BUS_MASTER;
          h = config_write_u16 io (bus dev) (device dev) (func dev) PCI_COMMAND command h;
          (verify, h) = config_read_u16 io (bus dev) (device dev) (func dev) PCI_COMMAND h
      in h)"

definition PCI_BAR0 :: u8 where "PCI_BAR0 = 0x10"

record BarInfo =
  address :: u64
  is_64bit :: bool
  is_prefetchable :: bool

definition get_bar0 :: "('h, 'e) ports_scheme \<Rightarrow> PciDevice \<Rightarrow> 'h \<Rightarrow> (BarInfo \<times> 'h) option" where
  "get_bar0 io dev h =
     (let (bar0, h) = config_read_u32 io (bus dev) (device dev) (func dev) PCI_BAR0 h in
      if bar0 AND 0x1 \<noteq> 0 then None
      else
        let bar_type = drop_bit 1 bar0 AND 0x3;
            prefetchable = (drop_bit 3 bar0 AND 0x1 = 1);
            wide = (bar_type = 0x2);
            base_low = ucast (bar0 AND 0xFFFFFFF0) :: u64;
            (addr, h) =
              (if wide then
                 let (bar1, h) = config_read_u32 io (bus dev) (device dev) (func dev) (PCI_BAR0 + 4) h
                 in (push_bit 32 (ucast bar1) OR base_low, h)
               else (base_low, h))
        in Some (\<lparr>address = addr, is_64bit = wide, is_prefetchable = prefetchable\<rparr>, h))"

definition get_bar0_size :: "('h, 'e) ports_scheme \<Rightarrow> PciDevice \<Rightarrow> 'h \<Rightarrow> u64 \<times> 'h" where
  "get_bar0_size io dev h =
     (let b = bus dev; d = device dev; f = func dev;
          (original, h) = config_read_u32 io b d f PCI_BAR0 h;
          h = config_write_u32 io b d f PCI_BAR0 0xFFFFFFFF h;
          (readback, h) = config_read_u32 io b d f PCI_BAR0 h;
          h = config_write_u32 io b d f PCI_BAR0 original h;
          wide = (drop_bit 1 original AND 0x3 = 0x2);
          msk = readback AND 0xFFFFFFF0
      in
      if wide then
        let (original_hi, h) = config_read_u32 io b d f (PCI_BAR0 + 4) h;
            h = config_write_u32 io b d f (PCI_BAR0 + 4) 0xFFFFFFFF h;
            (readback_hi, h) = config_read_u32 io b d f (PCI_BAR0 + 4) h;
            h = config_write_u32 io b d f (PCI_BAR0 + 4) original_hi h;
            full_mask = push_bit 32 (ucast readback_hi) OR ucast msk :: u64
        in (NOT full_mask + 1, h)
      else (ucast (ucast (NOT (ucast msk :: u64)) + 1 :: u32), h))"

definition PCI_STATUS :: u8 where "PCI_STATUS = 0x06"
definition PCI_CAPABILITIES_PTR :: u8 where "PCI_CAPABILITIES_PTR = 0x34"
definition CAP_ID_MSI :: u8 where "CAP_ID_MSI = 0x05"
definition CAP_ID_MSIX :: u8 where "CAP_ID_MSIX = 0x11"

text \<open>The loop of \<open>find_capability\<close>; the first argument counts down the 48 rounds of \<open>safety_counter\<close>.\<close>

fun find_cap_loop :: "nat \<Rightarrow> ('h, 'e) ports_scheme \<Rightarrow> PciDevice \<Rightarrow> u8 \<Rightarrow> u8 \<Rightarrow> 'h \<Rightarrow> (u8 option \<times> 'h) option" where
  "find_cap_loop 0 io dev cap_id ptr h = Some (None, h)"
| "find_cap_loop (Suc n) io dev cap_id ptr h =
     (if ptr = 0 then Some (None, h)
      else
        let (cid, h) = config_read_u8 io (bus dev) (device dev) (func dev) ptr h in
        if cid = cap_id then Some (Some ptr, h)
        else do {
          off \<leftarrow> checked_add ptr 1;
          let (p, h) = config_read_u8 io (bus dev) (device dev) (func dev) off h;
          find_cap_loop n io dev cap_id (p AND 0xFC) h
        })"

definition find_capability :: "('h, 'e) ports_scheme \<Rightarrow> PciDevice \<Rightarrow> u8 \<Rightarrow> 'h \<Rightarrow> (u8 option \<times> 'h) option" where
  "find_capability io dev cap_id h =
     (let (status, h) = config_read_u16 io (bus dev) (device dev) (func dev) PCI_STATUS h in
      if status AND push_bit 4 1 = 0 then Some (None, h)
      else
        let (ptr, h) = config_read_u8 io (bus dev) (device dev) (func dev) PCI_CAPABILITIES_PTR h
        in find_cap_loop 48 io dev cap_id (ptr AND 0xFC) h)"

definition enable_msi :: "('h, 'e) ports_scheme \<Rightarrow> PciDevice \<Rightarrow> u8 \<Rightarrow> u8 \<Rightarrow> 'h \<Rightarrow> 'h option" where
  "enable_msi io dev vector apic_id h = do {
     (r, h) \<leftarrow> find_capability io dev 0x05 h;
     case r of
       None \<Rightarrow> Some h
     | Some msi_ptr \<Rightarrow> do {
         let msg_addr = 0xFEE00000 OR push_bit 12 (ucast apic_id);
         let msg_data = (ucast vector :: u32);
         off4 \<leftarrow> checked_add msi_ptr 4;
         let h = config_write_u32 io (bus dev) (device dev) (func dev) off4 msg_addr h;
         off8 \<leftarrow> checked_add msi_ptr 8;
         let h = config_write_u16 io (bus dev) (device dev) (func dev) off8 (ucast msg_data) h;
         off2 \<leftarrow> checked_add msi_ptr 2;
         let (ctrl, h) = config_read_u16 io (bus dev) (device dev) (func dev) off2 h;
         Some (config_write_u16 io (bus dev) (device dev) (func dev) off2 (ctrl OR 1) h)
       }
   }"

record MsixInfo =
  cap_offset :: u8
  table_bar :: u8
  table_offset :: u32
  pba_bar :: u8
  pba_offset :: u32
  table_size :: u16

definition get_msix_info :: "('h, 'e) ports_scheme \<Rightarrow> PciDevice \<Rightarrow> 'h \<Rightarrow> (MsixInfo option \<times> 'h) option" where
  "get_msix_info io dev h = do {
     (r, h) \<leftarrow> find_capability io dev CAP_ID_MSIX h;
     case r of
       None \<Rightarrow> Some (None, h)
     | Some cap \<Rightarrow> do {
         off2 \<leftarrow> checked_add cap 2;
         let (msg_ctrl, h) = config_read_u16 io (bus dev) (device dev) (func dev) off2 h;
         size \<leftarrow> checked_add (msg_ctrl AND 0x7FF) 1;
         off4 \<leftarrow> checked_add cap 4;
         let (table_reg, h) = config_read_u32 io (bus dev) (device dev) (func dev) off4 h;
         off8 \<leftarrow> checked_add cap 8;
         let (pba_reg, h) = config_read_u32 io (bus dev) (device dev) (func dev) off8 h;
         Some (Some \<lparr>cap_offset = cap, table_bar = ucast (table_reg AND 0x7), table_offset = table_reg AND NOT 0x7,
                     pba_bar = ucast (pba_reg AND 0x7), pba_offset = pba_reg AND NOT 0x7, table_size = size\<rparr>, h)
       }
   }"

definition set_msix_enable :: "('h, 'e) ports_scheme \<Rightarrow> PciDevice \<Rightarrow> u8 \<Rightarrow> bool \<Rightarrow> 'h \<Rightarrow> 'h option" where
  "set_msix_enable io dev cap enable h = do {
     off \<leftarrow> checked_add cap 2;
     let (ctrl, h) = config_read_u16 io (bus dev) (device dev) (func dev) off h;
     let ctrl = (if enable then (ctrl OR push_bit 15 1) AND NOT (push_bit 14 1)
                 else ctrl AND NOT (push_bit 15 1));
     off \<leftarrow> checked_add cap 2;
     Some (config_write_u16 io (bus dev) (device dev) (func dev) off ctrl h)
   }"

section \<open>What the drivers rely on\<close>

text \<open>
  Configuration mechanism 1 as the PCI specification documents it: after an address with bit 31 set was
  written to \<open>0xCF8\<close>, reading \<open>0xCFC\<close> gives the register at that address and changes none, and writing
  \<open>0xCFC\<close> updates that register only. How a register takes a written value (read-only bits, bits that a
  one clears) is \<open>upd\<close>, a function of its address, its old content and the value.
\<close>

definition config_space :: "('h, 'e) ports_scheme \<Rightarrow> ('h \<Rightarrow> u32 \<Rightarrow> u32) \<Rightarrow> (u32 \<Rightarrow> u32 \<Rightarrow> u32 \<Rightarrow> u32) \<Rightarrow> bool" where
  "config_space io cfg upd \<longleftrightarrow>
     (\<forall>a h. bit a 31 \<longrightarrow> fst (inl io CONFIG_DATA (outl io CONFIG_ADDRESS a h)) = cfg h a
        \<and> cfg (snd (inl io CONFIG_DATA (outl io CONFIG_ADDRESS a h))) = cfg h)
     \<and> (\<forall>a v h. bit a 31 \<longrightarrow>
        cfg (outl io CONFIG_DATA v (outl io CONFIG_ADDRESS a h)) = (cfg h)(a := upd a (cfg h a) v))"

definition reg_addr :: "PciDevice \<Rightarrow> u8 \<Rightarrow> u32" where
  "reg_addr dev off = config_address (bus dev) (device dev) (func dev) off"

definition lane16 :: "u8 \<Rightarrow> u32 \<Rightarrow> u16" where
  "lane16 off v = ucast (drop_bit (8 * unat (off AND 2)) v)"

definition lane8 :: "u8 \<Rightarrow> u32 \<Rightarrow> u8" where
  "lane8 off v = ucast (drop_bit (8 * unat (off AND 3)) v)"

definition put16 :: "u8 \<Rightarrow> u16 \<Rightarrow> u32 \<Rightarrow> u32" where
  "put16 off v old = (old AND NOT (push_bit (8 * unat (off AND 2)) 0xFFFF)) OR push_bit (8 * unat (off AND 2)) (ucast v)"

lemma bit_config_address [simp]: "bit (config_address b d f off) 31"
  by (simp add: config_address_def bit_simps)

lemma config_address_dword [simp]: "config_address b d f (off AND 0xFC) = config_address b d f off"
  by (simp add: config_address_def and.assoc)

lemma and_2_cases: "off AND 2 = 0 \<or> off AND 2 = (2 :: u8)"
proof -
  have "off AND 2 = (if bit off 1 then 2 else 0)"
    by (rule bit_word_eqI) (auto simp: bit_simps numeral_2_eq_2 bit_Suc odd_iff_mod_2_eq_one elim: less_SucE)
  then show ?thesis by simp
qed

lemma shift_2: "unat ((off AND 2) * 8 :: u8) = 8 * unat (off AND 2)"
  using and_2_cases [of off] by auto

lemma shift_3: "unat ((off AND 3) * 8 :: u8) = 8 * unat (off AND 3)"
proof -
  have "off AND 3 = off AND mask 2" by (simp add: mask_eq_exp_minus_1)
  then have "unat (off AND 3) < 4" by (simp add: unat_and_mask)
  then show ?thesis by (simp add: unat_word_ariths)
qed

lemma ucast_FFFF: "ucast (x AND 0xFFFF :: u32) = (ucast x :: u16)" "ucast (x AND 0xFF :: u32) = (ucast x :: u8)"
proof -
  have m: "(0xFFFF :: u32) = mask 16" "(0xFF :: u32) = mask 8" by (simp_all add: mask_eq_exp_minus_1)
  show "ucast (x AND 0xFFFF :: u32) = (ucast x :: u16)"
    unfolding m by (rule bit_word_eqI) (auto simp: bit_simps)
  show "ucast (x AND 0xFF :: u32) = (ucast x :: u8)"
    unfolding m by (rule bit_word_eqI) (auto simp: bit_simps)
qed

lemma read_u32:
  assumes "config_space io cfg upd"
  obtains h' where "config_read_u32 io b d f off h = (cfg h (config_address b d f off), h')" "cfg h' = cfg h"
proof -
  let ?r = "inl io CONFIG_DATA (outl io CONFIG_ADDRESS (config_address b d f off) h)"
  have "fst ?r = cfg h (config_address b d f off)" "cfg (snd ?r) = cfg h"
    using assms by (simp_all add: config_space_def)
  then show ?thesis by (intro that [of "snd ?r"]) (simp_all add: config_read_u32_def Let_def prod_eq_iff)
qed

lemma write_u32:
  "config_space io cfg upd \<Longrightarrow> cfg (config_write_u32 io b d f off v h) =
     (cfg h)(config_address b d f off := upd (config_address b d f off) (cfg h (config_address b d f off)) v)"
  by (simp add: config_space_def config_write_u32_def)

lemma read_u16:
  assumes "config_space io cfg upd"
  obtains h' where "config_read_u16 io b d f off h = (lane16 off (cfg h (config_address b d f off)), h')" "cfg h' = cfg h"
  by (rule read_u32 [OF assms, of b d f "off AND 0xFC" h])
    (use that in \<open>simp add: config_read_u16_def lane16_def shift_2 ucast_FFFF\<close>)

lemma read_u8:
  assumes "config_space io cfg upd"
  obtains h' where "config_read_u8 io b d f off h = (lane8 off (cfg h (config_address b d f off)), h')" "cfg h' = cfg h"
  by (rule read_u32 [OF assms, of b d f "off AND 0xFC" h])
    (use that in \<open>simp add: config_read_u8_def lane8_def shift_3 ucast_FFFF\<close>)

lemma write_u16:
  assumes "config_space io cfg upd"
  shows "cfg (config_write_u16 io b d f off v h) = (cfg h)(config_address b d f off :=
     upd (config_address b d f off) (cfg h (config_address b d f off)) (put16 off v (cfg h (config_address b d f off))))"
  by (rule read_u32 [OF assms, of b d f "off AND 0xFC" h])
    (simp add: config_write_u16_def write_u32 [OF assms] put16_def shift_2)

lemma lane16_put16:
  "lane16 off (put16 off v old) = v"
  "off AND 2 \<noteq> off' AND 2 \<Longrightarrow> lane16 off' (put16 off v old) = lane16 off' old"
proof -
  have m: "(0xFFFF :: u32) = mask 16" by (simp add: mask_eq_exp_minus_1)
  show "lane16 off (put16 off v old) = v"
    unfolding lane16_def put16_def m using and_2_cases [of off]
    by (intro bit_word_eqI) (auto simp: bit_simps)
  show "lane16 off' (put16 off v old) = lane16 off' old" if "off AND 2 \<noteq> off' AND 2"
    unfolding lane16_def put16_def m using and_2_cases [of off] and_2_cases [of off'] that
    by (intro bit_word_eqI) (auto simp: bit_simps dest: bit_imp_le_length)
qed

section \<open>Enumeration\<close>

definition function_present :: "(u32 \<Rightarrow> u32) \<Rightarrow> u8 \<Rightarrow> u8 \<Rightarrow> u8 \<Rightarrow> bool" where
  "function_present c b d f \<longleftrightarrow> lane16 0x00 (c (config_address b d f 0x00)) \<noteq> 0xFFFF"

definition device_at :: "(u32 \<Rightarrow> u32) \<Rightarrow> u8 \<Rightarrow> u8 \<Rightarrow> u8 \<Rightarrow> PciDevice" where
  "device_at c b d f = \<lparr>bus = b, device = d, func = f,
     vendor_id = lane16 0x00 (c (config_address b d f 0x00)),
     device_id = lane16 0x02 (c (config_address b d f 0x02)),
     dev_class = lane8 0x0B (c (config_address b d f 0x0B)),
     dev_subclass = lane8 0x0A (c (config_address b d f 0x0A)),
     prog_if = lane8 0x09 (c (config_address b d f 0x09)),
     header_type = lane8 0x0E (c (config_address b d f 0x0E))\<rparr>"

definition enumerated :: "(u32 \<Rightarrow> u32) \<Rightarrow> u8 \<times> u8 \<Rightarrow> u8 \<Rightarrow> bool" where
  "enumerated c = (\<lambda>(b, d) f. function_present c b d 0 \<and>
     (f = 0 \<or> header_type (device_at c b d 0) AND 0x80 \<noteq> 0 \<and> function_present c b d f))"

lemma probe_function_eq:
  assumes "config_space io cfg upd"
  obtains h' where "probe_function io b d f h =
      (if function_present (cfg h) b d f then Some (device_at (cfg h) b d f) else None, h')" "cfg h' = cfg h"
proof -
  obtain h1 where 1: "config_read_u16 io b d f 0x00 h = (lane16 0x00 (cfg h (config_address b d f 0x00)), h1)" "cfg h1 = cfg h"
    using read_u16 [OF assms] by blast
  obtain h2 where 2: "config_read_u16 io b d f 0x02 h1 = (lane16 0x02 (cfg h (config_address b d f 0x02)), h2)" "cfg h2 = cfg h"
    using read_u16 [OF assms] 1(2) by metis
  obtain h3 where 3: "config_read_u8 io b d f 0x0B h2 = (lane8 0x0B (cfg h (config_address b d f 0x0B)), h3)" "cfg h3 = cfg h"
    using read_u8 [OF assms] 2(2) by metis
  obtain h4 where 4: "config_read_u8 io b d f 0x0A h3 = (lane8 0x0A (cfg h (config_address b d f 0x0A)), h4)" "cfg h4 = cfg h"
    using read_u8 [OF assms] 3(2) by metis
  obtain h5 where 5: "config_read_u8 io b d f 0x09 h4 = (lane8 0x09 (cfg h (config_address b d f 0x09)), h5)" "cfg h5 = cfg h"
    using read_u8 [OF assms] 4(2) by metis
  obtain h6 where 6: "config_read_u8 io b d f 0x0E h5 = (lane8 0x0E (cfg h (config_address b d f 0x0E)), h6)" "cfg h6 = cfg h"
    using read_u8 [OF assms] 5(2) by metis
  show ?thesis
  proof (cases "function_present (cfg h) b d f")
    case True
    with 1 2 3 4 5 6 show ?thesis
      by (intro that [of h6]) (simp_all add: probe_function_def function_present_def device_at_def)
  next
    case False
    with 1 show ?thesis
      by (intro that [of h1]) (simp_all add: probe_function_def function_present_def)
  qed
qed

lemma scan_functions_eq:
  assumes "config_space io cfg upd"
  shows "\<exists>h'. scan_functions io keep b d fs h =
      (filter keep (map (device_at (cfg h) b d) (filter (function_present (cfg h) b d) fs)), h') \<and> cfg h' = cfg h"
proof (induction fs arbitrary: h)
  case Nil
  then show ?case by simp
next
  case (Cons f fs)
  obtain h1 where 1: "probe_function io b d f h =
      (if function_present (cfg h) b d f then Some (device_at (cfg h) b d f) else None, h1)" "cfg h1 = cfg h"
    using probe_function_eq [OF assms] by blast
  from Cons.IH [of h1] 1 show ?case by (auto split: if_splits)
qed

lemma scan_device_eq:
  assumes "config_space io cfg upd"
  shows "\<exists>h'. scan_device io keep b d h =
      (filter keep (map (device_at (cfg h) b d) (filter (enumerated (cfg h) (b, d)) (map of_nat [0..<8]))), h')
      \<and> cfg h' = cfg h"
proof -
  obtain h1 where 1: "probe_function io b d 0 h =
      (if function_present (cfg h) b d 0 then Some (device_at (cfg h) b d 0) else None, h1)" "cfg h1 = cfg h"
    using probe_function_eq [OF assms] by blast
  obtain h2 where 2: "scan_functions io keep b d (map of_nat [1..<8]) h1 =
      (filter keep (map (device_at (cfg h) b d) (filter (function_present (cfg h) b d) (map of_nat [1..<8]))), h2)"
      "cfg h2 = cfg h"
    using scan_functions_eq [OF assms, of keep b d _ h1] 1(2) by metis
  have fs: "map of_nat [0..<8] = (0 :: u8) # map of_nat [1..<8]"
    by (simp add: upt_rec)
  have nz: "f \<noteq> 0" if "f \<in> set (map of_nat [1..<8])" for f :: u8
    using that by (auto simp: upt_rec)
  consider "\<not> function_present (cfg h) b d 0"
    | "function_present (cfg h) b d 0" "header_type (device_at (cfg h) b d 0) AND 0x80 = 0"
    | "function_present (cfg h) b d 0" "header_type (device_at (cfg h) b d 0) AND 0x80 \<noteq> 0" by blast
  then show ?thesis
  proof cases
    case 1
    then show ?thesis using \<open>cfg h1 = cfg h\<close> by (simp add: scan_device_def \<open>probe_function io b d 0 h = _\<close> enumerated_def)
  next
    case 2
    have "filter (enumerated (cfg h) (b, d)) (map of_nat [1..<8]) = []"
      using nz 2 by (auto simp: filter_empty_conv enumerated_def)
    with 2 show ?thesis
      using \<open>cfg h1 = cfg h\<close> by (simp add: scan_device_def \<open>probe_function io b d 0 h = _\<close> fs enumerated_def del: upt_rec)
  next
    case 3
    have "filter (enumerated (cfg h) (b, d)) (map of_nat [1..<8])
        = filter (function_present (cfg h) b d) (map of_nat [1..<8])"
      using nz 3 by (intro filter_cong) (auto simp: enumerated_def)
    moreover have "enumerated (cfg h) (b, d) 0" using 3 by (simp add: enumerated_def)
    ultimately show ?thesis
      using 3 2 by (simp add: scan_device_def \<open>probe_function io b d 0 h = _\<close> fs)
  qed
qed

definition enumeration :: "(u32 \<Rightarrow> u32) \<Rightarrow> (u8 \<times> u8) list \<Rightarrow> PciDevice list" where
  "enumeration c bds = map (\<lambda>((b, d), f). device_at c b d f)
     (filter (\<lambda>(bd, f). enumerated c bd f) (List.product bds (map of_nat [0..<8])))"

lemma enumeration_Cons:
  "enumeration c ((b, d) # bds) =
     map (device_at c b d) (filter (enumerated c (b, d)) (map of_nat [0..<8])) @ enumeration c bds"
  by (simp add: enumeration_def filter_map comp_def del: upt_rec)

lemma scan_devices_eq:
  assumes "config_space io cfg upd"
  shows "\<exists>h'. scan_devices io keep bds h = (filter keep (enumeration (cfg h) bds), h') \<and> cfg h' = cfg h"
proof (induction bds arbitrary: h)
  case Nil
  then show ?case by (simp add: enumeration_def)
next
  case (Cons bd bds)
  obtain b d where bd: "bd = (b, d)" by (cases bd)
  obtain h1 where 1: "scan_device io keep b d h =
      (filter keep (map (device_at (cfg h) b d) (filter (enumerated (cfg h) (b, d)) (map of_nat [0..<8]))), h1)"
      "cfg h1 = cfg h"
    using scan_device_eq [OF assms] by blast
  from Cons.IH [of h1] 1(2) obtain h2 where 2: "scan_devices io keep bds h1 = (filter keep (enumeration (cfg h) bds), h2)"
      "cfg h2 = cfg h" by auto
  show ?case by (simp only: bd scan_devices.simps 1 2 enumeration_Cons Let_def prod.case filter_append) (use 2 in blast)
qed

lemma scan_devices_fst:
  assumes "config_space io cfg upd"
  shows "fst (scan_devices io keep bds h) = filter keep (enumeration (cfg h) bds)"
proof -
  obtain h' where "scan_devices io keep bds h = (filter keep (enumeration (cfg h) bds), h')"
    using scan_devices_eq [OF assms] by blast
  then show ?thesis by simp
qed

lemma of_nat_inj_below: "n \<le> 2 ^ LENGTH('a) \<Longrightarrow> inj_on (of_nat :: nat \<Rightarrow> 'a::len word) {..<n}"
  by (rule inj_onI) (metis lessThan_iff mod_less order_less_le_trans unat_of_nat)

lemma set_of_nat_below: "n \<le> 2 ^ LENGTH('a) \<Longrightarrow> x \<in> of_nat ` {..<n} \<longleftrightarrow> unat x < n" for x :: "'a::len word"
proof
  assume n: "n \<le> 2 ^ LENGTH('a)" and "x \<in> of_nat ` {..<n}"
  then obtain k where "k < n" "x = of_nat k" by auto
  moreover have "k mod 2 ^ LENGTH('a) = k" using n \<open>k < n\<close> by simp
  ultimately show "unat x < n" by (simp add: unat_of_nat)
next
  assume "unat x < n"
  then show "x \<in> of_nat ` {..<n}" by (intro image_eqI [of _ _ "unat x"]) simp_all
qed

lemma set_device_product:
  "dev \<in> set (map (\<lambda>((b, d), f). device_at c b d f) (filter (\<lambda>(bd, f). enumerated c bd f) (List.product xs fs))) \<longleftrightarrow>
     (\<exists>b d f. (b, d) \<in> set xs \<and> f \<in> set fs \<and> enumerated c (b, d) f \<and> dev = device_at c b d f)"
  by (force simp: image_iff)

lemma enumeration_all_slots:
  "dev \<in> set (enumeration c all_slots) \<longleftrightarrow>
     (\<exists>b d f. unat d < 32 \<and> unat f < 8 \<and> enumerated c (b, d) f \<and> dev = device_at c b d f)"
  "distinct (map (\<lambda>dev. (bus dev, device dev, func dev)) (enumeration c all_slots))"
proof -
  have slots: "(b, d) \<in> set all_slots \<longleftrightarrow> unat d < 32" for b d :: u8
    using set_of_nat_below [of 256 b] set_of_nat_below [of 32 d] unsigned_less [of b, where 'a = nat]
    by (simp add: all_slots_def atLeast0LessThan)
  have fns: "f \<in> set (map of_nat [0..<8]) \<longleftrightarrow> unat f < 8" for f :: u8
    using set_of_nat_below [of 8 f] by (simp add: atLeast0LessThan)
  have "dev \<in> set (enumeration c all_slots) \<longleftrightarrow>
      (\<exists>b d f. (b, d) \<in> set all_slots \<and> f \<in> set (map of_nat [0..<8]) \<and> enumerated c (b, d) f \<and> dev = device_at c b d f)"
    unfolding enumeration_def by (rule set_device_product)
  then show "dev \<in> set (enumeration c all_slots) \<longleftrightarrow>
      (\<exists>b d f. unat d < 32 \<and> unat f < 8 \<and> enumerated c (b, d) f \<and> dev = device_at c b d f)"
    unfolding slots fns .
  have "distinct (map (of_nat :: nat \<Rightarrow> u8) [0..<n])" if "n \<le> 256" for n
    using of_nat_inj_below [where 'a = 8, of n] that by (simp add: distinct_map atLeast0LessThan)
  then have "distinct (List.product all_slots (map of_nat [0..<8] :: u8 list))"
    unfolding all_slots_def by (intro distinct_product) simp_all
  moreover have "map (\<lambda>dev. (bus dev, device dev, func dev)) (enumeration c all_slots)
      = map (\<lambda>((b, d), f). (b, d, f)) (filter (\<lambda>(bd, f). enumerated c bd f) (List.product all_slots (map of_nat [0..<8])))"
    by (auto simp: enumeration_def device_at_def)
  ultimately show "distinct (map (\<lambda>dev. (bus dev, device dev, func dev)) (enumeration c all_slots))"
    by (auto simp: distinct_map inj_on_def)
qed

section \<open>The capability list\<close>

fun cap_chain :: "nat \<Rightarrow> (u8 \<Rightarrow> u8) \<Rightarrow> u8 \<Rightarrow> u8 list" where
  "cap_chain 0 nxt p = []"
| "cap_chain (Suc n) nxt p = (if p = 0 then [] else p # cap_chain n nxt (nxt p))"

definition cap_id_of :: "(u32 \<Rightarrow> u32) \<Rightarrow> PciDevice \<Rightarrow> u8 \<Rightarrow> u8" where
  "cap_id_of c dev p = lane8 p (c (reg_addr dev p))"

definition cap_next_of :: "(u32 \<Rightarrow> u32) \<Rightarrow> PciDevice \<Rightarrow> u8 \<Rightarrow> u8" where
  "cap_next_of c dev p = lane8 (p + 1) (c (reg_addr dev (p + 1))) AND 0xFC"

definition capabilities :: "(u32 \<Rightarrow> u32) \<Rightarrow> PciDevice \<Rightarrow> u8 list" where
  "capabilities c dev =
     (if lane16 PCI_STATUS (c (reg_addr dev PCI_STATUS)) AND push_bit 4 1 = 0 then []
      else cap_chain 48 (cap_next_of c dev)
        (lane8 PCI_CAPABILITIES_PTR (c (reg_addr dev PCI_CAPABILITIES_PTR)) AND 0xFC))"

lemma and_FC_le: "unat (p AND 0xFC :: u8) \<le> 252"
  by (rule order_trans [OF word_le_nat_alt [THEN iffD1, OF word_and_le1]]) simp

lemma find_cap_loop_eq:
  assumes "config_space io cfg upd" and "p AND 0xFC = p"
  shows "\<exists>h'. find_cap_loop n io dev cap_id p h =
      Some (List.find (\<lambda>q. cap_id_of (cfg h) dev q = cap_id) (cap_chain n (cap_next_of (cfg h) dev) p), h') \<and> cfg h' = cfg h"
  using assms(2)
proof (induction n arbitrary: p h)
  case 0
  then show ?case by simp
next
  case (Suc n)
  obtain h1 where 1: "config_read_u8 io (bus dev) (device dev) (func dev) p h = (cap_id_of (cfg h) dev p, h1)" "cfg h1 = cfg h"
    using read_u8 [OF assms(1)] by (metis cap_id_of_def reg_addr_def)
  obtain h2 where 2: "config_read_u8 io (bus dev) (device dev) (func dev) (p + 1) h1
      = (lane8 (p + 1) (cfg h (reg_addr dev (p + 1))), h2)" "cfg h2 = cfg h"
    using read_u8 [OF assms(1)] 1(2) by (metis reg_addr_def)
  have off: "checked_add p 1 = Some (p + 1)"
    using and_FC_le [of p] Suc.prems by (simp add: checked_add_def)
  have nx: "cap_next_of (cfg h) dev p AND 0xFC = cap_next_of (cfg h) dev p"
    by (simp add: cap_next_of_def and.assoc)
  from Suc.IH [OF nx, of h2] 2(2) obtain h3 where 3: "find_cap_loop n io dev cap_id (cap_next_of (cfg h) dev p) h2 =
      Some (List.find (\<lambda>q. cap_id_of (cfg h) dev q = cap_id) (cap_chain n (cap_next_of (cfg h) dev) (cap_next_of (cfg h) dev p)), h3)"
      "cfg h3 = cfg h" by auto
  show ?case
    using 1(2) 3 by (simp add: 1(1) off 2(1)) (simp add: cap_next_of_def)
qed

lemma find_capability_eq:
  assumes "config_space io cfg upd"
  obtains h' where "find_capability io dev cap_id h =
      Some (List.find (\<lambda>p. cap_id_of (cfg h) dev p = cap_id) (capabilities (cfg h) dev), h')" "cfg h' = cfg h"
proof -
  obtain h1 where 1: "config_read_u16 io (bus dev) (device dev) (func dev) PCI_STATUS h
      = (lane16 PCI_STATUS (cfg h (reg_addr dev PCI_STATUS)), h1)" "cfg h1 = cfg h"
    using read_u16 [OF assms] by (metis reg_addr_def)
  obtain h2 where 2: "config_read_u8 io (bus dev) (device dev) (func dev) PCI_CAPABILITIES_PTR h1
      = (lane8 PCI_CAPABILITIES_PTR (cfg h (reg_addr dev PCI_CAPABILITIES_PTR)), h2)" "cfg h2 = cfg h"
    using read_u8 [OF assms] 1(2) by (metis reg_addr_def)
  show ?thesis
  proof (cases "lane16 PCI_STATUS (cfg h (reg_addr dev PCI_STATUS)) AND push_bit 4 1 = 0")
    case True
    with 1 show ?thesis by (intro that [of h1]) (simp_all add: find_capability_def capabilities_def)
  next
    case False
    let ?p = "lane8 PCI_CAPABILITIES_PTR (cfg h (reg_addr dev PCI_CAPABILITIES_PTR)) AND 0xFC"
    have "?p AND 0xFC = ?p" by (simp add: and.assoc)
    from find_cap_loop_eq [OF assms this, of 48 dev cap_id h2] 2(2) obtain h3 where
      "find_cap_loop 48 io dev cap_id ?p h2 =
        Some (List.find (\<lambda>p. cap_id_of (cfg h) dev p = cap_id) (cap_chain 48 (cap_next_of (cfg h) dev) ?p), h3)"
      "cfg h3 = cfg h" by auto
    with False 1 2 show ?thesis
      by (intro that [of h3]) (simp_all add: find_capability_def capabilities_def del: find_cap_loop.simps cap_chain.simps)
  qed
qed

lemma capabilities_aligned: "p \<in> set (capabilities c dev) \<Longrightarrow> p AND 0xFC = p \<and> p \<noteq> 0"
proof -
  have "p \<in> set (cap_chain n (cap_next_of c dev) q) \<Longrightarrow> q AND 0xFC = q \<Longrightarrow> p AND 0xFC = p \<and> p \<noteq> 0" for n q
  proof (induction n arbitrary: q)
    case (Suc n)
    have "cap_next_of c dev q AND 0xFC = cap_next_of c dev q" by (simp add: cap_next_of_def and.assoc)
    with Suc show ?case by (auto split: if_splits)
  qed simp
  then show "p \<in> set (capabilities c dev) \<Longrightarrow> p AND 0xFC = p \<and> p \<noteq> 0"
    by (auto simp: capabilities_def and.assoc simp del: cap_chain.simps split: if_splits)
qed

section \<open>A host bridge, for the witnesses\<close>

record bridge =
  latch :: u32
  regs :: "u32 \<Rightarrow> u32"

definition bridge_io :: "(u32 \<Rightarrow> u32 \<Rightarrow> u32 \<Rightarrow> u32) \<Rightarrow> bridge ports" where
  "bridge_io upd =
     \<lparr>inb = (\<lambda>p h. (0, h)), outb = (\<lambda>p v h. h),
      inl = (\<lambda>p h. (if p = CONFIG_DATA then regs h (latch h) else 0, h)),
      outl = (\<lambda>p v h. if p = CONFIG_ADDRESS then h\<lparr>latch := v\<rparr>
        else if p = CONFIG_DATA then h\<lparr>regs := (regs h)(latch h := upd (latch h) (regs h (latch h)) v)\<rparr> else h),
      rdmsr = (\<lambda>i h. (0, h)), wrmsr = (\<lambda>i v h. h)\<rparr>"

lemma bridge_config_space: "config_space (bridge_io upd) regs upd"
  by (simp add: config_space_def bridge_io_def CONFIG_ADDRESS_def CONFIG_DATA_def)

text \<open>An xHCI controller at \<open>00:01.0\<close> with a 64 KiB 64-bit BAR and one MSI-X capability at \<open>0xF8\<close>.\<close>

definition xhci_dev :: PciDevice where
  "xhci_dev = \<lparr>bus = 0, device = 1, func = 0, vendor_id = 0x1B36, device_id = 0x000D, dev_class = 0x0C,
     dev_subclass = 0x03, prog_if = 0x30, header_type = 0\<rparr>"

definition xhci_regs :: "u32 \<Rightarrow> u32" where
  "xhci_regs = (\<lambda>_. 0xFFFFFFFF)(0x80000800 := 0x000D1B36, 0x80000804 := 0x80100000, 0x80000808 := 0x0C033001,
     0x8000080C := 0, 0x80000810 := 0xFEB00004, 0x80000814 := 0, 0x80000834 := 0xF8, 0x800008F8 := 0x000F0011)"

definition xhci_bridge :: bridge where
  "xhci_bridge = \<lparr>latch = 0, regs = xhci_regs\<rparr>"

section \<open>Properties\<close>

lemma bit_config_address_iff:
  "n < 31 \<Longrightarrow> bit (config_address b d f off) n \<longleftrightarrow>
     16 \<le> n \<and> bit b (n - 16) \<or> 11 \<le> n \<and> bit (d AND 0x1F) (n - 11) \<or> 8 \<le> n \<and> bit (f AND 0x07) (n - 8)
     \<or> bit (off AND 0xFC) n"
  unfolding config_address_def bit_or_iff bit_push_bit_iff bit_ucast_iff bit_1_iff
  by (auto dest: bit_imp_le_length)

lemma bit_masked: "bit (d AND 0x1F :: u8) n \<Longrightarrow> n < 5" "bit (f AND 0x07 :: u8) n \<Longrightarrow> n < 3"
    "bit (off AND 0xFC :: u8) n \<Longrightarrow> 2 \<le> n \<and> n < 8"
proof -
  have m: "(0x1F :: u8) = mask 5" "(0x07 :: u8) = mask 3" "(0xFC :: u8) = mask 8 AND NOT (mask 2)"
    by (simp_all add: mask_eq_exp_minus_1)
  show "bit (d AND 0x1F :: u8) n \<Longrightarrow> n < 5" "bit (f AND 0x07 :: u8) n \<Longrightarrow> n < 3"
    "bit (off AND 0xFC :: u8) n \<Longrightarrow> 2 \<le> n \<and> n < 8"
    unfolding m by (auto simp: bit_simps)
qed

text \<open>
  The address of a configuration register names the bus, the device, the function and the
  double word of the register: two accesses use the same address exactly when they agree on all four.
\<close>

theorem config_address_same_register:
  "config_address b d f off = config_address b' d' f' off' \<longleftrightarrow>
     b = b' \<and> d AND 0x1F = d' AND 0x1F \<and> f AND 0x07 = f' AND 0x07 \<and> off AND 0xFC = off' AND 0xFC"
proof
  let ?a = "config_address b d f off" and ?a' = "config_address b' d' f' off'"
  assume eq: "?a = ?a'"
  have bits: "bit ?a n = bit ?a' n" for n using eq by simp
  have "bit b n = bit b' n" if "n < 8" for n
    using bits [of "16 + n"] that bit_masked [of _ "n + 5"] bit_masked [of _ "8 + n"] bit_masked [of _ "16 + n"]
    by (simp add: bit_config_address_iff) (auto dest: bit_masked)
  then have "b = b'" by (intro bit_word_eqI) simp
  moreover have "bit (d AND 0x1F) n = bit (d' AND 0x1F) n" if "n < 8" for n
    using bits [of "11 + n"] that by (cases "n < 5") (auto simp: bit_config_address_iff dest: bit_masked)
  then have "d AND 0x1F = d' AND 0x1F" by (intro bit_word_eqI) simp
  moreover have "bit (f AND 0x07) n = bit (f' AND 0x07) n" if "n < 8" for n
    using bits [of "8 + n"] that by (cases "n < 3") (auto simp: bit_config_address_iff dest: bit_masked)
  then have "f AND 0x07 = f' AND 0x07" by (intro bit_word_eqI) simp
  moreover have "bit (off AND 0xFC) n = bit (off' AND 0xFC) n" if "n < 8" for n
    using bits [of n] that by (auto simp: bit_config_address_iff)
  then have "off AND 0xFC = off' AND 0xFC" by (intro bit_word_eqI) simp
  ultimately show "b = b' \<and> d AND 0x1F = d' AND 0x1F \<and> f AND 0x07 = f' AND 0x07 \<and> off AND 0xFC = off' AND 0xFC"
    by blast
qed (simp add: config_address_def)

text \<open>
  On a register that takes what is written, \<open>config_write_u16\<close> writes its half of the double
  word and nothing else: reading it back gives the value, and the other half and all other registers
  are as before.
\<close>

theorem config_u16_round_trip:
  assumes cs: "config_space io cfg upd" and plain: "\<And>old v. upd (reg_addr dev off) old v = v"
  shows "cfg (config_write_u16 io (bus dev) (device dev) (func dev) off v h) =
           (cfg h)(reg_addr dev off := put16 off v (cfg h (reg_addr dev off)))
       \<and> fst (config_read_u16 io (bus dev) (device dev) (func dev) off
           (config_write_u16 io (bus dev) (device dev) (func dev) off v h)) = v
       \<and> lane16 (off XOR 2) (put16 off v (cfg h (reg_addr dev off))) = lane16 (off XOR 2) (cfg h (reg_addr dev off))"
proof -
  let ?h = "config_write_u16 io (bus dev) (device dev) (func dev) off v h"
  have w: "cfg ?h = (cfg h)(reg_addr dev off := put16 off v (cfg h (reg_addr dev off)))"
    using write_u16 [OF cs, of "bus dev" "device dev" "func dev" off v h] plain by (simp add: reg_addr_def)
  moreover have "fst (config_read_u16 io (bus dev) (device dev) (func dev) off ?h) = v"
    using w by (rule_tac read_u16 [OF cs, of "bus dev" "device dev" "func dev" off ?h])
      (simp add: lane16_put16 reg_addr_def)
  moreover have "off AND 2 \<noteq> (off XOR 2) AND 2"
  proof
    assume "off AND 2 = (off XOR 2) AND 2"
    then have "bit (off AND 2) 1 = bit ((off XOR 2) AND 2) 1" by simp
    then show False by (simp add: bit_simps)
  qed
  ultimately show ?thesis by (simp add: lane16_put16)
qed

theorem config_u16_round_trip_witness:
  "fst (config_read_u16 (bridge_io (\<lambda>_ _ v. v)) 0 1 0 0x06
     (config_write_u16 (bridge_io (\<lambda>_ _ v. v)) 0 1 0 0x06 0xBEEF xhci_bridge)) = 0xBEEF"
  using config_u16_round_trip [OF bridge_config_space [of "\<lambda>_ _ v. v"], of xhci_dev "0x06" "0xBEEF" xhci_bridge]
  by (simp add: xhci_dev_def)

text \<open>
  Property C23. The enumeration finds every function that answers, once: function 0 of each device whose
  vendor id is not \<open>0xFFFF\<close>, and the functions 1 to 7 that answer where function 0 says that the device
  has several. \<open>find_usb_controllers\<close> returns those of them with class 0x0C and subclass 0x03, in the
  order in which \<open>scan_pci_bus\<close> finds them.
\<close>

theorem find_usb_controllers_exact:
  assumes cs: "config_space io cfg upd"
  shows "fst (find_usb_controllers io h)
      = filter (\<lambda>dev. dev_class dev = 0x0C \<and> dev_subclass dev = 0x03) (fst (scan_pci_bus io h))
    \<and> distinct (map (\<lambda>dev. (bus dev, device dev, func dev)) (fst (scan_pci_bus io h)))
    \<and> (\<forall>dev. dev \<in> set (fst (scan_pci_bus io h)) \<longleftrightarrow>
         (\<exists>b d f. unat d < 32 \<and> unat f < 8 \<and> dev = device_at (cfg h) b d f \<and> function_present (cfg h) b d 0
            \<and> (f = 0 \<or> header_type (device_at (cfg h) b d 0) AND 0x80 \<noteq> 0 \<and> function_present (cfg h) b d f)))"
proof -
  have "fst (find_usb_controllers io h) = filter (\<lambda>dev. dev_class dev = 0x0C \<and> dev_subclass dev = 0x03)
      (enumeration (cfg h) all_slots)"
    unfolding find_usb_controllers_def by (rule scan_devices_fst [OF cs])
  moreover have "fst (scan_pci_bus io h) = enumeration (cfg h) all_slots"
    unfolding scan_pci_bus_def scan_devices_fst [OF cs] by (rule filter_True) simp
  moreover have "dev \<in> set (enumeration (cfg h) all_slots) \<longleftrightarrow>
      (\<exists>b d f. unat d < 32 \<and> unat f < 8 \<and> dev = device_at (cfg h) b d f \<and> function_present (cfg h) b d 0
         \<and> (f = 0 \<or> header_type (device_at (cfg h) b d 0) AND 0x80 \<noteq> 0 \<and> function_present (cfg h) b d f))" for dev
    unfolding enumeration_all_slots(1) enumerated_def prod.case by (rule iff_exI)+ blast
  ultimately show ?thesis
    using enumeration_all_slots(2) [of "cfg h"] by (simp only: simp_thms)
qed

lemma xhci_present: "function_present xhci_regs 0 1 0" "device_at xhci_regs 0 1 0 = xhci_dev"
  by (simp_all add: function_present_def device_at_def xhci_dev_def config_address_def xhci_regs_def lane16_def lane8_def)

theorem find_usb_controllers_exact_witness:
  "xhci_dev \<in> set (fst (find_usb_controllers (bridge_io (\<lambda>_ _ v. v)) xhci_bridge))"
proof -
  have "\<exists>b d f. unat d < 32 \<and> unat f < 8 \<and> xhci_dev = device_at xhci_regs b d f \<and> function_present xhci_regs b d 0
      \<and> (f = 0 \<or> header_type (device_at xhci_regs b d 0) AND 0x80 \<noteq> 0 \<and> function_present xhci_regs b d f)"
    by (rule exI [of _ 0], rule exI [of _ 1], rule exI [of _ 0]) (simp add: xhci_present)
  then have "xhci_dev \<in> set (fst (scan_pci_bus (bridge_io (\<lambda>_ _ v. v)) xhci_bridge))"
    using find_usb_controllers_exact [OF bridge_config_space [of "\<lambda>_ _ v. v"], of xhci_bridge]
    by (simp add: xhci_bridge_def)
  then show ?thesis
    using find_usb_controllers_exact [OF bridge_config_space [of "\<lambda>_ _ v. v"], of xhci_bridge]
    by (simp add: xhci_dev_def)
qed

text \<open>
  Property C24. \<open>find_capability\<close> always returns, and returns the first of at most 48 entries of the
  device's capability list that has the id, or none when the device has no list or no such entry.
\<close>

theorem find_capability_first:
  assumes "config_space io cfg upd"
  shows "\<exists>h'. find_capability io dev cap_id h =
      Some (List.find (\<lambda>p. cap_id_of (cfg h) dev p = cap_id) (capabilities (cfg h) dev), h') \<and> cfg h' = cfg h"
  by (rule find_capability_eq [OF assms]) blast

lemma cap_chain_48: "cap_chain 48 nxt p = (if p = 0 then [] else p # cap_chain 47 nxt (nxt p))" "cap_chain n nxt 0 = []"
  using cap_chain.simps(2) [of 47 nxt p] by (simp_all del: cap_chain.simps(2)) (cases n; simp)

lemma xhci_capabilities: "capabilities xhci_regs xhci_dev = [0xF8]" "cap_id_of xhci_regs xhci_dev 0xF8 = 0x11"
  by (simp_all add: capabilities_def cap_next_of_def cap_id_of_def reg_addr_def xhci_dev_def config_address_def
      xhci_regs_def lane16_def lane8_def PCI_STATUS_def PCI_CAPABILITIES_PTR_def cap_chain_48)

theorem find_capability_first_witness:
  "\<exists>h'. find_capability (bridge_io (\<lambda>_ _ v. v)) xhci_dev CAP_ID_MSIX xhci_bridge = Some (Some 0xF8, h')"
  using find_capability_first [OF bridge_config_space [of "\<lambda>_ _ v. v"], of xhci_dev CAP_ID_MSIX xhci_bridge]
  by (auto simp: xhci_bridge_def xhci_capabilities CAP_ID_MSIX_def)

lemma read_reg:
  assumes "config_space io cfg upd"
  obtains h' where "config_read_u32 io (bus dev) (device dev) (func dev) off h = (cfg h (reg_addr dev off), h')" "cfg h' = cfg h"
  using read_u32 [OF assms] by (metis reg_addr_def)

lemma write_reg:
  "config_space io cfg upd \<Longrightarrow> cfg (config_write_u32 io (bus dev) (device dev) (func dev) off v h) =
     (cfg h)(reg_addr dev off := upd (reg_addr dev off) (cfg h (reg_addr dev off)) v)"
  unfolding reg_addr_def by (rule write_u32)

text \<open>Writing all ones to a BAR, reading it back and restoring it leaves the configuration space as it was.\<close>

lemma probe_bar:
  assumes cs: "config_space io cfg upd"
    and keep: "\<And>old. upd (reg_addr dev off) old (cfg h (reg_addr dev off)) = cfg h (reg_addr dev off)"
  obtains h1 h2 h3 where "config_read_u32 io (bus dev) (device dev) (func dev) off h = (cfg h (reg_addr dev off), h1)"
    "config_read_u32 io (bus dev) (device dev) (func dev) off
       (config_write_u32 io (bus dev) (device dev) (func dev) off 0xFFFFFFFF h1)
       = (upd (reg_addr dev off) (cfg h (reg_addr dev off)) 0xFFFFFFFF, h2)"
    "config_write_u32 io (bus dev) (device dev) (func dev) off (cfg h (reg_addr dev off)) h2 = h3"
    "cfg h3 = cfg h"
proof -
  let ?a = "reg_addr dev off"
  obtain h1 where 1: "config_read_u32 io (bus dev) (device dev) (func dev) off h = (cfg h ?a, h1)" "cfg h1 = cfg h"
    using read_reg [OF cs] by blast
  let ?w = "config_write_u32 io (bus dev) (device dev) (func dev) off 0xFFFFFFFF h1"
  have w: "cfg ?w = (cfg h)(?a := upd ?a (cfg h ?a) 0xFFFFFFFF)"
    by (simp add: write_reg [OF cs] 1(2))
  obtain h2 where 2: "config_read_u32 io (bus dev) (device dev) (func dev) off ?w = (cfg ?w ?a, h2)" "cfg h2 = cfg ?w"
    using read_reg [OF cs] by blast
  show ?thesis
  proof (rule that [OF 1(1) _ refl])
    show "config_read_u32 io (bus dev) (device dev) (func dev) off ?w = (upd ?a (cfg h ?a) 0xFFFFFFFF, h2)"
      using 2(1) w by simp
    have "cfg (config_write_u32 io (bus dev) (device dev) (func dev) off (cfg h ?a) h2) = (cfg h2)(?a := cfg h ?a)"
      using write_reg [OF cs, of dev off "cfg h ?a" h2] keep by simp
    also have "\<dots> = cfg h" by (simp add: 2(2) w)
    finally show "cfg (config_write_u32 io (bus dev) (device dev) (func dev) off (cfg h ?a) h2) = cfg h" .
  qed
qed

lemma bar_masks:
  fixes k :: nat
  assumes "4 \<le> k" "k \<le> 31"
  shows "fl AND 0xFFFFFFF0 = 0 \<Longrightarrow> (0xFFFFFFFF AND NOT (mask k) OR fl) AND 0xFFFFFFF0 = NOT (mask k :: u32)"
    and "NOT (push_bit 32 (ucast (0xFFFFFFFF :: u32)) OR ucast (NOT (mask k :: u32))) = (mask k :: u64)"
    and "ucast (NOT (ucast (NOT (mask k :: u32)) :: u64)) = (mask k :: u32)"
proof -
  have f: "(0xFFFFFFFF :: u32) = mask 32" "(0xFFFFFFF0 :: u32) = mask 32 AND NOT (mask 4)" by (simp_all add: mask_eq_exp_minus_1)
  show "(0xFFFFFFFF AND NOT (mask k) OR fl) AND 0xFFFFFFF0 = NOT (mask k :: u32)" if "fl AND 0xFFFFFFF0 = (0 :: u32)"
    unfolding bit.conj_disj_distrib2 that unfolding f
    by (rule bit_word_eqI) (use assms in \<open>auto simp: bit_simps\<close>)
  show "NOT (push_bit 32 (ucast (0xFFFFFFFF :: u32)) OR ucast (NOT (mask k :: u32))) = (mask k :: u64)"
    unfolding f by (rule bit_word_eqI) (use assms in \<open>auto simp: bit_simps\<close>)
  show "ucast (NOT (ucast (NOT (mask k :: u32)) :: u64)) = (mask k :: u32)"
    by (rule bit_word_eqI) (use assms in \<open>auto simp: bit_simps\<close>)
qed

text \<open>
  For a memory BAR0 of \<open>2 ^ k\<close> bytes (16 bytes to 2 GiB, 32-bit or 64-bit), whose low \<open>k\<close> bits
  are hard-wired to its type bits, \<open>get_bar0_size\<close> returns \<open>2 ^ k\<close> and leaves every configuration
  register as it was.
\<close>

theorem get_bar0_size_power:
  assumes cs: "config_space io cfg upd" and k: "4 \<le> k" "k \<le> 31"
    and bar: "\<And>old v. upd (reg_addr dev 0x10) old v = (v AND NOT (mask k)) OR fl" and fl: "fl AND 0xFFFFFFF0 = 0"
    and now: "cfg h (reg_addr dev 0x10) = (base AND NOT (mask k)) OR fl"
    and hi: "\<And>old v. upd (reg_addr dev 0x14) old v = v"
  shows "\<exists>h'. get_bar0_size io dev h = (2 ^ k, h') \<and> cfg h' = cfg h"
proof -
  have keep: "upd (reg_addr dev 0x10) old (cfg h (reg_addr dev 0x10)) = cfg h (reg_addr dev 0x10)" for old
  proof -
    have "fl AND NOT (mask k) = 0"
    proof (rule bit_word_eqI)
      fix n :: nat assume "n < LENGTH(32)"
      have m: "(0xFFFFFFF0 :: u32) = mask 32 AND NOT (mask 4)" by (simp add: mask_eq_exp_minus_1)
      from fl have "bit (fl AND (mask 32 AND NOT (mask 4))) n = bit (0 :: u32) n" by (simp only: m)
      with k(1) show "bit (fl AND NOT (mask k)) n = bit (0 :: u32) n"
        using \<open>n < LENGTH(32)\<close> by (auto simp: bit_simps)
    qed
    then show ?thesis by (simp only: bar now bit.conj_disj_distrib2 and.assoc and.idem bit.disj_zero_right)
  qed
  obtain h1 h2 h3 where b: "config_read_u32 io (bus dev) (device dev) (func dev) 0x10 h = (cfg h (reg_addr dev 0x10), h1)"
    "config_read_u32 io (bus dev) (device dev) (func dev) 0x10
       (config_write_u32 io (bus dev) (device dev) (func dev) 0x10 0xFFFFFFFF h1)
       = (upd (reg_addr dev 0x10) (cfg h (reg_addr dev 0x10)) 0xFFFFFFFF, h2)"
    "config_write_u32 io (bus dev) (device dev) (func dev) 0x10 (cfg h (reg_addr dev 0x10)) h2 = h3"
    "cfg h3 = cfg h"
    by (rule probe_bar [OF cs, of dev "0x10" h]) (use keep in blast)+
  obtain i1 i2 i3 where c: "config_read_u32 io (bus dev) (device dev) (func dev) 0x14 h3 = (cfg h3 (reg_addr dev 0x14), i1)"
    "config_read_u32 io (bus dev) (device dev) (func dev) 0x14
       (config_write_u32 io (bus dev) (device dev) (func dev) 0x14 0xFFFFFFFF i1)
       = (upd (reg_addr dev 0x14) (cfg h3 (reg_addr dev 0x14)) 0xFFFFFFFF, i2)"
    "config_write_u32 io (bus dev) (device dev) (func dev) 0x14 (cfg h3 (reg_addr dev 0x14)) i2 = i3"
    "cfg i3 = cfg h3"
    by (rule probe_bar [OF cs, of dev "0x14" h3]) (use hi in blast)+
  have off: "PCI_BAR0 = 0x10" "(0x10 :: u8) + 4 = 0x14" by (simp_all add: PCI_BAR0_def)
  have p: "mask k + 1 = (2 ^ k :: u64)" "ucast (mask k + 1 :: u32) = (2 ^ k :: u64)"
  proof -
    show "mask k + 1 = (2 ^ k :: u64)" by (simp add: mask_eq_exp_minus_1)
    have "ucast (2 ^ k :: u32) = (2 ^ k :: u64)"
      by (rule bit_word_eqI) (use k(2) in \<open>auto simp: bit_simps\<close>)
    then show "ucast (mask k + 1 :: u32) = (2 ^ k :: u64)" by (simp add: mask_eq_exp_minus_1)
  qed
  show ?thesis
  proof (cases "drop_bit 1 (cfg h (reg_addr dev 0x10)) AND 0x3 = 0x2")
    case True
    have "get_bar0_size io dev h = (2 ^ k, i3)"
      by (simp only: get_bar0_size_def Let_def off b c [unfolded b(4)] prod.case True if_True refl bar hi bar_masks [OF k] fl p)
    with b(4) c(4) show ?thesis by simp
  next
    case False
    have "get_bar0_size io dev h = (2 ^ k, h3)"
      by (simp only: get_bar0_size_def Let_def off b prod.case False if_False bar bar_masks [OF k] fl p)
    with b(4) show ?thesis by simp
  qed
qed

definition bar_upd :: "u32 \<Rightarrow> u32 \<Rightarrow> u32 \<Rightarrow> u32" where
  "bar_upd a old v = (if a = 0x80000810 then (v AND NOT 0xFFFF) OR 0x4 else v)"

theorem get_bar0_size_power_witness:
  "fst (get_bar0_size (bridge_io bar_upd) xhci_dev xhci_bridge) = 0x10000"
proof -
  have a: "reg_addr xhci_dev 0x10 = 0x80000810" "reg_addr xhci_dev 0x14 = 0x80000814"
    by (simp_all add: reg_addr_def xhci_dev_def config_address_def)
  have "\<exists>h'. get_bar0_size (bridge_io bar_upd) xhci_dev xhci_bridge = (2 ^ 16, h') \<and> regs h' = regs xhci_bridge"
    by (rule get_bar0_size_power [OF bridge_config_space, where k = 16 and dev = xhci_dev and base = "0xFEB00000" and fl = "0x4"])
      (simp_all add: a bar_upd_def mask_eq_exp_minus_1 xhci_bridge_def xhci_regs_def)
  then show ?thesis by auto
qed

text \<open>
  \<open>get_msix_info\<close> reads the three registers of the first MSI-X capability; when that
  capability starts in the last eight bytes of the configuration space the offset of its third register
  overflows and the call panics.
\<close>

theorem get_msix_info_cases:
  assumes cs: "config_space io cfg upd"
  shows "case List.find (\<lambda>p. cap_id_of (cfg h) dev p = 0x11) (capabilities (cfg h) dev) of
      None \<Rightarrow> \<exists>h'. get_msix_info io dev h = Some (None, h') \<and> cfg h' = cfg h
    | Some p \<Rightarrow>
        if unat p + 8 < 256 then
          (let ctrl = lane16 (p + 2) (cfg h (reg_addr dev (p + 2))); tab = cfg h (reg_addr dev (p + 4));
               pba = cfg h (reg_addr dev (p + 8))
           in \<exists>h'. get_msix_info io dev h = Some (Some \<lparr>cap_offset = p, table_bar = ucast (tab AND 0x7),
                  table_offset = tab AND NOT 0x7, pba_bar = ucast (pba AND 0x7), pba_offset = pba AND NOT 0x7,
                  table_size = (ctrl AND 0x7FF) + 1\<rparr>, h') \<and> cfg h' = cfg h)
        else get_msix_info io dev h = None"
proof -
  obtain h1 where 1: "find_capability io dev CAP_ID_MSIX h =
      Some (List.find (\<lambda>p. cap_id_of (cfg h) dev p = 0x11) (capabilities (cfg h) dev), h1)" "cfg h1 = cfg h"
    using find_capability_eq [OF cs] unfolding CAP_ID_MSIX_def by blast
  show ?thesis
  proof (cases "List.find (\<lambda>p. cap_id_of (cfg h) dev p = 0x11) (capabilities (cfg h) dev)")
    case None
    with 1 show ?thesis by (simp add: get_msix_info_def)
  next
    case (Some p)
    then have "p \<in> set (capabilities (cfg h) dev)" by (auto simp: find_Some_iff)
    then have p: "unat p \<le> 252" using capabilities_aligned and_FC_le by metis
    have off: "checked_add p 2 = Some (p + 2)" "checked_add p 4 = (if unat p + 4 < 256 then Some (p + 4) else None)"
      "checked_add p 8 = (if unat p + 8 < 256 then Some (p + 8) else None)"
      using p by (simp_all add: checked_add_def)
    obtain h2 where 2: "config_read_u16 io (bus dev) (device dev) (func dev) (p + 2) h1
        = (lane16 (p + 2) (cfg h (reg_addr dev (p + 2))), h2)" "cfg h2 = cfg h"
      using read_u16 [OF cs] 1(2) by (metis reg_addr_def)
    obtain h3 where 3: "config_read_u32 io (bus dev) (device dev) (func dev) (p + 4) h2 = (cfg h (reg_addr dev (p + 4)), h3)"
        "cfg h3 = cfg h"
      using read_reg [OF cs] 2(2) by metis
    obtain h4 where 4: "config_read_u32 io (bus dev) (device dev) (func dev) (p + 8) h3 = (cfg h (reg_addr dev (p + 8)), h4)"
        "cfg h4 = cfg h"
      using read_reg [OF cs] 3(2) by metis
    have sz: "checked_add (x AND 0x7FF) 1 = Some ((x AND 0x7FF) + 1)" for x :: u16
    proof -
      have "unat (x AND 0x7FF) \<le> unat (0x7FF :: u16)"
        unfolding word_le_nat_alt [symmetric] by (rule word_and_le1)
      then show ?thesis by (simp add: checked_add_def)
    qed
    show ?thesis
      using 4(2) by (auto simp: Some get_msix_info_def 1 off 2(1) 3(1) 4(1) sz Let_def)
  qed
qed

theorem get_msix_info_cases_witness:
  "get_msix_info (bridge_io (\<lambda>_ _ v. v)) xhci_dev xhci_bridge = None"
  using get_msix_info_cases [OF bridge_config_space [of "\<lambda>_ _ v. v"], of xhci_dev xhci_bridge]
  by (simp add: xhci_bridge_def xhci_capabilities)

text \<open>
  \<open>set_msix_enable\<close> on a message-control register that takes what is written sets bit 15 to
  the flag and, when enabling, clears the function mask (bit 14); the other bits of the register and all
  other registers keep their values.
\<close>

theorem set_msix_enable_bits:
  assumes cs: "config_space io cfg upd" and off: "unat cap + 2 < 256"
    and plain: "\<And>old v. upd (reg_addr dev (cap + 2)) old v = v"
  shows "\<exists>h' new. set_msix_enable io dev cap enable h = Some h'
    \<and> cfg h' = (cfg h)(reg_addr dev (cap + 2) := new)
    \<and> (\<forall>i<16. bit (lane16 (cap + 2) new) i \<longleftrightarrow>
         (if i = 15 then enable else if i = 14 \<and> enable then False
          else bit (lane16 (cap + 2) (cfg h (reg_addr dev (cap + 2)))) i))
    \<and> lane16 (cap + 2 XOR 2) new = lane16 (cap + 2 XOR 2) (cfg h (reg_addr dev (cap + 2)))"
proof -
  let ?a = "reg_addr dev (cap + 2)"
  let ?old = "lane16 (cap + 2) (cfg h ?a)"
  let ?ctrl = "if enable then (?old OR push_bit 15 1) AND NOT (push_bit 14 1) else ?old AND NOT (push_bit 15 1)"
  let ?new = "put16 (cap + 2) ?ctrl (cfg h ?a)"
  obtain h1 where 1: "config_read_u16 io (bus dev) (device dev) (func dev) (cap + 2) h = (?old, h1)" "cfg h1 = cfg h"
    using read_u16 [OF cs] by (metis reg_addr_def)
  have c: "checked_add cap 2 = Some (cap + 2)" using off by (simp add: checked_add_def)
  let ?h' = "config_write_u16 io (bus dev) (device dev) (func dev) (cap + 2) ?ctrl h1"
  have "set_msix_enable io dev cap enable h = Some ?h'"
    by (simp only: set_msix_enable_def c 1(1) bind.bind_lunit Let_def prod.case)
  moreover have "cfg ?h' = (cfg h)(?a := ?new)"
    using write_u16 [OF cs, of "bus dev" "device dev" "func dev" "cap + 2" ?ctrl h1] plain 1(2)
    by (simp only: reg_addr_def)
  moreover have "bit (lane16 (cap + 2) ?new) i \<longleftrightarrow>
      (if i = 15 then enable else if i = 14 \<and> enable then False else bit ?old i)" if "i < 16" for i
    unfolding lane16_put16(1) using that
    by (cases enable) (simp_all only: if_True if_False bit_and_iff bit_or_iff bit_not_iff bit_push_bit_iff bit_1_iff possible_bit_word, auto)
  moreover have "(cap + 2) AND 2 \<noteq> (cap + 2 XOR 2) AND 2"
  proof
    assume "(cap + 2) AND 2 = (cap + 2 XOR 2) AND 2"
    then have "bit ((cap + 2) AND 2) 1 = bit ((cap + 2 XOR 2) AND 2) 1" by simp
    then show False by (simp add: bit_simps)
  qed
  ultimately show ?thesis using lane16_put16(2) by blast
qed

theorem set_msix_enable_bits_witness:
  "\<exists>h'. set_msix_enable (bridge_io (\<lambda>_ _ v. v)) xhci_dev 0xF8 True xhci_bridge = Some h'
     \<and> lane16 0xF8 (regs h' 0x800008F8) = 0x0011"
proof -
  have a: "reg_addr xhci_dev 0xFA = 0x800008F8"
    by (simp add: reg_addr_def xhci_dev_def config_address_def)
  show ?thesis
    using set_msix_enable_bits [OF bridge_config_space [of "\<lambda>_ _ v. v"], of "0xF8" xhci_dev True xhci_bridge]
    by (auto simp: a xhci_bridge_def xhci_regs_def lane16_def)
qed

text \<open>
  \<open>enable_device\<close> writes the status half of the command register back as it read it: on a
  device whose status bits are cleared by writing ones, all of them are cleared, while memory space and
  bus mastering are enabled as meant.
\<close>

theorem enable_device_clears_status:
  assumes cs: "config_space io cfg upd"
    and rw1c: "\<And>old v. upd (reg_addr dev 0x04) old v = put16 0x06 (lane16 0x06 old AND NOT (lane16 0x06 v)) v"
  shows "lane16 0x04 (cfg (enable_device io dev h) (reg_addr dev 0x04))
           = lane16 0x04 (cfg h (reg_addr dev 0x04)) OR 0x5
       \<and> lane16 0x06 (cfg (enable_device io dev h) (reg_addr dev 0x04)) = 0"
proof -
  let ?a = "reg_addr dev 0x04"
  let ?cmd = "(lane16 0x04 (cfg h ?a) OR CMD_MEMORY_SPACE) OR CMD_BUS_MASTER"
  obtain h1 where 1: "config_read_u16 io (bus dev) (device dev) (func dev) 0x04 h = (lane16 0x04 (cfg h ?a), h1)" "cfg h1 = cfg h"
    using read_u16 [OF cs] by (metis reg_addr_def)
  let ?h2 = "config_write_u16 io (bus dev) (device dev) (func dev) 0x04 ?cmd h1"
  obtain v h3 where 3: "config_read_u16 io (bus dev) (device dev) (func dev) 0x04 ?h2 = (v, h3)" "cfg h3 = cfg ?h2"
    using read_u16 [OF cs] by metis
  have "enable_device io dev h = h3"
    by (simp only: enable_device_def PCI_COMMAND_def 1(1) 3(1) Let_def prod.case)
  then have c: "cfg (enable_device io dev h) ?a
      = put16 0x06 (lane16 0x06 (cfg h ?a) AND NOT (lane16 0x06 (put16 0x04 ?cmd (cfg h ?a)))) (put16 0x04 ?cmd (cfg h ?a))"
    using write_u16 [OF cs, of "bus dev" "device dev" "func dev" "0x04" ?cmd h1] 1(2) 3(2) rw1c
    by (simp add: reg_addr_def)
  have "lane16 0x06 (put16 0x04 ?cmd (cfg h ?a)) = lane16 0x06 (cfg h ?a)"
    by (rule lane16_put16(2)) simp
  moreover have "lane16 0x04 (put16 0x06 x y) = lane16 0x04 y" for x y
    by (rule lane16_put16(2)) simp
  ultimately show ?thesis
    unfolding c by (simp add: lane16_put16(1) or.assoc) (simp add: CMD_MEMORY_SPACE_def CMD_BUS_MASTER_def)
qed

definition status_upd :: "u32 \<Rightarrow> u32 \<Rightarrow> u32 \<Rightarrow> u32" where
  "status_upd a old v = (if a = 0x80000804 then put16 0x06 (lane16 0x06 old AND NOT (lane16 0x06 v)) v else v)"

theorem enable_device_clears_status_witness:
  "lane16 0x06 (regs (enable_device (bridge_io status_upd) xhci_dev xhci_bridge) 0x80000804) = 0
     \<and> lane16 0x06 (regs xhci_bridge 0x80000804) = 0x8010"
proof -
  have a: "reg_addr xhci_dev 0x04 = 0x80000804"
    by (simp add: reg_addr_def xhci_dev_def config_address_def)
  show ?thesis
    using enable_device_clears_status [OF bridge_config_space [of status_upd], of xhci_dev xhci_bridge]
    by (simp add: a status_upd_def) (simp add: xhci_bridge_def xhci_regs_def lane16_def)
qed

end
