(* ===== verification/Memory.thy ===== *)
theory Memory
  imports Phys_Memory
begin

text \<open>
  \<^verbatim>\<open>kernel/src/memory/mod.rs\<close>: the state of the memory subsystem and the translation between
  physical addresses and the higher-half direct map (HHDM). The responses of the boot loader
  (\<open>HHDM_REQUEST\<close>, \<open>MEMORY_MAP_REQUEST\<close>) are fields of the state that no operation writes.
  An inner option is the source's \<open>Option\<close>; the outer one says whether the call returns.
\<close>

datatype entry_type =
    USABLE | RESERVED | ACPI_RECLAIMABLE | ACPI_NVS | BAD_MEMORY
  | BOOTLOADER_RECLAIMABLE | EXECUTABLE_AND_MODULES | FRAMEBUFFER | OTHER_TYPE u64

record mmap_entry =
  entry_base :: u64
  entry_length :: u64
  entry_type :: entry_type

record memstate =
  ram :: mem
  hhdm_offset :: "u64 option"
  memory_map :: "mmap_entry list option"
  fa_head :: "u64 option"
  fa_initialized :: bool

definition physical_to_virtual :: "'z memstate_scheme \<Rightarrow> u64 \<Rightarrow> u64 option option" where
  "physical_to_virtual s phys_addr =
     (case hhdm_offset s of
        Some offset \<Rightarrow> do { virt_addr \<leftarrow> checked_add phys_addr offset; Some (Some virt_addr) }
      | None \<Rightarrow> Some None)"

definition virtual_to_physical :: "'z memstate_scheme \<Rightarrow> u64 \<Rightarrow> u64 option option" where
  "virtual_to_physical s virt_addr =
     (case hhdm_offset s of
        Some offset \<Rightarrow> do { phys_addr \<leftarrow> checked_sub virt_addr offset; Some (Some phys_addr) }
      | None \<Rightarrow> Some None)"

definition cetak_entry_type :: "entry_type \<Rightarrow> string" where
  "cetak_entry_type t =
     (case t of
        USABLE \<Rightarrow> ''USABLE''
      | RESERVED \<Rightarrow> ''RESERVED''
      | ACPI_RECLAIMABLE \<Rightarrow> ''ACPI_RECLAIMABLE''
      | ACPI_NVS \<Rightarrow> ''ACPI_NVS''
      | BAD_MEMORY \<Rightarrow> ''BAD_MEMORY''
      | BOOTLOADER_RECLAIMABLE \<Rightarrow> ''BOOTLOADER_RECLAIMABLE''
      | EXECUTABLE_AND_MODULES \<Rightarrow> ''EXECUTABLE_AND_MODULES''
      | FRAMEBUFFER \<Rightarrow> ''FRAMEBUFFER''
      | OTHER_TYPE _ \<Rightarrow> ''UNKNOWN_TYPE'')"

lemma physical_to_virtual_eq:
  "hhdm_offset s = Some off \<Longrightarrow> unat p + unat off < 2 ^ 64 \<Longrightarrow>
     physical_to_virtual s p = Some (Some (p + off))"
  by (simp add: physical_to_virtual_def checked_add_def)

lemma virtual_to_physical_eq:
  "hhdm_offset s = Some off \<Longrightarrow> off \<le> v \<Longrightarrow> virtual_to_physical s v = Some (Some (v - off))"
  by (simp add: virtual_to_physical_def checked_sub_def)

text \<open>
  The two translations are inverse to each other wherever they return an address:
  what \<open>physical_to_virtual\<close> returns is taken back by \<open>virtual_to_physical\<close>, and the other way round.
\<close>

theorem hhdm_round_trip:
  "physical_to_virtual s p = Some (Some v) \<longleftrightarrow> virtual_to_physical s v = Some (Some p)"
proof (cases "hhdm_offset s")
  case None
  then show ?thesis by (simp add: physical_to_virtual_def virtual_to_physical_def)
next
  case (Some off)
  then show ?thesis
    by (auto simp: physical_to_virtual_def virtual_to_physical_def checked_simps bind_eq_Some_conv
        add.commute)
qed

text \<open>The HHDM address of a frame keeps the frame's alignment.\<close>

lemma aligned_add: "aligned n a \<Longrightarrow> aligned n b \<Longrightarrow> unat a + unat b < 2 ^ LENGTH('a) \<Longrightarrow> aligned n (a + b)"
  for a b :: "'a::len word"
  by (simp add: aligned_iff_dvd unat_word_ariths)

end
