(* ===== verification/Frame_Allocator.thy ===== *)
theory Frame_Allocator
  imports Memory
begin

text \<open>
  \<^verbatim>\<open>kernel/src/memory/frame_allocator.rs\<close>: the free list of physical frames. The list is
  threaded through the free frames themselves: the first word of a free frame, written through the
  HHDM, is the physical address of the next one, or \<open>NULL_MARK\<close>.

  The operations are \<open>align_up\<close>, \<open>push_free\<close>, \<open>fa_init\<close> (the source's \<open>init\<close>, with its loop
  \<open>push_region\<close> over one entry of the memory map and \<open>push_entries\<close> over the entries), \<open>allocate\<close>
  and \<open>free_frame\<close> (the source's \<open>free\<close>). The abstract state is the list of free frames, \<open>fa_inv\<close>
  relates it to the memory, and the locale \<open>frame_pool\<close> is the contract the clients use.
\<close>

definition FRAME_SIZE :: u64 where "FRAME_SIZE = 4096"

definition NULL_MARK :: u64 where "NULL_MARK = - 1"

definition align_up :: "u64 \<Rightarrow> u64 \<Rightarrow> u64 option" where
  "align_up addr align = do {
     x \<leftarrow> checked_add addr align;
     x \<leftarrow> checked_sub x 1;
     m \<leftarrow> checked_sub align 1;
     Some (x AND NOT m)
   }"

definition push_free :: "u64 \<Rightarrow> 'z memstate_scheme \<Rightarrow> 'z memstate_scheme option" where
  "push_free frame s = do {
     v \<leftarrow> physical_to_virtual s frame;
     virt \<leftarrow> v;
     let nxt = (case fa_head s of Some h \<Rightarrow> h | None \<Rightarrow> NULL_MARK);
     let s = s\<lparr>ram := wr64 (ram s) virt nxt\<rparr>;
     Some (s\<lparr>fa_head := Some frame\<rparr>)
   }"

function push_region :: "u64 \<Rightarrow> u64 \<Rightarrow> 'z memstate_scheme \<Rightarrow> 'z memstate_scheme option" where
  "push_region addr limit s =
     (case checked_add addr FRAME_SIZE of
        None \<Rightarrow> None
      | Some nxt \<Rightarrow>
          if nxt \<le> limit then do { s \<leftarrow> push_free addr s; push_region nxt limit s } else Some s)"
  by pat_completeness auto
termination
  by (relation "measure (\<lambda>(addr, limit, s). 2 ^ 64 - unat addr)")
    (use checked_add_room [where 'a = 64] in \<open>auto simp: FRAME_SIZE_def\<close>)

fun push_entries :: "mmap_entry list \<Rightarrow> 'z memstate_scheme \<Rightarrow> 'z memstate_scheme option" where
  "push_entries [] s = Some s"
| "push_entries (e # es) s =
     (if entry_type e = USABLE then do {
        base \<leftarrow> align_up (entry_base e) FRAME_SIZE;
        limit \<leftarrow> checked_add (entry_base e) (entry_length e);
        s \<leftarrow> push_region base limit s;
        push_entries es s
      } else push_entries es s)"

definition fa_init :: "'z memstate_scheme \<Rightarrow> 'z memstate_scheme option" where
  "fa_init s = do {
     s \<leftarrow> (case memory_map s of Some es \<Rightarrow> push_entries es s | None \<Rightarrow> Some s);
     Some (s\<lparr>fa_initialized := True\<rparr>)
   }"

definition allocate :: "'z memstate_scheme \<Rightarrow> (u64 option \<times> 'z memstate_scheme) option" where
  "allocate s = do {
     s \<leftarrow> (if \<not> fa_initialized s then fa_init s else Some s);
     case fa_head s of
       None \<Rightarrow> Some (None, s)
     | Some frame \<Rightarrow> do {
         v \<leftarrow> physical_to_virtual s frame;
         case v of
           None \<Rightarrow> Some (None, s)
         | Some virt \<Rightarrow> do {
             let nxt = rd64 (ram s) virt;
             let s = s\<lparr>fa_head := (if nxt = NULL_MARK then None else Some nxt)\<rparr>;
             Some (Some frame, s\<lparr>ram := mem_fill (ram s) virt 0 (unat FRAME_SIZE)\<rparr>)
           }
       }
   }"

definition free_frame :: "u64 \<Rightarrow> 'z memstate_scheme \<Rightarrow> 'z memstate_scheme option" where
  "free_frame frame s = do {
     v \<leftarrow> physical_to_virtual s frame;
     let s = (case v of
         Some virt \<Rightarrow> s\<lparr>ram := mem_fill (ram s) virt 0 (unat FRAME_SIZE)\<rparr>
       | None \<Rightarrow> s);
     push_free frame s
   }"

declare push_region.simps [simp del]

section \<open>The free list in memory\<close>

definition next_of :: "u64 \<Rightarrow> u64 option" where
  "next_of v = (if v = NULL_MARK then None else Some v)"

fun chain :: "mem \<Rightarrow> u64 \<Rightarrow> u64 option \<Rightarrow> u64 list \<Rightarrow> bool" where
  "chain m off h [] \<longleftrightarrow> h = None"
| "chain m off h (f # fs) \<longleftrightarrow> h = Some f \<and> chain m off (next_of (rd64 m (f + off))) fs"

definition hhdm_ok :: "'z memstate_scheme \<Rightarrow> bool" where
  "hhdm_ok s \<longleftrightarrow> (case hhdm_offset s of Some off \<Rightarrow> aligned 12 off | None \<Rightarrow> False)"

definition hhdm :: "'z memstate_scheme \<Rightarrow> u64" where
  "hhdm s = (case hhdm_offset s of Some off \<Rightarrow> off | None \<Rightarrow> 0)"

definition frame_ok :: "'z memstate_scheme \<Rightarrow> u64 \<Rightarrow> bool" where
  "frame_ok s f \<longleftrightarrow> hhdm_ok s \<and> aligned 12 f \<and> unat f + unat (hhdm s) < 2 ^ 64"

definition free_list :: "'z memstate_scheme \<Rightarrow> u64 list \<Rightarrow> bool" where
  "free_list s fs \<longleftrightarrow> hhdm_ok s \<and> distinct fs \<and> list_all (frame_ok s) fs
     \<and> chain (ram s) (hhdm s) (fa_head s) fs"

definition fa_inv :: "'z memstate_scheme \<Rightarrow> u64 list \<Rightarrow> bool" where
  "fa_inv s fs \<longleftrightarrow> fa_initialized s \<and> free_list s fs"

definition head_of :: "'a list \<Rightarrow> 'a option" where
  "head_of fs = (case fs of [] \<Rightarrow> None | f # _ \<Rightarrow> Some f)"

lemma head_of_simps [simp]: "head_of [] = None" "head_of (f # fs) = Some f"
  by (simp_all add: head_of_def)

lemma aligned_not_NULL_MARK: "aligned 12 f \<Longrightarrow> f \<noteq> NULL_MARK"
  by (auto simp: aligned_def NULL_MARK_def mask_eq_exp_minus_1)

lemma next_of_link: "aligned 12 f \<Longrightarrow> next_of f = Some f"
  by (simp add: next_of_def aligned_not_NULL_MARK)

lemma chain_head: "chain m off h fs \<Longrightarrow> h = head_of fs"
  by (cases fs) simp_all

lemma hhdm_offset_eq: "hhdm_ok s \<Longrightarrow> hhdm_offset s = Some (hhdm s)"
  by (simp add: hhdm_ok_def hhdm_def split: option.splits)

lemma aligned_hhdm: "hhdm_ok s \<Longrightarrow> aligned 12 (hhdm s)"
  by (simp add: hhdm_ok_def hhdm_def split: option.splits)

lemma p2v_frame: "frame_ok s f \<Longrightarrow> physical_to_virtual s f = Some (Some (f + hhdm s))"
  by (simp add: frame_ok_def hhdm_offset_eq physical_to_virtual_eq)

lemma frame_virt_aligned: "frame_ok s f \<Longrightarrow> aligned 12 (f + hhdm s)"
  by (simp add: frame_ok_def aligned_add aligned_hhdm)

lemma frames_disj:
  "frame_ok s f \<Longrightarrow> frame_ok s g \<Longrightarrow> f \<noteq> g \<Longrightarrow> disj (f + hhdm s) 4096 (g + hhdm s) 4096"
  by (simp add: disj_aligned frame_virt_aligned)

lemma frame_cells_disj:
  assumes "frame_ok s f" "frame_ok s g" "f \<noteq> g"
  shows "disj (f + hhdm s) 4096 (g + hhdm s) 8" "disj (f + hhdm s) 8 (g + hhdm s) 8"
  using disj_subrange [OF frames_disj [OF assms]] by simp_all

text \<open>Only the words of the frames on the list matter to the list.\<close>

lemma chain_cong:
  "(\<And>f. f \<in> set fs \<Longrightarrow> rd64 m (f + off) = rd64 m' (f + off)) \<Longrightarrow> chain m off h fs = chain m' off h fs"
  by (induction fs arbitrary: h) auto

lemma free_list_frame_ok: "free_list s fs \<Longrightarrow> f \<in> set fs \<Longrightarrow> frame_ok s f"
  by (auto simp: free_list_def list_all_iff)

lemma chain_fill_frame:
  assumes "free_list s fs" "frame_ok s g" "g \<notin> set fs"
  shows "chain (mem_fill (ram s) (g + hhdm s) v 4096) (hhdm s) h fs = chain (ram s) (hhdm s) h fs"
proof (rule chain_cong)
  fix f assume "f \<in> set fs"
  with assms have "disj (g + hhdm s) 4096 (f + hhdm s) 8"
    by (intro frame_cells_disj(1)) (auto intro: free_list_frame_ok)
  then show "rd64 (mem_fill (ram s) (g + hhdm s) v 4096) (f + hhdm s) = rd64 (ram s) (f + hhdm s)"
    by (rule rd64_fill_disj)
qed

lemma chain_wr64_frame:
  assumes "free_list s fs" "frame_ok s g" "g \<notin> set fs"
  shows "chain (wr64 (ram s) (g + hhdm s) v) (hhdm s) h fs = chain (ram s) (hhdm s) h fs"
proof (rule chain_cong)
  fix f assume "f \<in> set fs"
  with assms have "disj (g + hhdm s) 8 (f + hhdm s) 8"
    by (intro frame_cells_disj(2)) (auto intro: free_list_frame_ok)
  then show "rd64 (wr64 (ram s) (g + hhdm s) v) (f + hhdm s) = rd64 (ram s) (f + hhdm s)"
    by (rule c64.rd_wr_sep)
qed

lemma hhdm_upd [simp]:
  "hhdm (s\<lparr>ram := m\<rparr>) = hhdm s" "hhdm (s\<lparr>fa_head := h\<rparr>) = hhdm s"
  "hhdm (s\<lparr>fa_initialized := b\<rparr>) = hhdm s"
  "hhdm_ok (s\<lparr>ram := m\<rparr>) = hhdm_ok s" "hhdm_ok (s\<lparr>fa_head := h\<rparr>) = hhdm_ok s"
  "hhdm_ok (s\<lparr>fa_initialized := b\<rparr>) = hhdm_ok s"
  "frame_ok (s\<lparr>ram := m\<rparr>) = frame_ok s" "frame_ok (s\<lparr>fa_head := h\<rparr>) = frame_ok s"
  "frame_ok (s\<lparr>fa_initialized := b\<rparr>) = frame_ok s"
  by (simp_all add: hhdm_def hhdm_ok_def frame_ok_def fun_eq_iff)

section \<open>The operations on the free list\<close>

lemma push_free_eq:
  assumes "free_list s fs" "frame_ok s f"
  shows "push_free f s = Some (s\<lparr>ram := wr64 (ram s) (f + hhdm s)
           (case head_of fs of Some h \<Rightarrow> h | None \<Rightarrow> NULL_MARK), fa_head := Some f\<rparr>)"
  using assms by (auto simp: push_free_def p2v_frame free_list_def dest!: chain_head)

lemma push_free_list:
  assumes inv: "free_list s fs" and f: "frame_ok s f" and new: "f \<notin> set fs"
    and run: "push_free f s = Some s'"
  shows "free_list s' (f # fs)"
proof -
  let ?m = "wr64 (ram s) (f + hhdm s) (case head_of fs of Some h \<Rightarrow> h | None \<Rightarrow> NULL_MARK)"
  have s': "s' = s\<lparr>ram := ?m, fa_head := Some f\<rparr>"
    using run push_free_eq [OF inv f] by simp
  have "next_of (rd64 ?m (f + hhdm s)) = head_of fs"
    using inv by (cases fs)
      (auto simp: rd64_wr64_same next_of_def aligned_not_NULL_MARK free_list_def frame_ok_def)
  moreover have "chain ?m (hhdm s) (fa_head s) fs"
    using inv chain_wr64_frame [OF inv f new] by (simp add: free_list_def)
  moreover have "fa_head s = head_of fs"
    using inv by (auto simp: free_list_def dest: chain_head)
  ultimately show ?thesis
    using inv f new by (simp add: s' free_list_def)
qed

lemma allocate_cons_eq:
  assumes "fa_inv s (f # fs)"
  shows "allocate s = Some (Some f, s\<lparr>fa_head := head_of fs,
           ram := mem_fill (ram s) (f + hhdm s) 0 4096\<rparr>)"
proof -
  have f: "frame_ok s f" and h: "fa_head s = Some f"
    and nx: "next_of (rd64 (ram s) (f + hhdm s)) = head_of fs"
    using assms by (auto simp: fa_inv_def free_list_def dest: chain_head)
  with assms show ?thesis
    by (simp add: allocate_def fa_inv_def p2v_frame FRAME_SIZE_def next_of_def)
qed

lemma allocate_cons_list:
  assumes "fa_inv s (f # fs)"
  shows "fa_inv (s\<lparr>fa_head := head_of fs, ram := mem_fill (ram s) (f + hhdm s) 0 4096\<rparr>) fs"
proof -
  have c: "chain (ram s) (hhdm s) (next_of (rd64 (ram s) (f + hhdm s))) fs"
    using assms by (simp add: fa_inv_def free_list_def)
  have inv: "free_list (s\<lparr>fa_head := head_of fs\<rparr>) fs"
    using assms c chain_head [OF c] by (simp add: fa_inv_def free_list_def)
  then have "chain (mem_fill (ram s) (f + hhdm s) 0 4096) (hhdm s) (head_of fs) fs"
    using assms chain_fill_frame [OF inv, of f 0] by (simp add: fa_inv_def free_list_def)
  with assms inv show ?thesis
    by (simp add: fa_inv_def free_list_def)
qed

lemma allocate_nil: "fa_inv s [] \<Longrightarrow> allocate s = Some (None, s)"
  by (simp add: allocate_def fa_inv_def free_list_def)

lemma free_frame_list:
  assumes inv: "fa_inv s fs" and f: "frame_ok s f" and new: "f \<notin> set fs"
  shows "\<exists>s'. free_frame f s = Some s' \<and> fa_inv s' (f # fs)"
proof -
  let ?s = "s\<lparr>ram := mem_fill (ram s) (f + hhdm s) 0 4096\<rparr>"
  have inv': "free_list ?s fs"
    using inv f new chain_fill_frame [of s fs f 0 "fa_head s"] by (simp add: fa_inv_def free_list_def)
  then obtain s' where s': "push_free f ?s = Some s'"
    using push_free_eq [of ?s fs f] f by simp
  have "free_list s' (f # fs)"
    by (rule push_free_list [OF inv' _ new s']) (simp add: f)
  moreover have "fa_initialized s'"
    using inv s' push_free_eq [OF inv', of f] f by (auto simp: fa_inv_def)
  moreover have "free_frame f s = Some s'"
    using s' f by (simp add: free_frame_def p2v_frame FRAME_SIZE_def)
  ultimately show ?thesis by (auto simp: fa_inv_def)
qed

lemma free_frame_frame_ok: "free_frame f s = Some s' \<Longrightarrow> frame_ok s' = frame_ok s"
  by (auto simp: free_frame_def push_free_def bind_eq_Some_conv split: option.splits)

section \<open>Building the free list from the memory map\<close>

definition region_frames :: "u64 \<Rightarrow> u64 \<Rightarrow> u64 list" where
  "region_frames base limit =
     map (\<lambda>k. base + of_nat (4096 * k)) [0..<(unat limit - unat base) div 4096]"

definition entry_frames :: "mmap_entry \<Rightarrow> u64 list" where
  "entry_frames e =
     (if entry_type e = USABLE
      then region_frames ((entry_base e + 4095) AND NOT 4095) (entry_base e + entry_length e)
      else [])"

definition usable_frames :: "mmap_entry list \<Rightarrow> u64 list" where
  "usable_frames es = concat (map entry_frames es)"

text \<open>What no step of the initialisation writes.\<close>

definition same_boot :: "'z memstate_scheme \<Rightarrow> 'z memstate_scheme \<Rightarrow> bool" where
  "same_boot s s' \<longleftrightarrow> hhdm_offset s' = hhdm_offset s \<and> memory_map s' = memory_map s
     \<and> fa_initialized s' = fa_initialized s"

lemma same_boot_refl [simp]: "same_boot s s"
  by (simp add: same_boot_def)

lemma same_boot_trans: "same_boot s s' \<Longrightarrow> same_boot s' s'' \<Longrightarrow> same_boot s s''"
  by (simp add: same_boot_def)

lemma same_boot_frame_ok: "same_boot s s' \<Longrightarrow> frame_ok s' = frame_ok s \<and> hhdm s' = hhdm s"
  by (simp add: same_boot_def frame_ok_def hhdm_ok_def hhdm_def fun_eq_iff)

lemma push_free_same_boot: "push_free f s = Some s' \<Longrightarrow> same_boot s s'"
  by (auto simp: push_free_def same_boot_def bind_eq_Some_conv)

lemma region_frames_Nil: "unat limit < unat base + 4096 \<Longrightarrow> region_frames base limit = []"
  by (simp add: region_frames_def)

lemma region_frames_Cons:
  assumes "checked_add base 4096 = Some nxt" and "nxt \<le> limit"
  shows "region_frames base limit = base # region_frames nxt limit"
proof -
  have nxt: "unat nxt = unat base + 4096" "nxt = base + 4096"
    using assms(1) checked_add_Some_value [OF assms(1)] by (simp_all add: checked_simps)
  have n: "(unat limit - unat base) div 4096 = Suc ((unat limit - unat nxt) div 4096)"
    using assms(2) by (simp add: nxt(1) word_le_nat_alt le_div_geq)
  show ?thesis
    unfolding region_frames_def n map_upt_Suc
    by (simp add: nxt(2) algebra_simps)
qed

lemma push_region_list:
  assumes "free_list s fs" and "aligned 12 base" and "unat limit + 4096 < 2 ^ 64"
    and "unat base + 4096 < 2 ^ 64"
    and "distinct (region_frames base limit)" and "list_all (frame_ok s) (region_frames base limit)"
    and "set (region_frames base limit) \<inter> set fs = {}"
  shows "\<exists>s'. push_region base limit s = Some s' \<and> same_boot s s'
           \<and> free_list s' (rev (region_frames base limit) @ fs)"
  using assms
proof (induction base limit s arbitrary: fs rule: push_region.induct)
  case (1 addr limit s)
  from "1.prems"(4) obtain nxt where nxt: "checked_add addr 4096 = Some nxt"
    by (cases "checked_add addr 4096") (simp_all add: checked_simps)
  show ?case
  proof (cases "nxt \<le> limit")
    case False
    then have "unat limit < unat addr + 4096"
      using nxt by (simp add: checked_simps word_le_nat_alt)
    then show ?thesis
      using "1.prems"(1) nxt False
      by (simp add: region_frames_Nil push_region.simps [of addr] FRAME_SIZE_def)
  next
    case True
    note split = region_frames_Cons [OF nxt True]
    have ok: "frame_ok s addr" and new: "addr \<notin> set fs"
      using "1.prems"(6,7) by (simp_all add: split)
    obtain s1 where s1: "push_free addr s = Some s1"
      using push_free_eq [OF "1.prems"(1) ok] by simp
    have inv1: "free_list s1 (addr # fs)"
      by (rule push_free_list [OF "1.prems"(1) ok new s1])
    have boot1: "same_boot s s1"
      by (rule push_free_same_boot [OF s1])
    have "\<exists>s'. push_region nxt limit s1 = Some s' \<and> same_boot s1 s'
             \<and> free_list s' (rev (region_frames nxt limit) @ addr # fs)"
    proof (rule "1.IH" [OF _ True s1 inv1])
      show "checked_add addr FRAME_SIZE = Some nxt"
        using nxt by (simp add: FRAME_SIZE_def)
      show "aligned 12 nxt"
        using nxt "1.prems"(2) by (simp add: checked_simps aligned_iff_dvd)
      show "unat nxt + 4096 < 2 ^ 64"
        using nxt True "1.prems"(3) by (simp add: checked_simps word_le_nat_alt)
      show "list_all (frame_ok s1) (region_frames nxt limit)"
        using "1.prems"(6) same_boot_frame_ok [OF boot1] by (simp add: split)
      show "distinct (region_frames nxt limit)"
        and "set (region_frames nxt limit) \<inter> set (addr # fs) = {}"
        using "1.prems"(5,7) by (auto simp: split)
    qed (rule "1.prems"(3))
    with s1 nxt True show ?thesis
      by (auto simp: push_region.simps [of addr] FRAME_SIZE_def split intro: same_boot_trans [OF boot1])
  qed
qed

text \<open>
  What the boot loader promises of its memory map (Limine's documentation: the usable entries are
  aligned and do not overlap): no entry runs past the end of the address space, and the frames of
  the usable entries are different and have an HHDM address.
\<close>

definition entry_bounded :: "mmap_entry \<Rightarrow> bool" where
  "entry_bounded e \<longleftrightarrow> unat (entry_base e) + unat (entry_length e) + 8192 < 2 ^ 64"

definition boot_ok :: "'z memstate_scheme \<Rightarrow> bool" where
  "boot_ok s \<longleftrightarrow> hhdm_ok s \<and> fa_head s = None \<and> \<not> fa_initialized s \<and>
     (case memory_map s of
        None \<Rightarrow> True
      | Some es \<Rightarrow> list_all entry_bounded es \<and> distinct (usable_frames es)
          \<and> list_all (frame_ok s) (usable_frames es))"

definition boot_frames :: "'z memstate_scheme \<Rightarrow> u64 list" where
  "boot_frames s = (case memory_map s of None \<Rightarrow> [] | Some es \<Rightarrow> usable_frames es)"

lemma align_up_4096:
  assumes "unat a + 4096 < 2 ^ 64"
  shows "align_up a FRAME_SIZE = Some ((a + 4095) AND NOT 4095)"
proof -
  have "checked_add a 4096 = Some (a + 4096)" and "checked_sub (a + 4096) 1 = Some (a + 4095)"
    using assms by (auto simp: checked_simps checked_add_def unat_word_ariths)
  moreover have "checked_sub (4096::u64) 1 = Some 4095"
    by (simp add: checked_simps)
  ultimately show ?thesis
    by (simp add: align_up_def FRAME_SIZE_def)
qed

lemma push_entries_list:
  assumes "free_list s fs" and "list_all entry_bounded es" and "distinct (usable_frames es)"
    and "list_all (frame_ok s) (usable_frames es)" and "set (usable_frames es) \<inter> set fs = {}"
  shows "\<exists>s'. push_entries es s = Some s' \<and> same_boot s s'
           \<and> free_list s' (rev (usable_frames es) @ fs)"
  using assms
proof (induction es arbitrary: s fs)
  case Nil
  then show ?case by (simp add: usable_frames_def)
next
  case (Cons e es)
  show ?case
  proof (cases "entry_type e = USABLE")
    case False
    then show ?thesis using Cons by (simp add: usable_frames_def entry_frames_def)
  next
    case True
    define base where "base = (entry_base e + 4095) AND NOT 4095"
    define limit where "limit = entry_base e + entry_length e"
    have fr: "usable_frames (e # es) = region_frames base limit @ usable_frames es"
      using True by (simp add: usable_frames_def entry_frames_def base_def limit_def)
    have bnd: "unat (entry_base e) + unat (entry_length e) + 8192 < 2 ^ 64"
      using Cons.prems(2) by (simp add: entry_bounded_def)
    have base: "align_up (entry_base e) FRAME_SIZE = Some base"
      using bnd by (simp add: align_up_4096 base_def)
    have limit: "checked_add (entry_base e) (entry_length e) = Some limit"
      using bnd by (simp add: checked_add_def limit_def)
    have "unat base \<le> unat (entry_base e + 4095)"
      by (simp add: base_def mask_12 unat_and_not_mask)
    then have base_bnd: "unat base + 4096 < 2 ^ 64"
      using bnd by (simp add: unat_word_ariths)
    have "\<exists>s1. push_region base limit s = Some s1 \<and> same_boot s s1
            \<and> free_list s1 (rev (region_frames base limit) @ fs)"
      using Cons.prems bnd limit base_bnd
      by (intro push_region_list) (auto simp: fr base_def mask_12 checked_simps)
    then obtain s1 where s1: "push_region base limit s = Some s1" "same_boot s s1"
        "free_list s1 (rev (region_frames base limit) @ fs)" by blast
    have "\<exists>s'. push_entries es s1 = Some s' \<and> same_boot s1 s'
            \<and> free_list s' (rev (usable_frames es) @ rev (region_frames base limit) @ fs)"
      using Cons.prems same_boot_frame_ok [OF s1(2)]
      by (intro Cons.IH [OF s1(3)]) (auto simp: fr)
    then show ?thesis
      using True base limit s1 by (auto simp: fr intro: same_boot_trans)
  qed
qed

lemma fa_init_list:
  assumes "boot_ok s"
  shows "\<exists>s'. fa_init s = Some s' \<and> fa_inv s' (rev (boot_frames s))
           \<and> hhdm_offset s' = hhdm_offset s \<and> memory_map s' = memory_map s"
proof (cases "memory_map s")
  case None
  with assms show ?thesis
    by (auto simp: fa_init_def boot_frames_def fa_inv_def free_list_def boot_ok_def)
next
  case (Some es)
  have "\<exists>s'. push_entries es s = Some s' \<and> same_boot s s' \<and> free_list s' (rev (usable_frames es) @ [])"
    using assms Some by (intro push_entries_list) (auto simp: boot_ok_def free_list_def)
  then show ?thesis
    using Some by (auto simp: fa_init_def boot_frames_def fa_inv_def free_list_def same_boot_def)
qed

text \<open>No operation changes the boot loader's responses.\<close>

lemma push_region_same_boot: "push_region a l s = Some s' \<Longrightarrow> same_boot s s'"
proof (induction a l s rule: push_region.induct)
  case (1 addr limit s)
  show ?case
  proof (cases "checked_add addr FRAME_SIZE")
    case None
    then show ?thesis using "1.prems" by (simp add: push_region.simps [of addr])
  next
    case (Some nxt)
    then show ?thesis
      using "1.prems" "1.IH" [OF Some]
      by (auto simp: push_region.simps [of addr] bind_eq_Some_conv split: if_splits
          intro: same_boot_trans dest: push_free_same_boot)
  qed
qed

lemma push_entries_same_boot: "push_entries es s = Some s' \<Longrightarrow> same_boot s s'"
  by (induction es arbitrary: s)
    (auto simp: bind_eq_Some_conv split: if_splits intro: same_boot_trans dest: push_region_same_boot)

lemma fa_init_hhdm: "fa_init s = Some s' \<Longrightarrow> hhdm_offset s' = hhdm_offset s"
  by (auto simp: fa_init_def bind_eq_Some_conv same_boot_def dest: push_entries_same_boot
      split: option.splits)

lemma allocate_hhdm:
  assumes "allocate s = Some (r, s')"
  shows "hhdm_offset s' = hhdm_offset s"
proof -
  obtain s1 where s1: "(if \<not> fa_initialized s then fa_init s else Some s) = Some s1"
    using assms by (auto simp: allocate_def bind_eq_Some_conv)
  then have "hhdm_offset s1 = hhdm_offset s"
    by (cases "fa_initialized s") (auto dest: fa_init_hhdm)
  moreover have "hhdm_offset s' = hhdm_offset s1"
    using assms unfolding allocate_def s1
    by (auto simp: bind_eq_Some_conv Let_def split: option.split_asm)
  ultimately show ?thesis by simp
qed

text \<open>The first call of \<open>allocate\<close> builds the list.\<close>

lemma fa_init_initialized: "fa_init s = Some s' \<Longrightarrow> fa_initialized s'"
  by (auto simp: fa_init_def bind_eq_Some_conv)

lemma allocate_uninitialized:
  "\<not> fa_initialized s \<Longrightarrow> fa_init s = Some s' \<Longrightarrow> allocate s = allocate s'"
  by (simp add: allocate_def fa_init_initialized)

section \<open>Which frames the list holds\<close>

lemma region_frames_iff:
  assumes "aligned 12 base" and "unat limit + 4096 < 2 ^ 64"
  shows "f \<in> set (region_frames base limit) \<longleftrightarrow>
           aligned 12 f \<and> unat base \<le> unat f \<and> unat f + 4096 \<le> unat limit"
proof
  assume "f \<in> set (region_frames base limit)"
  then obtain k where k: "k < (unat limit - unat base) div 4096" "f = base + of_nat (4096 * k)"
    by (auto simp: region_frames_def)
  then have b: "unat base + 4096 * k + 4096 \<le> unat limit"
    by auto
  then have "unat (of_nat (4096 * k) :: u64) = 4096 * k"
    using assms(2) by (subst unat_of_nat) simp
  then have f: "unat f = unat base + 4096 * k"
    using b assms(2) by (simp add: k(2) unat_word_ariths)
  then show "aligned 12 f \<and> unat base \<le> unat f \<and> unat f + 4096 \<le> unat limit"
    using b assms(1) by (simp add: aligned_iff_dvd)
next
  assume *: "aligned 12 f \<and> unat base \<le> unat f \<and> unat f + 4096 \<le> unat limit"
  define k where "k = (unat f - unat base) div 4096"
  have "4096 dvd unat f" and "4096 dvd unat base"
    using * assms(1) by (simp_all add: aligned_iff_dvd)
  then have "4096 dvd unat f - unat base"
    by (rule dvd_diff_nat)
  then have "4096 * k = unat f - unat base"
    unfolding k_def by (rule dvd_mult_div_cancel)
  then have k: "unat f = unat base + 4096 * k"
    using * by linarith
  have "f = of_nat (unat f)"
    by simp
  also have "\<dots> = base + of_nat (4096 * k)"
    by (simp only: k of_nat_add of_nat_unat ucast_id)
  finally have "f = base + of_nat (4096 * k)" .
  moreover have "k < (unat limit - unat base) div 4096"
    using * k by linarith
  ultimately show "f \<in> set (region_frames base limit)"
    by (auto simp: region_frames_def)
qed

lemma round_up_le_iff: "n + 4095 - (n + 4095) mod 4096 \<le> 4096 * k \<longleftrightarrow> n \<le> 4096 * (k :: nat)"
proof -
  have "n + 4095 - (n + 4095) mod 4096 = 4096 * ((n + 4095) div 4096)"
    by (simp add: minus_mod_eq_mult_div)
  moreover have "(n + 4095) div 4096 \<le> k \<longleftrightarrow> n \<le> 4096 * k"
    using div_less_iff_less_mult [of 4096 "n + 4095" "k + 1"] by linarith
  ultimately show ?thesis by simp
qed

lemma entry_frames_iff:
  assumes "entry_bounded e"
  shows "f \<in> set (entry_frames e) \<longleftrightarrow> entry_type e = USABLE \<and> aligned 12 f
           \<and> unat (entry_base e) \<le> unat f
           \<and> unat f + 4096 \<le> unat (entry_base e) + unat (entry_length e)"
proof -
  let ?base = "(entry_base e + 4095) AND NOT (mask 12)"
  have bnd: "unat (entry_base e) + unat (entry_length e) + 8192 < 2 ^ 64"
    using assms by (simp add: entry_bounded_def)
  have limit: "unat (entry_base e + entry_length e) = unat (entry_base e) + unat (entry_length e)"
    using bnd by (simp add: unat_word_ariths)
  have up: "unat (entry_base e + 4095) = unat (entry_base e) + 4095"
    using bnd by (simp add: unat_word_ariths)
  have "unat ?base \<le> unat f \<longleftrightarrow> unat (entry_base e) \<le> unat f" if al: "aligned 12 f"
  proof -
    obtain k where "unat f = 4096 * k"
      using al by (auto simp: aligned_iff_dvd elim: dvdE)
    then show ?thesis
      unfolding unat_and_not_mask up using round_up_le_iff [of "unat (entry_base e)" k] by simp
  qed
  then show ?thesis
    using bnd by (auto simp: entry_frames_def mask_12 region_frames_iff limit)
qed

section \<open>The contract of the frame allocator\<close>

text \<open>
  What the clients (the heap initialisation, the page tables) rely on: a call of \<open>alloc\<close> hands out
  the head of the pool or reports that it is empty, and \<open>release\<close> puts an acceptable frame that is
  not in the pool at the head.
\<close>

primrec alloc_n :: "('s \<Rightarrow> ('f option \<times> 's) option) \<Rightarrow> nat \<Rightarrow> 's \<Rightarrow> ('f option list \<times> 's) option" where
  "alloc_n alloc 0 s = Some ([], s)"
| "alloc_n alloc (Suc n) s = do {
     (r, s) \<leftarrow> alloc s;
     (rs, s) \<leftarrow> alloc_n alloc n s;
     Some (r # rs, s)
   }"

locale frame_pool =
  fixes alloc :: "'s \<Rightarrow> ('f option \<times> 's) option"
    and release :: "'f \<Rightarrow> 's \<Rightarrow> 's option"
    and pool :: "'s \<Rightarrow> 'f list \<Rightarrow> bool"
    and acceptable :: "'s \<Rightarrow> 'f \<Rightarrow> bool"
  assumes pool_distinct: "pool s fs \<Longrightarrow> distinct fs"
    and alloc_cons: "pool s (f # fs) \<Longrightarrow>
      \<exists>s'. alloc s = Some (Some f, s') \<and> pool s' fs \<and> acceptable s' = acceptable s \<and> acceptable s f"
    and alloc_nil: "pool s [] \<Longrightarrow> alloc s = Some (None, s)"
    and release_new: "pool s fs \<Longrightarrow> acceptable s f \<Longrightarrow> f \<notin> set fs \<Longrightarrow>
      \<exists>s'. release f s = Some s' \<and> pool s' (f # fs) \<and> acceptable s' = acceptable s"
begin

lemma alloc_head: "pool s fs \<Longrightarrow> \<exists>s'. alloc s = Some (head_of fs, s') \<and> pool s' (tl fs)"
  by (cases fs) (auto simp: alloc_nil dest: alloc_cons)

lemma alloc_n_pool:
  "pool s fs \<Longrightarrow> \<exists>s'. alloc_n alloc n s
     = Some (map Some (take n fs) @ replicate (n - length fs) None, s') \<and> pool s' (drop n fs)"
proof (induction n arbitrary: s fs)
  case 0
  then show ?case by simp
next
  case (Suc n)
  show ?case
  proof (cases fs)
    case Nil
    then show ?thesis using Suc alloc_nil [of s] by fastforce
  next
    case (Cons f gs)
    then obtain s1 where s1: "alloc s = Some (Some f, s1)" "pool s1 gs"
      using Suc.prems alloc_cons [of s f gs] by blast
    from Suc.IH [OF s1(2)] show ?thesis
      by (auto simp: s1(1) Cons)
  qed
qed

lemma release_then_alloc:
  assumes "pool s fs" "acceptable s f" "f \<notin> set fs"
  shows "\<exists>s' s''. release f s = Some s' \<and> alloc s' = Some (Some f, s'') \<and> pool s'' fs"
proof -
  obtain s' where s': "release f s = Some s'" "pool s' (f # fs)"
    using release_new [OF assms] by blast
  then show ?thesis using alloc_cons [OF s'(2)] by blast
qed

lemma alloc_leaves_pool:
  assumes "pool s fs" "alloc s = Some (Some f, s')"
  shows "\<exists>gs. fs = f # gs \<and> pool s' gs \<and> f \<notin> set gs"
proof (cases fs)
  case Nil
  then show ?thesis using assms alloc_nil by auto
next
  case (Cons g gs)
  with assms alloc_cons [of s g gs] pool_distinct [of s fs] show ?thesis by auto
qed

end

interpretation fp: frame_pool allocate free_frame fa_inv frame_ok
proof unfold_locales
  show "distinct fs" if "fa_inv s fs" for s :: "'z memstate_scheme" and fs
    using that by (simp add: fa_inv_def free_list_def)
  show "\<exists>s'. allocate s = Some (Some f, s') \<and> fa_inv s' fs \<and> frame_ok s' = frame_ok s \<and> frame_ok s f"
    if "fa_inv s (f # fs)" for s :: "'z memstate_scheme" and f fs
    using that allocate_cons_eq [OF that] allocate_cons_list [OF that]
    by (simp add: fa_inv_def free_list_def)
  show "allocate s = Some (None, s)" if "fa_inv s []" for s :: "'z memstate_scheme"
    using that by (rule allocate_nil)
  show "\<exists>s'. free_frame f s = Some s' \<and> fa_inv s' (f # fs) \<and> frame_ok s' = frame_ok s"
    if "fa_inv s fs" "frame_ok s f" "f \<notin> set fs" for s :: "'z memstate_scheme" and f fs
    using free_frame_list [OF that] free_frame_frame_ok by blast
qed

section \<open>Properties\<close>

text \<open>
  Property C2. The initialisation returns and the free list it builds holds exactly the 4096-byte
  aligned frames that lie wholly inside a usable entry of the memory map, each once.
\<close>

theorem fa_init_builds_free_list:
  assumes "boot_ok s" and "memory_map s = Some es"
  shows "\<exists>s' fs. fa_init s = Some s' \<and> fa_inv s' fs \<and> distinct fs \<and>
           (\<forall>f. f \<in> set fs \<longleftrightarrow> (\<exists>e. e \<in> set es \<and> entry_type e = USABLE \<and> aligned 12 f
              \<and> unat (entry_base e) \<le> unat f
              \<and> unat f + 4096 \<le> unat (entry_base e) + unat (entry_length e)))"
proof -
  obtain s' where s': "fa_init s = Some s'" "fa_inv s' (rev (usable_frames es))"
    using fa_init_list [OF assms(1)] assms(2) by (auto simp: boot_frames_def)
  have "f \<in> set (rev (usable_frames es)) \<longleftrightarrow> (\<exists>e. e \<in> set es \<and> entry_type e = USABLE \<and> aligned 12 f
              \<and> unat (entry_base e) \<le> unat f
              \<and> unat f + 4096 \<le> unat (entry_base e) + unat (entry_length e))" for f
    using assms by (auto simp: usable_frames_def boot_ok_def list_all_iff entry_frames_iff)
  with s' fp.pool_distinct [OF s'(2)] show ?thesis by blast
qed

definition boot_example :: memstate where
  "boot_example =
     \<lparr>ram = (\<lambda>_. 0), hhdm_offset = Some 0xFFFF800000000000,
      memory_map = Some
        [\<lparr>entry_base = 0, entry_length = 0x1000, entry_type = RESERVED\<rparr>,
         \<lparr>entry_base = 0x1800, entry_length = 0x2900, entry_type = USABLE\<rparr>],
      fa_head = None, fa_initialized = False\<rparr>"

lemma boot_example_frames: "boot_frames boot_example = [0x2000, 0x3000]"
  by (simp add: boot_frames_def boot_example_def usable_frames_def entry_frames_def region_frames_def
      upt_rec)

lemma boot_example_ok: "boot_ok boot_example"
  using boot_example_frames
  by (simp add: boot_ok_def boot_frames_def boot_example_def entry_bounded_def frame_ok_def hhdm_ok_def
      hhdm_def aligned_def mask_eq_exp_minus_1)

theorem fa_init_builds_free_list_witness:
  "\<exists>s' fs. fa_init boot_example = Some s' \<and> fa_inv s' fs \<and> 0x2000 \<in> set fs"
proof -
  have "memory_map boot_example = Some
      [\<lparr>entry_base = 0, entry_length = 0x1000, entry_type = RESERVED\<rparr>,
       \<lparr>entry_base = 0x1800, entry_length = 0x2900, entry_type = USABLE\<rparr>]"
    by (simp add: boot_example_def)
  from fa_init_builds_free_list [OF boot_example_ok this] show ?thesis
    by (fastforce simp: aligned_def mask_eq_exp_minus_1)
qed

text \<open>
  Property C3. An allocation refines a pop of the free list: it hands out the head (or reports that
  there is none), leaves the tail, the frame handed out is zero in every byte of its HHDM range, and
  no byte outside that range changes.
\<close>

theorem allocate_refines_pop:
  assumes "fa_inv s fs"
  shows "\<exists>s'. allocate s = Some (head_of fs, s') \<and> fa_inv s' (tl fs) \<and>
           (\<forall>x. ram s' x = (case head_of fs of
                Some f \<Rightarrow> if in_range x (f + hhdm s) 4096 then 0 else ram s x
              | None \<Rightarrow> ram s x))"
proof (cases fs)
  case Nil
  then show ?thesis using assms by (simp add: allocate_nil)
next
  case (Cons f gs)
  then show ?thesis
    using assms allocate_cons_eq [of s f gs] allocate_cons_list [of s f gs]
    by (auto simp: mem_fill_def in_range_def)
qed

definition pool_example :: memstate where
  "pool_example = boot_example\<lparr>fa_initialized := True, fa_head := Some 0x2000,
     ram := wr64 (\<lambda>_. 7) 0xFFFF800000002000 NULL_MARK\<rparr>"

lemma pool_example_inv: "fa_inv pool_example [0x2000]"
  by (simp add: fa_inv_def free_list_def pool_example_def boot_example_def frame_ok_def hhdm_ok_def
      hhdm_def aligned_def mask_eq_exp_minus_1 rd64_wr64_same next_of_def)

theorem allocate_refines_pop_witness:
  "\<exists>s'. allocate pool_example = Some (Some 0x2000, s') \<and> fa_inv s' [] \<and> ram s' 0xFFFF800000002FFF = 0"
  using allocate_refines_pop [OF pool_example_inv]
  by (auto simp: in_range_def hhdm_def pool_example_def boot_example_def)

text \<open>
  The allocator is last-in first-out: a frame that is freed is the one the next call of
  \<open>allocate\<close> hands out, and the free list is then what it was before.
\<close>

theorem free_then_allocate:
  assumes "fa_inv s fs" and "frame_ok s f" and "f \<notin> set fs"
  shows "\<exists>s' s''. free_frame f s = Some s' \<and> fa_inv s' (f # fs)
           \<and> allocate s' = Some (Some f, s'') \<and> fa_inv s'' fs"
  using fp.release_new [OF assms] fp.release_then_alloc [OF assms] by force

theorem free_then_allocate_witness:
  "\<exists>s' s''. free_frame 0x3000 pool_example = Some s' \<and> fa_inv s' [0x3000, 0x2000]
     \<and> allocate s' = Some (Some 0x3000, s'') \<and> fa_inv s'' [0x2000]"
  by (rule free_then_allocate [OF pool_example_inv])
    (simp_all add: frame_ok_def hhdm_ok_def hhdm_def pool_example_def boot_example_def aligned_def
      mask_eq_exp_minus_1)

end
