(* ===== verification/Heap_Allocator.thy ===== *)
theory Heap_Allocator
  imports Frame_Allocator
begin

text \<open>
  \<^verbatim>\<open>kernel/src/memory/heap_allocator.rs\<close> and the entry points of \<^verbatim>\<open>kernel/src/memory/mod.rs\<close>: the
  kernel heap is one block of \<open>HEAP_SIZE\<close> bytes made of the frames the allocator hands out first. The
  heap itself is the crate \<open>linked_list_allocator\<close>, which is not modelled: the call
  \<open>ALLOCATOR.lock().init(start, size)\<close> is recorded in the field \<open>heap_region\<close>.

  The lemmas relate the loop of \<open>init_heap\<close> to the list of frames it was handed (\<open>heap_scan\<close>), over
  the contract \<open>frame_pool\<close> of the frame allocator.
\<close>

record heapstate = memstate +
  heap_region :: "(u64 \<times> u64) option"

definition HEAP_FRAMES :: nat where "HEAP_FRAMES = 256"

definition HEAP_SIZE :: u64 where "HEAP_SIZE = of_nat HEAP_FRAMES * FRAME_SIZE"

fun heap_loop :: "nat \<Rightarrow> u64 option \<Rightarrow> u64 option \<Rightarrow> 'z heapstate_scheme
    \<Rightarrow> (u64 option \<times> 'z heapstate_scheme) option" where
  "heap_loop 0 lowest_frame expected_next s = Some (lowest_frame, s)"
| "heap_loop (Suc n) lowest_frame expected_next s = do {
     (r, s) \<leftarrow> allocate s;
     case r of
       None \<Rightarrow> heap_loop n lowest_frame expected_next s
     | Some frame \<Rightarrow>
         (case expected_next of
            Some expected \<Rightarrow>
              if frame \<noteq> expected then heap_loop n lowest_frame expected_next s
              else heap_loop n (Some frame) (Some (frame - FRAME_SIZE)) s
          | None \<Rightarrow> heap_loop n (Some frame) (Some (frame - FRAME_SIZE)) s)
   }"

definition init_heap :: "'z heapstate_scheme \<Rightarrow> (bool \<times> 'z heapstate_scheme) option" where
  "init_heap s = do {
     (lowest_frame, s) \<leftarrow> heap_loop HEAP_FRAMES None None s;
     case lowest_frame of
       None \<Rightarrow> Some (False, s)
     | Some heap_start_phys \<Rightarrow> do {
         v \<leftarrow> physical_to_virtual s heap_start_phys;
         case v of
           None \<Rightarrow> Some (False, s)
         | Some heap_start_virt \<Rightarrow> Some (True, s\<lparr>heap_region := Some (heap_start_virt, HEAP_SIZE)\<rparr>)
       }
   }"

text \<open>\<open>memory::init\<close>: when the heap cannot be set up the kernel stops in an endless loop.\<close>

definition memory_init :: "'z heapstate_scheme \<Rightarrow> 'z heapstate_scheme option" where
  "memory_init s = do {
     (ok, s) \<leftarrow> init_heap s;
     if \<not> ok then None else Some s
   }"

section \<open>The loop as a scan of the frames handed out\<close>

fun heap_scan :: "u64 option \<Rightarrow> u64 option \<Rightarrow> u64 option list \<Rightarrow> u64 option" where
  "heap_scan low expected [] = low"
| "heap_scan low expected (None # rs) = heap_scan low expected rs"
| "heap_scan low expected (Some f # rs) =
     (if expected = None \<or> expected = Some f then heap_scan (Some f) (Some (f - FRAME_SIZE)) rs
      else heap_scan low expected rs)"

lemma heap_loop_scan:
  "alloc_n allocate n s = Some (rs, s') \<Longrightarrow> heap_loop n low expected s = Some (heap_scan low expected rs, s')"
proof (induction n arbitrary: s low expected rs)
  case 0
  then show ?case by simp
next
  case (Suc n)
  then obtain r s1 rs1 where s1: "allocate s = Some (r, s1)" "alloc_n allocate n s1 = Some (rs1, s')"
      "rs = r # rs1"
    by (auto simp: bind_eq_Some_conv)
  with Suc.IH [OF s1(2)] show ?case
    by (cases r; cases expected) auto
qed

lemma heap_scan_Nones [simp]: "heap_scan low expected (replicate k None) = low"
  by (induction k) simp_all

lemma heap_scan_append_Nones [simp]: "heap_scan low expected (rs @ replicate k None) = heap_scan low expected rs"
  by (induction low expected rs rule: heap_scan.induct) simp_all

lemma heap_scan_low:
  "low \<noteq> None \<or> rs \<noteq> [] \<Longrightarrow> (low = None \<longrightarrow> expected = None) \<Longrightarrow>
     \<exists>f. heap_scan low expected (map Some rs) = Some f \<and> f \<in> set rs \<union> set_option low"
proof (induction rs arbitrary: low expected)
  case Nil
  then show ?case by auto
next
  case (Cons r rs)
  show ?case
  proof (cases "expected = None \<or> expected = Some r")
    case True
    with Cons.IH [of "Some r" "Some (r - FRAME_SIZE)"] show ?thesis by auto
  next
    case False
    with Cons.prems have "low \<noteq> None" by auto
    with False Cons.IH [of low expected] show ?thesis by auto
  qed
qed

text \<open>The block of \<open>n\<close> frames below and including \<open>hi\<close>, highest first.\<close>

definition descending :: "u64 \<Rightarrow> nat \<Rightarrow> u64 list" where
  "descending hi n = map (\<lambda>k. hi - of_nat k * FRAME_SIZE) [0..<n]"

lemma descending_Suc: "descending hi (Suc n) = hi # descending (hi - FRAME_SIZE) n"
  unfolding descending_def map_upt_Suc by (simp add: algebra_simps)

lemma heap_scan_descending:
  "expected = Some hi \<or> expected = None \<Longrightarrow>
     heap_scan low expected (map Some (descending hi (Suc n))) = Some (hi - of_nat n * FRAME_SIZE)"
proof (induction n arbitrary: low expected hi)
  case 0
  then show ?case by (auto simp: descending_Suc descending_def)
next
  case (Suc n)
  have "heap_scan low expected (map Some (descending hi (Suc (Suc n))))
      = heap_scan (Some hi) (Some (hi - FRAME_SIZE)) (map Some (descending (hi - FRAME_SIZE) (Suc n)))"
    using Suc.prems by (auto simp: descending_Suc [of hi])
  also have "\<dots> = Some (hi - of_nat (Suc n) * FRAME_SIZE)"
    using Suc.IH [of "Some (hi - FRAME_SIZE)" "hi - FRAME_SIZE"] by (simp add: algebra_simps)
  finally show ?case .
qed

lemma alloc_n_hhdm: "alloc_n allocate n s = Some (rs, s') \<Longrightarrow> hhdm_offset s' = hhdm_offset s"
proof (induction n arbitrary: s rs)
  case (Suc n)
  then obtain r s1 rs1 where s1: "allocate s = Some (r, s1)" "alloc_n allocate n s1 = Some (rs1, s')"
    by (auto simp: bind_eq_Some_conv)
  then show ?case using Suc.IH [OF s1(2)] allocate_hhdm [OF s1(1)] by simp
qed simp

lemma heap_loop_pool:
  assumes "fa_inv s fs"
  shows "\<exists>s'. heap_loop n None None s = Some (heap_scan None None (map Some (take n fs)), s')
           \<and> fa_inv s' (drop n fs) \<and> hhdm_offset s' = hhdm_offset s"
proof -
  obtain s' where s': "alloc_n allocate n s
      = Some (map Some (take n fs) @ replicate (n - length fs) None, s')" "fa_inv s' (drop n fs)"
    using fp.alloc_n_pool [OF assms] by blast
  have "heap_loop n None None s = Some (heap_scan None None (map Some (take n fs)), s')"
    using heap_loop_scan [OF s'(1)] by simp
  with s'(2) alloc_n_hhdm [OF s'(1)] show ?thesis by blast
qed

lemma frame_ok_heap_region [simp]: "frame_ok (s\<lparr>heap_region := r\<rparr>) = frame_ok s"
  by (simp add: fun_eq_iff frame_ok_def hhdm_ok_def hhdm_def)

lemma fa_inv_heap_region [simp]: "fa_inv (s\<lparr>heap_region := r\<rparr>) fs = fa_inv s fs"
  by (simp add: fa_inv_def free_list_def) (simp add: hhdm_ok_def hhdm_def)

lemma init_heap_eq:
  assumes "fa_inv s fs"
  shows "\<exists>s'. init_heap s = Some (fs \<noteq> [], s') \<and> fa_inv s' (drop HEAP_FRAMES fs) \<and>
           (fs \<noteq> [] \<longrightarrow> (\<exists>low. low \<in> set (take HEAP_FRAMES fs)
              \<and> heap_scan None None (map Some (take HEAP_FRAMES fs)) = Some low
              \<and> heap_region s' = Some (low + hhdm s, HEAP_SIZE)))"
proof -
  obtain s1 where s1: "heap_loop HEAP_FRAMES None None s
        = Some (heap_scan None None (map Some (take HEAP_FRAMES fs)), s1)"
      "fa_inv s1 (drop HEAP_FRAMES fs)" and boot: "hhdm_offset s1 = hhdm_offset s"
    using heap_loop_pool [OF assms] by blast
  show ?thesis
  proof (cases "fs = []")
    case True
    then show ?thesis using s1 by (simp add: init_heap_def)
  next
    case False
    then have "take HEAP_FRAMES fs \<noteq> []"
      by (simp add: HEAP_FRAMES_def)
    then obtain low where low: "heap_scan None None (map Some (take HEAP_FRAMES fs)) = Some low"
        "low \<in> set (take HEAP_FRAMES fs)"
      using heap_scan_low [of None "take HEAP_FRAMES fs" None] by auto
    then have "frame_ok s low"
      using assms by (auto simp: fa_inv_def intro: free_list_frame_ok dest: in_set_takeD)
    then have "physical_to_virtual s1 low = Some (Some (low + hhdm s))"
      using p2v_frame [of s low] boot by (simp add: physical_to_virtual_def)
    then have "init_heap s = Some (True, s1\<lparr>heap_region := Some (low + hhdm s, HEAP_SIZE)\<rparr>)"
      by (simp add: init_heap_def s1(1) low(1))
    then show ?thesis
      using False s1(2) low by simp
  qed
qed

lemma init_heap_contiguous_aux:
  assumes "fa_inv s (descending hi 256 @ rest)"
  shows "\<exists>s' start. init_heap s = Some (True, s') \<and> fa_inv s' rest
           \<and> heap_region s' = Some (start, HEAP_SIZE)
           \<and> (\<forall>x. in_range x start (unat HEAP_SIZE)
                \<longleftrightarrow> (\<exists>f. f \<in> set (descending hi 256) \<and> in_range x (f + hhdm s) 4096))"
proof -
  let ?fs = "descending hi 256 @ rest"
  have len: "length (descending hi 256) = 256" by (simp add: descending_def)
  then have tk: "take HEAP_FRAMES ?fs = descending hi 256" "drop HEAP_FRAMES ?fs = rest" "?fs \<noteq> []"
    by (auto simp: HEAP_FRAMES_def)
  have scan: "heap_scan None None (map Some (descending hi 256)) = Some (hi - 255 * FRAME_SIZE)"
    using heap_scan_descending [of None hi None 255] by simp
  let ?start = "hi - 255 * FRAME_SIZE + hhdm s"
  have "\<exists>s'. init_heap s = Some (True, s') \<and> fa_inv s' rest \<and> heap_region s' = Some (?start, HEAP_SIZE)"
    using init_heap_eq [OF assms, unfolded tk scan] tk(3) by auto
  moreover have "in_range x ?start (unat HEAP_SIZE)
      \<longleftrightarrow> (\<exists>f. f \<in> set (descending hi 256) \<and> in_range x (f + hhdm s) 4096)" for x
  proof -
    have "in_range x ?start (unat HEAP_SIZE) \<longleftrightarrow> unat (x - ?start) < 256 * 4096"
      by (simp add: in_range_def HEAP_SIZE_def HEAP_FRAMES_def FRAME_SIZE_def)
    also have "\<dots> \<longleftrightarrow> (\<exists>j. j < 256 \<and> unat (x - ?start - of_nat (j * 4096)) < 4096)"
      by (rule pages_cover) simp
    also have "\<dots> \<longleftrightarrow> (\<exists>k. k < 256 \<and> unat (x - (hi - of_nat k * FRAME_SIZE + hhdm s)) < 4096)"
    proof -
      have *: "x - ?start - of_nat (j * 4096) = x - (hi - of_nat (255 - j) * FRAME_SIZE + hhdm s)"
        if "j < 256" for j
        using that by (simp add: of_nat_diff FRAME_SIZE_def algebra_simps)
      show ?thesis
      proof
        assume "\<exists>j. j < 256 \<and> unat (x - ?start - of_nat (j * 4096)) < 4096"
        then obtain j where j: "j < 256" "unat (x - ?start - of_nat (j * 4096)) < 4096" by blast
        then show "\<exists>k. k < 256 \<and> unat (x - (hi - of_nat k * FRAME_SIZE + hhdm s)) < 4096"
          unfolding * [OF j(1)] by (intro exI [of _ "255 - j"]) linarith
      next
        assume "\<exists>k. k < 256 \<and> unat (x - (hi - of_nat k * FRAME_SIZE + hhdm s)) < 4096"
        then obtain k where k: "k < 256" "unat (x - (hi - of_nat k * FRAME_SIZE + hhdm s)) < 4096" by blast
        have "255 - k < 256" "255 - (255 - k) = k" using k(1) by auto
        with k(2) show "\<exists>j. j < 256 \<and> unat (x - ?start - of_nat (j * 4096)) < 4096"
          using * [of "255 - k"] by metis
      qed
    qed
    also have "\<dots> \<longleftrightarrow> (\<exists>f. f \<in> set (descending hi 256) \<and> in_range x (f + hhdm s) 4096)"
      by (auto simp: descending_def in_range_def)
    finally show ?thesis .
  qed
  ultimately show ?thesis by blast
qed

text \<open>At boot the frames of the last usable entry are handed out first, highest first.\<close>

lemma descending_append: "descending hi (m + n) = descending hi m @ descending (hi - of_nat m * FRAME_SIZE) n"
proof (induction m arbitrary: hi)
  case (Suc m)
  then show ?case by (simp add: descending_Suc algebra_simps)
qed (simp add: descending_def)

lemma rev_region_frames:
  "rev (region_frames base limit) =
     descending (base + of_nat ((unat limit - unat base) div 4096 - 1) * FRAME_SIZE)
       ((unat limit - unat base) div 4096)"
proof (rule nth_equalityI)
  let ?n = "(unat limit - unat base) div 4096"
  show "length (rev (region_frames base limit)) = length (descending (base + of_nat (?n - 1) * FRAME_SIZE) ?n)"
    by (simp add: region_frames_def descending_def)
  fix i assume "i < length (rev (region_frames base limit))"
  then have i: "i < ?n" by (simp add: region_frames_def)
  then have "of_nat (?n - Suc i) = (of_nat (?n - 1) - of_nat i :: u64)"
    by (simp add: of_nat_diff)
  with i show "rev (region_frames base limit) ! i = descending (base + of_nat (?n - 1) * FRAME_SIZE) ?n ! i"
    by (simp add: region_frames_def descending_def rev_nth FRAME_SIZE_def algebra_simps)
qed

lemma init_heap_uninitialized:
  assumes "\<not> fa_initialized s" and "fa_init s = Some s'"
  shows "init_heap s = init_heap s'"
proof -
  have "heap_loop (Suc 255) None None s = heap_loop (Suc 255) None None s'"
    by (simp only: heap_loop.simps allocate_uninitialized [OF assms])
  then have "heap_loop HEAP_FRAMES None None s = heap_loop HEAP_FRAMES None None s'"
    by (simp add: HEAP_FRAMES_def)
  then show ?thesis
    by (simp add: init_heap_def)
qed

lemma in_range_within:
  assumes "in_range p f 4096" and "entry_bounded e" and "f \<in> set (entry_frames e)"
  shows "in_range p (entry_base e) (unat (entry_length e))"
proof -
  have f: "unat (entry_base e) \<le> unat f" "unat f + 4096 \<le> unat (entry_base e) + unat (entry_length e)"
    using assms(2,3) by (simp_all add: entry_frames_iff)
  have "unat (f - entry_base e) = unat f - unat (entry_base e)"
    using f by (intro unat_sub) (simp add: word_le_nat_alt)
  then have s: "unat (f - entry_base e) + unat (p - f) < unat (entry_length e)"
    using f assms(1) by (simp add: in_range_def)
  have "p - entry_base e = (f - entry_base e) + (p - f)"
    by simp
  then have "unat (p - entry_base e) = unat (f - entry_base e) + unat (p - f)"
    using s unsigned_less [of "entry_length e"] by (metis (no_types, lifting) less_trans mod_less unat_word_ariths(1))
  with s show ?thesis by (simp add: in_range_def)
qed

text \<open>
  The pages of a 1 MiB block are 256 different pages, so fewer frames cannot cover them.
\<close>

lemma block_not_covered:
  assumes "fa_inv s fs" and "length fs < 256" and "frame_ok s low"
  shows "\<exists>x. in_range x (low + hhdm s) (unat HEAP_SIZE) \<and> \<not> (\<exists>f. f \<in> set fs \<and> in_range x (f + hhdm s) 4096)"
proof (rule ccontr)
  assume neg: "\<not> ?thesis"
  define pg where "pg j = low + hhdm s + of_nat (j * 4096)" for j :: nat
  have un: "unat (of_nat (j * 4096) :: u64) = j * 4096" if "j < 256" for j
    using that by (subst unat_of_nat) simp
  have al: "aligned 12 (pg j)" if "j < 256" for j
    unfolding pg_def aligned_iff_dvd unat_word_ariths un [OF that]
    using frame_virt_aligned [OF assms(3)] by (simp add: aligned_iff_dvd unat_word_ariths dvd_mod)
  have "\<exists>f. f \<in> set fs \<and> pg j = f + hhdm s" if j: "j < 256" for j
  proof -
    have "in_range (pg j) (low + hhdm s) (unat HEAP_SIZE)"
      using un [OF j] j by (simp add: in_range_def pg_def HEAP_SIZE_def HEAP_FRAMES_def FRAME_SIZE_def)
    with neg obtain f where f: "f \<in> set fs" "in_range (pg j) (f + hhdm s) 4096" by blast
    have "aligned 12 (f + hhdm s)"
      using f(1) assms(1) by (auto simp: fa_inv_def intro: frame_virt_aligned free_list_frame_ok)
    then have "pg j = f + hhdm s"
      using aligned_diff [of 12 "f + hhdm s" "pg j"] al [OF j] f(2)
      by (cases "pg j = f + hhdm s") (auto simp: in_range_def)
    with f(1) show ?thesis by blast
  qed
  then have "pg ` {..<256} \<subseteq> (\<lambda>f. f + hhdm s) ` set fs" by blast
  moreover have "inj_on pg {..<256}"
  proof (rule inj_onI)
    fix i j :: nat assume "i \<in> {..<256}" "j \<in> {..<256}" "pg i = pg j"
    then show "i = j" using un [of i] un [of j] by (simp add: pg_def)
  qed
  ultimately have "256 \<le> card ((\<lambda>f. f + hhdm s) ` set fs)"
    by (metis card_image card_lessThan card_mono finite_imageI finite_set)
  also have "\<dots> \<le> length fs"
    by (meson card_image_le card_length finite_set le_trans)
  finally show False using assms(2) by simp
qed

text \<open>A boot loader with one usable entry of 1 MiB, for the witnesses.\<close>

definition big_boot :: heapstate where
  "big_boot =
     \<lparr>ram = (\<lambda>_. 0), hhdm_offset = Some 0xFFFF800000000000,
      memory_map = Some [\<lparr>entry_base = 0x100000, entry_length = 0x100000, entry_type = USABLE\<rparr>],
      fa_head = None, fa_initialized = False, heap_region = None\<rparr>"

lemma distinct_region_frames:
  assumes "unat base + 4096 * ((unat limit - unat base) div 4096) < 2 ^ 64"
  shows "distinct (region_frames base limit)"
proof -
  let ?n = "(unat limit - unat base) div 4096"
  have "inj_on (\<lambda>k. base + of_nat (4096 * k)) {0..<?n}"
  proof (rule inj_onI)
    fix i j assume ij: "i \<in> {0..<?n}" "j \<in> {0..<?n}"
      and eq: "base + of_nat (4096 * i) = base + of_nat (4096 * j)"
    have "unat (of_nat (4096 * k) :: u64) = 4096 * k" if "k < ?n" for k
      using that assms by (subst unat_of_nat) simp
    with ij eq show "i = j" by (metis add_left_cancel atLeastLessThan_iff mult_cancel1 zero_neq_numeral)
  qed
  then show ?thesis by (simp add: region_frames_def distinct_map)
qed

lemma big_boot_frames: "boot_frames big_boot = region_frames 0x100000 0x200000"
  by (simp add: boot_frames_def big_boot_def usable_frames_def entry_frames_def)

lemma big_boot_ok: "boot_ok big_boot"
proof -
  have "distinct (region_frames 0x100000 0x200000)"
    by (rule distinct_region_frames) simp
  moreover have "frame_ok big_boot f" if "f \<in> set (region_frames 0x100000 0x200000)" for f
  proof -
    have "aligned 12 f" "unat f + 4096 \<le> 0x200000"
      using that by (simp_all add: region_frames_iff aligned_def mask_eq_exp_minus_1)
    then show ?thesis
      by (simp add: frame_ok_def hhdm_ok_def hhdm_def big_boot_def) (simp add: aligned_def mask_eq_exp_minus_1)
  qed
  ultimately have "distinct (boot_frames big_boot)" "list_all (frame_ok big_boot) (boot_frames big_boot)"
    by (simp_all add: big_boot_frames list_all_iff)
  then show ?thesis
    by (simp add: boot_ok_def boot_frames_def)
      (simp add: big_boot_def entry_bounded_def hhdm_ok_def aligned_def mask_eq_exp_minus_1)
qed

section \<open>Properties\<close>

text \<open>
  When the first 256 free frames are contiguous in descending order, the heap
  initialisation succeeds and the block it hands to the heap is exactly those frames: an address
  lies in the block if and only if it lies in the HHDM image of one of them, and the pool keeps the
  other frames.
\<close>

theorem init_heap_contiguous:
  assumes "fa_inv s (descending hi 256 @ rest)"
  shows "\<exists>s' start. init_heap s = Some (True, s') \<and> fa_inv s' rest
           \<and> heap_region s' = Some (start, HEAP_SIZE)
           \<and> (\<forall>x. in_range x start (unat HEAP_SIZE)
                \<longleftrightarrow> (\<exists>f. f \<in> set (descending hi 256) \<and> in_range x (f + hhdm s) 4096))"
  using assms by (rule init_heap_contiguous_aux)

lemma big_boot_descending:
  "\<exists>s0. fa_init big_boot = Some s0 \<and> fa_inv s0 (descending 0x1FF000 256 @ [])"
proof -
  have "rev (boot_frames big_boot) = descending 0x1FF000 256"
    using rev_region_frames [of "0x100000" "0x200000"] by (simp add: big_boot_frames FRAME_SIZE_def)
  then show ?thesis using fa_init_list [OF big_boot_ok] by auto
qed

theorem init_heap_contiguous_witness:
  "\<exists>s0 s' start. fa_init big_boot = Some s0 \<and> init_heap s0 = Some (True, s')
     \<and> heap_region s' = Some (start, HEAP_SIZE)"
proof -
  obtain s0 where "fa_init big_boot = Some s0" "fa_inv s0 (descending 0x1FF000 256 @ [])"
    using big_boot_descending by blast
  with init_heap_contiguous [of s0 "0x1FF000" "[]"] show ?thesis by blast
qed

text \<open>
  Property C27. With a free list of at least one and fewer than 256 frames the initialisation still
  reports success, and the block it hands to the heap contains addresses outside every frame the
  allocator had: the checks for missing and for non-contiguous frames only skip a round of the loop.
\<close>

theorem init_heap_overcommits:
  assumes "fa_inv s fs" and "fs \<noteq> []" and "length fs < 256"
  shows "\<exists>s' start x. init_heap s = Some (True, s') \<and> heap_region s' = Some (start, HEAP_SIZE)
           \<and> in_range x start (unat HEAP_SIZE)
           \<and> \<not> (\<exists>f. f \<in> set fs \<and> in_range x (f + hhdm s) 4096)"
proof -
  obtain s' low where s': "init_heap s = Some (True, s')" "low \<in> set (take HEAP_FRAMES fs)"
      "heap_region s' = Some (low + hhdm s, HEAP_SIZE)"
    using init_heap_eq [OF assms(1)] assms(2) by auto
  then have "frame_ok s low"
    using assms(1) by (auto simp: fa_inv_def intro: free_list_frame_ok dest: in_set_takeD)
  with block_not_covered [OF assms(1,3)] s' show ?thesis by blast
qed

definition heap_example :: heapstate where
  "heap_example = memstate.extend pool_example \<lparr>heap_region = None\<rparr>"

lemma heap_example_inv: "fa_inv heap_example [0x2000]"
  using pool_example_inv
  by (simp add: heap_example_def pool_example_def boot_example_def memstate.defs fa_inv_def free_list_def
      frame_ok_def hhdm_ok_def hhdm_def)

theorem init_heap_overcommits_witness:
  "\<exists>s' start x. init_heap heap_example = Some (True, s') \<and> heap_region s' = Some (start, HEAP_SIZE)
     \<and> in_range x start (unat HEAP_SIZE) \<and> \<not> in_range x (0x2000 + hhdm heap_example) 4096"
  using init_heap_overcommits [OF heap_example_inv] by simp

text \<open>
  Property C26. At boot, when the last entry of the memory map with usable frames has at least 256 of
  them, \<open>memory::init\<close> returns with a heap of \<open>HEAP_SIZE\<close> bytes, and every address of the heap is the
  HHDM image of a physical address inside that entry.
\<close>

theorem memory_init_at_boot:
  assumes boot: "boot_ok s" and map: "memory_map s = Some (es @ e # es')"
    and enough: "256 \<le> length (entry_frames e)" and rest: "usable_frames es' = []"
  shows "\<exists>s' start. memory_init s = Some s' \<and> heap_region s' = Some (start, HEAP_SIZE)
           \<and> (\<forall>x. in_range x start (unat HEAP_SIZE) \<longrightarrow>
                 (\<exists>p. x = p + hhdm s \<and> in_range p (entry_base e) (unat (entry_length e))))"
proof -
  let ?base = "(entry_base e + 4095) AND NOT 4095" and ?limit = "entry_base e + entry_length e"
  let ?n = "(unat ?limit - unat ?base) div 4096"
  let ?hi = "?base + of_nat (?n - 1) * FRAME_SIZE"
  have e: "entry_type e = USABLE" "entry_frames e = region_frames ?base ?limit"
    using enough by (auto simp: entry_frames_def split: if_splits)
  then have n: "256 \<le> ?n"
    using enough by (simp add: region_frames_def)
  have "boot_frames s = usable_frames es @ entry_frames e"
    using map rest by (simp add: boot_frames_def usable_frames_def)
  moreover have rev_e: "rev (entry_frames e) = descending ?hi 256 @ descending (?hi - 256 * FRAME_SIZE) (?n - 256)"
    using descending_append [of ?hi 256 "?n - 256"] n by (simp add: e(2) rev_region_frames)
  ultimately have fs: "rev (boot_frames s) = descending ?hi 256
      @ (descending (?hi - 256 * FRAME_SIZE) (?n - 256) @ rev (usable_frames es))" (is "_ = _ @ ?rest")
    by simp
  have sub: "set (descending ?hi 256) \<subseteq> set (entry_frames e)"
    unfolding set_rev [of "entry_frames e", symmetric] rev_e set_append by (rule Un_upper1)
  obtain s0 where s0: "fa_init s = Some s0" "fa_inv s0 (descending ?hi 256 @ ?rest)"
      "hhdm_offset s0 = hhdm_offset s"
    using fa_init_list [OF boot] fs by auto
  have hh: "hhdm s0 = hhdm s"
    using s0(3) by (simp add: hhdm_def)
  obtain s' start where s': "init_heap s0 = Some (True, s')" "heap_region s' = Some (start, HEAP_SIZE)"
      and cover: "\<forall>x. in_range x start (unat HEAP_SIZE)
                \<longleftrightarrow> (\<exists>f. f \<in> set (descending ?hi 256) \<and> in_range x (f + hhdm s) 4096)"
    using init_heap_contiguous_aux [OF s0(2)] unfolding hh by blast
  have "memory_init s = Some s'"
    using init_heap_uninitialized [OF _ s0(1)] boot s'(1) by (simp add: memory_init_def boot_ok_def)
  moreover have "\<exists>p. x = p + hhdm s \<and> in_range p (entry_base e) (unat (entry_length e))"
    if x: "in_range x start (unat HEAP_SIZE)" for x
  proof -
    obtain f where f: "f \<in> set (entry_frames e)" "in_range x (f + hhdm s) 4096"
      using cover x sub by blast
    have bnd: "entry_bounded e"
      using boot map by (simp add: boot_ok_def)
    have "in_range (x - hhdm s) (entry_base e) (unat (entry_length e))"
      by (rule in_range_within [OF _ bnd]) (use f in \<open>simp_all add: in_range_def algebra_simps\<close>)
    then show ?thesis by (intro exI [of _ "x - hhdm s"]) simp
  qed
  ultimately show ?thesis
    using s'(2) by blast
qed

theorem memory_init_at_boot_witness:
  "\<exists>s' start. memory_init big_boot = Some s' \<and> heap_region s' = Some (start, HEAP_SIZE)"
proof -
  have "memory_map big_boot = Some ([] @ \<lparr>entry_base = 0x100000, entry_length = 0x100000,
      entry_type = USABLE\<rparr> # [])"
    by (simp add: big_boot_def)
  from memory_init_at_boot [OF big_boot_ok this] show ?thesis
    by (simp add: entry_frames_def region_frames_def usable_frames_def)
      blast
qed

end
