(* ===== verification/Paging.thy ===== *)
theory Paging
  imports Heap_Allocator
begin

text \<open>
  \<^verbatim>\<open>kernel/src/memory/paging.rs\<close>: four-level page tables kept in physical frames and edited
  through the HHDM. The state is the memory of the kernel with the register \<open>cr3\<close> and the log of the
  pages flushed with \<open>invlpg\<close>. A table is named by its physical frame; \<open>tables\<close> below gives each
  index path (\<open>[]\<close> for the PML4) the frame of its table, and \<open>leaf\<close> is the abstract mapping from
  virtual addresses to page-table entries.
\<close>

record pgstate = heapstate +
  cr3 :: u64
  invlpgs :: "u64 list"

datatype PagingError = HugePageInPath | AlreadyMapped | NotMapped | OutOfFrames | HhdmUnavailable

definition PAGE_SIZE :: u64 where "PAGE_SIZE = 4096"
definition ADDR_MASK :: u64 where "ADDR_MASK = 0x000FFFFFFFFFF000"

definition PRESENT :: u64 where "PRESENT = push_bit 0 1"
definition WRITABLE :: u64 where "WRITABLE = push_bit 1 1"
definition NO_CACHE :: u64 where "NO_CACHE = push_bit 4 1"
definition HUGE_PAGE :: u64 where "HUGE_PAGE = push_bit 7 1"

definition table_indices :: "u64 \<Rightarrow> u64 \<times> u64 \<times> u64 \<times> u64" where
  "table_indices virt =
     (drop_bit 39 virt AND 0x1FF, drop_bit 30 virt AND 0x1FF,
      drop_bit 21 virt AND 0x1FF, drop_bit 12 virt AND 0x1FF)"

definition hhdm_or_unavailable :: "u64 \<Rightarrow> 'z pgstate_scheme \<Rightarrow> ((PagingError + u64) \<times> 'z pgstate_scheme) option" where
  "hhdm_or_unavailable phys s = do {
     v \<leftarrow> physical_to_virtual s phys;
     Some (case v of Some virt \<Rightarrow> Inr virt | None \<Rightarrow> Inl HhdmUnavailable, s)
   }"

definition pml4_virt :: "'z pgstate_scheme \<Rightarrow> ((PagingError + u64) \<times> 'z pgstate_scheme) option" where
  "pml4_virt s = hhdm_or_unavailable (cr3 s AND ADDR_MASK) s"

definition entry_at :: "u64 \<Rightarrow> u64 \<Rightarrow> u64" where
  "entry_at table idx = table + 8 * idx"

definition next_table_or_create :: "u64 \<Rightarrow> 'z pgstate_scheme \<Rightarrow> ((PagingError + u64) \<times> 'z pgstate_scheme) option" where
  "next_table_or_create entry s =
     (if rd64 (ram s) entry AND HUGE_PAGE \<noteq> 0 then Some (Inl HugePageInPath, s)
      else
        try_bind
          (if rd64 (ram s) entry AND PRESENT = 0 then do {
             (f, s) \<leftarrow> allocate s;
             Some (case f of
                 None \<Rightarrow> (Inl OutOfFrames, s)
               | Some frame \<Rightarrow> (Inr (), s\<lparr>ram := wr64 (ram s) entry (frame OR PRESENT OR WRITABLE)\<rparr>))
           } else Some (Inr (), s))
          (\<lambda>_ s. hhdm_or_unavailable (rd64 (ram s) entry AND ADDR_MASK) s))"

definition next_table_existing :: "u64 \<Rightarrow> 'z pgstate_scheme \<Rightarrow> ((PagingError + u64) \<times> 'z pgstate_scheme) option" where
  "next_table_existing entry s =
     (if entry AND PRESENT = 0 then Some (Inl NotMapped, s)
      else if entry AND HUGE_PAGE \<noteq> 0 then Some (Inl HugePageInPath, s)
      else hhdm_or_unavailable (entry AND ADDR_MASK) s)"

definition map_page :: "u64 \<Rightarrow> u64 \<Rightarrow> u64 \<Rightarrow> 'z pgstate_scheme \<Rightarrow> ((PagingError + unit) \<times> 'z pgstate_scheme) option" where
  "map_page virt_addr phys_addr extra_flags s =
     (let virt = virt_addr AND NOT (PAGE_SIZE - 1); phys = phys_addr AND NOT (PAGE_SIZE - 1);
          (pml4_idx, pdpt_idx, pd_idx, pt_idx) = table_indices virt in
      try_bind (pml4_virt s) (\<lambda>pml4 s.
      try_bind (next_table_or_create (entry_at pml4 pml4_idx) s) (\<lambda>pdpt s.
      try_bind (next_table_or_create (entry_at pdpt pdpt_idx) s) (\<lambda>pd s.
      try_bind (next_table_or_create (entry_at pd pd_idx) s) (\<lambda>pt s.
        if rd64 (ram s) (entry_at pt pt_idx) AND PRESENT \<noteq> 0 then Some (Inl AlreadyMapped, s)
        else
          let s = s\<lparr>ram := wr64 (ram s) (entry_at pt pt_idx) (phys OR PRESENT OR extra_flags)\<rparr>
          in Some (Inr (), s\<lparr>invlpgs := invlpgs s @ [virt]\<rparr>))))))"

definition div_ceil :: "u64 \<Rightarrow> u64 \<Rightarrow> u64" where
  "div_ceil a b = (if a mod b = 0 then a div b else a div b + 1)"

fun map_pages :: "nat \<Rightarrow> nat \<Rightarrow> u64 \<Rightarrow> u64 \<Rightarrow> u64 \<Rightarrow> 'z pgstate_scheme \<Rightarrow> ((PagingError + unit) \<times> 'z pgstate_scheme) option" where
  "map_pages i 0 virt_start phys_start extra_flags s = Some (Inr (), s)"
| "map_pages i (Suc n) virt_start phys_start extra_flags s = do {
     offset \<leftarrow> checked_mul (of_nat i) PAGE_SIZE;
     virt \<leftarrow> checked_add virt_start offset;
     phys \<leftarrow> checked_add phys_start offset;
     try_bind (map_page virt phys extra_flags s)
       (\<lambda>_ s. map_pages (Suc i) n virt_start phys_start extra_flags s)
   }"

definition map_range :: "u64 \<Rightarrow> u64 \<Rightarrow> u64 \<Rightarrow> u64 \<Rightarrow> 'z pgstate_scheme \<Rightarrow> ((PagingError + unit) \<times> 'z pgstate_scheme) option" where
  "map_range virt_start phys_start len extra_flags s =
     map_pages 0 (unat (div_ceil len PAGE_SIZE)) virt_start phys_start extra_flags s"

text \<open>The walk \<open>unmap_page\<close> and \<open>translate\<close> have in common, up to the address of the last entry.\<close>

definition walk_existing :: "u64 \<Rightarrow> 'z pgstate_scheme \<Rightarrow> ((PagingError + u64) \<times> 'z pgstate_scheme) option" where
  "walk_existing virt s =
     (let (pml4_idx, pdpt_idx, pd_idx, pt_idx) = table_indices virt in
      try_bind (pml4_virt s) (\<lambda>pml4 s.
      try_bind (next_table_existing (rd64 (ram s) (entry_at pml4 pml4_idx)) s) (\<lambda>pdpt s.
      try_bind (next_table_existing (rd64 (ram s) (entry_at pdpt pdpt_idx)) s) (\<lambda>pd s.
      try_bind (next_table_existing (rd64 (ram s) (entry_at pd pd_idx)) s) (\<lambda>pt s.
        Some (Inr (entry_at pt pt_idx), s))))))"

definition unmap_page :: "u64 \<Rightarrow> 'z pgstate_scheme \<Rightarrow> ((PagingError + u64) \<times> 'z pgstate_scheme) option" where
  "unmap_page virt_addr s =
     (let virt = virt_addr AND NOT (PAGE_SIZE - 1) in
      try_bind (walk_existing virt s) (\<lambda>pte s.
        if rd64 (ram s) pte AND PRESENT = 0 then Some (Inl NotMapped, s)
        else
          let phys = rd64 (ram s) pte AND ADDR_MASK;
              s = s\<lparr>ram := wr64 (ram s) pte 0\<rparr>
          in Some (Inr phys, s\<lparr>invlpgs := invlpgs s @ [virt]\<rparr>)))"

definition translate :: "u64 \<Rightarrow> 'z pgstate_scheme \<Rightarrow> ((PagingError + u64) \<times> 'z pgstate_scheme) option" where
  "translate virt_addr s =
     (let virt = virt_addr AND NOT (PAGE_SIZE - 1); offset = virt_addr AND (PAGE_SIZE - 1) in
      try_bind (walk_existing virt s) (\<lambda>pte s.
        if rd64 (ram s) pte AND PRESENT = 0 then Some (Inl NotMapped, s)
        else do {
          r \<leftarrow> checked_add (rd64 (ram s) pte AND ADDR_MASK) offset;
          Some (Inr r, s)
        }))"

definition map_mmio_page :: "u64 \<Rightarrow> 'z pgstate_scheme \<Rightarrow> (u64 \<times> 'z pgstate_scheme) option" where
  "map_mmio_page phys_addr s = do {
     let phys_aligned = phys_addr AND NOT (PAGE_SIZE - 1);
     v \<leftarrow> physical_to_virtual s phys_aligned;
     virt \<leftarrow> v;
     (r, s) \<leftarrow> map_page virt phys_aligned (WRITABLE OR NO_CACHE) s;
     case r of
       Inr _ \<Rightarrow> Some (virt, s)
     | Inl AlreadyMapped \<Rightarrow> Some (virt, s)
     | Inl _ \<Rightarrow> None
   }"

definition map_mmio_range :: "u64 \<Rightarrow> u64 \<Rightarrow> 'z pgstate_scheme \<Rightarrow> (u64 \<times> 'z pgstate_scheme) option" where
  "map_mmio_range phys_addr len s = do {
     let phys_aligned = phys_addr AND NOT (PAGE_SIZE - 1);
     v \<leftarrow> physical_to_virtual s phys_aligned;
     virt \<leftarrow> v;
     (r, s) \<leftarrow> map_range virt phys_aligned len (WRITABLE OR NO_CACHE) s;
     case r of
       Inr _ \<Rightarrow> Some (virt, s)
     | Inl AlreadyMapped \<Rightarrow> Some (virt, s)
     | Inl _ \<Rightarrow> None
   }"

section \<open>Tables and the abstract mapping\<close>

definition ent :: "'z pgstate_scheme \<Rightarrow> u64 \<Rightarrow> u64 \<Rightarrow> u64" where
  "ent s t i = rd64 (ram s) (entry_at (t + hhdm s) i)"

fun lookup :: "(u64 \<Rightarrow> u64 \<Rightarrow> u64) \<Rightarrow> u64 \<Rightarrow> u64 list \<Rightarrow> PagingError + u64" where
  "lookup e t [] = Inl NotMapped"
| "lookup e t [i] = (if e t i AND PRESENT = 0 then Inl NotMapped else Inr (e t i))"
| "lookup e t (i # j # is) =
     (if e t i AND PRESENT = 0 then Inl NotMapped
      else if e t i AND HUGE_PAGE \<noteq> 0 then Inl HugePageInPath
      else lookup e (e t i AND ADDR_MASK) (j # is))"

definition path :: "u64 \<Rightarrow> u64 list" where
  "path v = (let (a, b, c, d) = table_indices v in [a, b, c, d])"

definition leaf :: "'z pgstate_scheme \<Rightarrow> u64 \<Rightarrow> PagingError + u64" where
  "leaf s v = lookup (ent s) (cr3 s AND ADDR_MASK) (path v)"

definition same_page :: "u64 \<Rightarrow> u64 \<Rightarrow> bool" where
  "same_page v w \<longleftrightarrow> take_bit 36 (drop_bit 12 v) = take_bit 36 (drop_bit 12 w)"

text \<open>
  \<open>T\<close> gives each index path that leads to a table the frame of that table: the tables form a tree,
  no table is free, and an entry of an inner table either is not present (and then not marked huge),
  or is a huge page, or points to the table of the longer path.
\<close>

definition table_frame :: "'z pgstate_scheme \<Rightarrow> u64 \<Rightarrow> bool" where
  "table_frame s t \<longleftrightarrow> frame_ok s t \<and> t AND ADDR_MASK = t"

definition tables :: "'z pgstate_scheme \<Rightarrow> (u64 list \<rightharpoonup> u64) \<Rightarrow> bool" where
  "tables s T \<longleftrightarrow> T [] = Some (cr3 s AND ADDR_MASK)
     \<and> (\<forall>p t. T p = Some t \<longrightarrow> table_frame s t \<and> length p \<le> 3)
     \<and> (\<forall>p q t. T p = Some t \<longrightarrow> T q = Some t \<longrightarrow> p = q)
     \<and> (\<forall>p t i. T p = Some t \<longrightarrow> length p < 3 \<longrightarrow> i < 512 \<longrightarrow>
          (if ent s t i AND PRESENT = 0 then ent s t i AND HUGE_PAGE = 0 \<and> T (p @ [i]) = None
           else if ent s t i AND HUGE_PAGE \<noteq> 0 then T (p @ [i]) = None
           else T (p @ [i]) = Some (ent s t i AND ADDR_MASK)))
     \<and> (\<forall>p i t. T (p @ [i]) = Some t \<longrightarrow> T p \<noteq> None)"

definition pt_inv :: "'z pgstate_scheme \<Rightarrow> (u64 list \<rightharpoonup> u64) \<Rightarrow> u64 list \<Rightarrow> bool" where
  "pt_inv s T fs \<longleftrightarrow> fa_inv s fs \<and> list_all (table_frame s) fs \<and> tables s T \<and> ran T \<inter> set fs = {}"

lemma PAGE_mask: "PAGE_SIZE - 1 = mask 12"
  by (simp add: PAGE_SIZE_def mask_eq_exp_minus_1)

lemma index_lt: "(x AND 0x1FF :: u64) < 512"
proof -
  have "unat (x AND mask 9) = unat x mod 512"
    using unat_and_mask [of x 9] by simp
  then have "unat (x AND 0x1FF) < 512"
    by (simp add: mask_eq_exp_minus_1)
  then show ?thesis by (simp add: word_less_nat_alt)
qed

lemma path_indices: "i \<in> set (path v) \<Longrightarrow> i < 512"
  by (auto simp: path_def table_indices_def index_lt)

lemma length_path [simp]: "length (path v) = 4"
  by (simp add: path_def table_indices_def)

lemma path_eq_iff: "path v = path w \<longleftrightarrow> same_page v w"
proof -
  have m: "(0x1FF :: u64) = mask 9" by (simp add: mask_eq_exp_minus_1)
  have ix: "drop_bit k v AND mask 9 = drop_bit k w AND mask 9 \<longleftrightarrow> (\<forall>n. k \<le> n \<and> n < k + 9 \<longrightarrow> bit v n = bit w n)"
    if "k + 9 \<le> 64" for k
  proof
    assume eq: "drop_bit k v AND mask 9 = drop_bit k w AND mask 9"
    show "\<forall>n. k \<le> n \<and> n < k + 9 \<longrightarrow> bit v n = bit w n"
    proof (intro allI impI)
      fix n assume n: "k \<le> n \<and> n < k + 9"
      have "bit (drop_bit k v AND mask 9) (n - k) = bit (drop_bit k w AND mask 9) (n - k)"
        using eq by simp
      moreover have "n - k < 9" using n by linarith
      ultimately show "bit v n = bit w n" using n by (simp add: bit_simps)
    qed
  next
    assume *: "\<forall>n. k \<le> n \<and> n < k + 9 \<longrightarrow> bit v n = bit w n"
    show "drop_bit k v AND mask 9 = drop_bit k w AND mask 9"
      by (rule bit_word_eqI) (use * in \<open>auto simp: bit_simps\<close>)
  qed
  have sp: "same_page v w \<longleftrightarrow> (\<forall>n. 12 \<le> n \<and> n < 48 \<longrightarrow> bit v n = bit w n)"
  proof
    assume eq: "same_page v w"
    show "\<forall>n. 12 \<le> n \<and> n < 48 \<longrightarrow> bit v n = bit w n"
    proof (intro allI impI)
      fix n :: nat assume n: "12 \<le> n \<and> n < 48"
      have "bit (take_bit 36 (drop_bit 12 v)) (n - 12) = bit (take_bit 36 (drop_bit 12 w)) (n - 12)"
        using eq by (simp add: same_page_def)
      moreover have "n - 12 < 36" using n by linarith
      ultimately show "bit v n = bit w n" using n by (simp add: bit_simps)
    qed
  next
    assume *: "\<forall>n. 12 \<le> n \<and> n < 48 \<longrightarrow> bit v n = bit w n"
    show "same_page v w"
      unfolding same_page_def by (rule bit_word_eqI) (use * in \<open>auto simp: bit_simps\<close>)
  qed
  have "path v = path w \<longleftrightarrow> (\<forall>n. 39 \<le> n \<and> n < 48 \<longrightarrow> bit v n = bit w n)
      \<and> (\<forall>n. 30 \<le> n \<and> n < 39 \<longrightarrow> bit v n = bit w n) \<and> (\<forall>n. 21 \<le> n \<and> n < 30 \<longrightarrow> bit v n = bit w n)
      \<and> (\<forall>n. 12 \<le> n \<and> n < 21 \<longrightarrow> bit v n = bit w n)"
    unfolding path_def table_indices_def m Let_def prod.case list.inject by (simp only: ix) simp
  also have "\<dots> \<longleftrightarrow> (\<forall>n. 12 \<le> n \<and> n < 48 \<longrightarrow> bit v n = bit w n)"
    (is "?parts \<longleftrightarrow> ?all")
  proof (rule iffI)
    assume *: ?parts
    show ?all
    proof (intro allI impI)
      fix n :: nat assume "12 \<le> n \<and> n < 48"
      then have "n < 21 \<and> 12 \<le> n \<or> 21 \<le> n \<and> n < 30 \<or> 30 \<le> n \<and> n < 39 \<or> 39 \<le> n \<and> n < 48" by linarith
      with * show "bit v n = bit w n" by blast
    qed
  qed auto
  finally show ?thesis by (simp add: sp)
qed

lemma same_page_page [simp]: "same_page (v AND NOT (mask 12)) w = same_page v w"
proof -
  have "drop_bit 12 (v AND NOT (mask 12)) = drop_bit 12 v"
    by (rule bit_word_eqI) (auto simp: bit_simps dest: bit_imp_le_length)
  then show ?thesis by (simp add: same_page_def)
qed

lemma path_page [simp]: "path (v AND NOT (mask 12)) = path v"
  by (simp add: path_eq_iff same_page_def [of v v])

lemma entry_at_offset:
  assumes "i < 512"
  shows "unat (entry_at t i - t) = 8 * unat i"
proof -
  have "unat i < 512" using assms by (simp add: word_less_nat_alt)
  then show ?thesis by (simp add: entry_at_def unat_word_ariths)
qed

lemma entries_disj:
  assumes "frame_ok s t" "frame_ok s u" "i < 512" "j < 512" "(t, i) \<noteq> (u, j)"
  shows "disj (entry_at (t + hhdm s) i) 8 (entry_at (u + hhdm s) j) 8"
proof -
  have ij: "unat i < 512" "unat j < 512" using assms(3,4) by (simp_all add: word_less_nat_alt)
  show ?thesis
  proof (cases "t = u")
    case True
    with assms(5) have "i \<noteq> j" by simp
    then have "unat i \<noteq> unat j" by (simp add: word_unat_eq_iff)
    have "aligned 3 (entry_at (t + hhdm s) k)" for k
    proof -
      have "aligned 12 (t + hhdm s)" using assms(1) by (rule frame_virt_aligned)
      then have "8 dvd unat (t + hhdm s)"
        unfolding aligned_iff_dvd by (rule dvd_trans [rotated]) simp
      then show ?thesis
        by (simp add: aligned_iff_dvd entry_at_def unat_word_ariths dvd_mod)
    qed
    moreover have "entry_at (t + hhdm s) i \<noteq> entry_at (t + hhdm s) j"
      using entry_at_offset [OF assms(3), of "t + hhdm s"] entry_at_offset [OF assms(4), of "t + hhdm s"]
        \<open>unat i \<noteq> unat j\<close> by (metis mult_cancel1 zero_neq_numeral)
    ultimately show ?thesis
      using aligned_diff [of 3 "entry_at (t + hhdm s) i" "entry_at (t + hhdm s) j"]
        aligned_diff [of 3 "entry_at (t + hhdm s) j" "entry_at (t + hhdm s) i"]
      by (simp add: disj_def True)
  next
    case False
    show ?thesis
      by (rule disj_subrange [OF frames_disj [OF assms(1,2) False]])
        (use ij in \<open>simp_all add: entry_at_offset assms(3,4)\<close>)
  qed
qed

lemma ent_upd:
  assumes "frame_ok s t" "frame_ok s u" "i < 512" "j < 512"
  shows "ent (s\<lparr>ram := wr64 (ram s) (entry_at (t + hhdm s) i) v\<rparr>) u j = (if (u, j) = (t, i) then v else ent s u j)"
proof (cases "(u, j) = (t, i)")
  case True
  then show ?thesis by (simp add: ent_def rd64_wr64_same)
next
  case False
  then have "disj (entry_at (t + hhdm s) i) 8 (entry_at (u + hhdm s) j) 8"
    using assms by (intro entries_disj) auto
  with False show ?thesis by (auto simp add: ent_def c64.rd_wr_sep)
qed

lemma ent_fill:
  assumes "frame_ok s f" "frame_ok s u" "j < 512"
  shows "ent (s\<lparr>ram := mem_fill (ram s) (f + hhdm s) 0 4096\<rparr>) u j = (if u = f then 0 else ent s u j)"
proof -
  have j: "unat j < 512" using assms(3) by (simp add: word_less_nat_alt)
  show ?thesis
  proof (cases "u = f")
    case True
    have "rd64 (mem_fill (ram s) (f + hhdm s) 0 4096) (entry_at (f + hhdm s) j) = 0"
      by (rule rd64_fill_zero) (use j in \<open>simp_all add: entry_at_offset assms(3)\<close>)
    with True show ?thesis by (simp add: ent_def)
  next
    case False
    have "disj (f + hhdm s) 4096 (entry_at (u + hhdm s) j) 8"
      by (rule disj_subrange [OF frames_disj [OF assms(1,2)]])
        (use j False in \<open>simp_all add: entry_at_offset assms(3)\<close>)
    with False show ?thesis by (simp add: ent_def rd64_fill_disj)
  qed
qed

lemma free_list_write_entry:
  assumes "fa_inv s fs" "frame_ok s t" "t \<notin> set fs" "i < 512"
  shows "fa_inv (s\<lparr>ram := wr64 (ram s) (entry_at (t + hhdm s) i) v\<rparr>) fs"
proof -
  have "chain (wr64 (ram s) (entry_at (t + hhdm s) i) v) (hhdm s) (fa_head s) fs
      = chain (ram s) (hhdm s) (fa_head s) fs"
  proof (rule chain_cong)
    fix f assume f: "f \<in> set fs"
    then have "frame_ok s f" "f \<noteq> t"
      using assms by (auto simp: fa_inv_def intro: free_list_frame_ok)
    then have "disj (entry_at (t + hhdm s) i) 8 (entry_at (f + hhdm s) 0) 8"
      using assms by (intro entries_disj) auto
    then show "rd64 (wr64 (ram s) (entry_at (t + hhdm s) i) v) (f + hhdm s) = rd64 (ram s) (f + hhdm s)"
      by (simp add: entry_at_def c64.rd_wr_sep)
  qed
  with assms(1) show ?thesis by (simp add: fa_inv_def free_list_def)
qed

lemma invlpg_upd [simp]:
  "hhdm (s\<lparr>invlpgs := l\<rparr>) = hhdm s" "hhdm_ok (s\<lparr>invlpgs := l\<rparr>) = hhdm_ok s"
  "frame_ok (s\<lparr>invlpgs := l\<rparr>) = frame_ok s" "ent (s\<lparr>invlpgs := l\<rparr>) = ent s"
  by (simp_all add: hhdm_def hhdm_ok_def frame_ok_def ent_def fun_eq_iff)

lemma pg_upd [simp]:
  "table_frame (s\<lparr>ram := m\<rparr>) = table_frame s" "table_frame (s\<lparr>fa_head := h\<rparr>) = table_frame s"
  "table_frame (s\<lparr>invlpgs := l\<rparr>) = table_frame s"
  "ent (s\<lparr>fa_head := h\<rparr>) = ent s" "fa_inv (s\<lparr>invlpgs := l\<rparr>) = fa_inv s"
  "leaf (s\<lparr>invlpgs := l\<rparr>) = leaf s"
  by (simp_all add: fun_eq_iff table_frame_def fa_inv_def free_list_def leaf_def)
    (simp add: ent_def)

lemma tables_upd [simp]: "tables (s\<lparr>invlpgs := l\<rparr>) = tables s" "pt_inv (s\<lparr>invlpgs := l\<rparr>) = pt_inv s"
  by (simp_all add: tables_def pt_inv_def fun_eq_iff)

lemma table_entry:
  assumes "f AND ADDR_MASK = f"
  shows "(f OR PRESENT OR WRITABLE) AND PRESENT \<noteq> 0" "(f OR PRESENT OR WRITABLE) AND HUGE_PAGE = 0"
    "(f OR PRESENT OR WRITABLE) AND ADDR_MASK = f"
proof -
  have "f AND m = f AND (ADDR_MASK AND m)" for m
    using assms by (metis and.assoc)
  from this [of PRESENT] this [of HUGE_PAGE] have "f AND PRESENT = 0" "f AND HUGE_PAGE = 0"
    by (simp_all add: ADDR_MASK_def PRESENT_def HUGE_PAGE_def)
  with assms show "(f OR PRESENT OR WRITABLE) AND PRESENT \<noteq> 0" "(f OR PRESENT OR WRITABLE) AND HUGE_PAGE = 0"
    "(f OR PRESENT OR WRITABLE) AND ADDR_MASK = f"
    by (simp_all add: bit.conj_disj_distrib2 ADDR_MASK_def PRESENT_def HUGE_PAGE_def WRITABLE_def)
qed

lemma tables_frame: "tables s T \<Longrightarrow> T p = Some t \<Longrightarrow> table_frame s t \<and> frame_ok s t \<and> length p \<le> 3"
  by (auto simp: tables_def table_frame_def)

lemma tables_inj: "tables s T \<Longrightarrow> T p = Some t \<Longrightarrow> T q = Some t \<Longrightarrow> p = q"
  unfolding tables_def by blast

lemma tables_child:
  assumes "tables s T" "T p = Some t" "length p < 3" "i < 512"
  shows "ent s t i AND PRESENT = 0 \<Longrightarrow> ent s t i AND HUGE_PAGE = 0 \<and> T (p @ [i]) = None"
    and "ent s t i AND PRESENT \<noteq> 0 \<Longrightarrow> ent s t i AND HUGE_PAGE \<noteq> 0 \<Longrightarrow> T (p @ [i]) = None"
    and "ent s t i AND PRESENT \<noteq> 0 \<Longrightarrow> ent s t i AND HUGE_PAGE = 0 \<Longrightarrow> T (p @ [i]) = Some (ent s t i AND ADDR_MASK)"
  using assms unfolding tables_def by (meson, meson, meson)

lemma tables_prefix: "tables s T \<Longrightarrow> T (a @ b) \<noteq> None \<Longrightarrow> T a \<noteq> None"
proof (induction b rule: rev_induct)
  case (snoc x xs)
  then have "T ((a @ xs) @ [x]) \<noteq> None" by simp
  then have "T (a @ xs) \<noteq> None" using snoc.prems(1) unfolding tables_def by blast
  then show ?case by (rule snoc.IH [OF snoc.prems(1)])
qed simp

text \<open>Linking an empty table under an entry that was not present changes no translation.\<close>

lemma lookup_new_table:
  assumes T: "tables s T" and t: "T p = Some t" "length p < 3" "i < 512" "ent s t i AND PRESENT = 0"
    and f: "table_frame s f" "f \<notin> ran T"
    and e': "\<And>u j. frame_ok s u \<Longrightarrow> j < 512 \<Longrightarrow>
      e' u j = (if (u, j) = (t, i) then f OR PRESENT OR WRITABLE else if u = f then 0 else ent s u j)"
    and q: "T q = Some u" "length q + length is = 4" "\<forall>k \<in> set is. k < 512"
  shows "lookup e' u is = lookup (ent s) u is"
  using q
proof (induction "ent s" u "is" arbitrary: q rule: lookup.induct)
  case (1 u)
  then show ?case by simp
next
  case (2 u k)
  then have "length q = 3" "frame_ok s u" "u \<noteq> f"
    using tables_frame [OF T 2(1)] f(2) by (auto intro: ranI)
  moreover have "(u, k) \<noteq> (t, i)"
    using tables_inj [OF T 2(1)] t \<open>length q = 3\<close> by auto
  moreover have "e' u k = (if (u, k) = (t, i) then f OR PRESENT OR WRITABLE else if u = f then 0 else ent s u k)"
    using 2 \<open>frame_ok s u\<close> by (intro e') simp_all
  ultimately have "e' u k = ent s u k" by (simp only: if_False)
  then show ?case by simp
next
  case (3 u k j ks)
  then have u: "frame_ok s u" "u \<noteq> f"
    using tables_frame [OF T] f(2) by (auto intro: ranI)
  have q3: "length q < 3" "k < 512" using 3 by auto
  show ?case
  proof (cases "(u, k) = (t, i)")
    case True
    have "e' u k = f OR PRESENT OR WRITABLE"
      using True u e' q3 by simp
    moreover have "lookup e' f (j # ks) = Inl NotMapped"
    proof -
      have "e' f j = 0"
      proof -
        have "f \<noteq> t" using t f(2) by (auto intro: ranI)
        then show ?thesis using e' [of f j] f(1) 3(4) by (auto simp: table_frame_def)
      qed
      then show ?thesis by (cases ks) simp_all
    qed
    ultimately show ?thesis
      using True t table_entry [of f] f(1) by (simp add: table_frame_def)
  next
    case False
    have "e' u k = (if (u, k) = (t, i) then f OR PRESENT OR WRITABLE else if u = f then 0 else ent s u k)"
      using u q3 by (intro e') simp_all
    then have e: "e' u k = ent s u k" by (simp only: False u if_False)
    show ?thesis
    proof (cases "ent s u k AND PRESENT = 0 \<or> ent s u k AND HUGE_PAGE \<noteq> 0")
      case True
      then show ?thesis by (auto simp: e)
    next
      case False
      then have "T (q @ [k]) = Some (ent s u k AND ADDR_MASK)"
        using tables_child(3) [OF T 3(2) q3] by auto
      then have "lookup e' (ent s u k AND ADDR_MASK) (j # ks) = lookup (ent s) (ent s u k AND ADDR_MASK) (j # ks)"
        using 3 False by (intro 3(1)) auto
      with False show ?thesis by (simp add: e)
    qed
  qed
qed

text \<open>Writing an entry of a last-level table changes the translation of its page only.\<close>

lemma lookup_leaf_update:
  assumes T: "tables s T" and t: "T p = Some t" "length p = 3" "i < 512"
    and e': "\<And>u j. frame_ok s u \<Longrightarrow> j < 512 \<Longrightarrow> e' u j = (if (u, j) = (t, i) then v else ent s u j)"
    and q: "T q = Some u" "length q + length is = 4" "\<forall>k \<in> set is. k < 512"
  shows "lookup e' u is = (if q @ is = p @ [i] then (if v AND PRESENT = 0 then Inl NotMapped else Inr v)
                           else lookup (ent s) u is)"
  using q
proof (induction "ent s" u "is" arbitrary: q rule: lookup.induct)
  case (1 u)
  then show ?case using tables_frame [OF T 1(1)] by simp
next
  case (2 u k)
  then have "length q = 3" "frame_ok s u"
    using tables_frame [OF T 2(1)] by auto
  then have e: "e' u k = (if (u, k) = (t, i) then v else ent s u k)"
    using 2 by (intro e') simp_all
  show ?case
  proof (cases "q @ [k] = p @ [i]")
    case True
    then have "u = t" "k = i" using t 2(1) by simp_all
    with e have "e' u k = v" by (simp only: if_True simp_thms)
    then show ?thesis by (simp only: True lookup.simps if_True refl)
  next
    case False
    then have "(u, k) \<noteq> (t, i)" using tables_inj [OF T 2(1)] t by auto
    with e have "e' u k = ent s u k" by (simp only: if_False)
    then show ?thesis by (simp only: False lookup.simps if_False)
  qed
next
  case (3 u k j ks)
  have u: "frame_ok s u" using tables_frame [OF T 3(2)] by simp
  have q3: "length q < 3" "k < 512" using 3 by auto
  then have "(u, k) \<noteq> (t, i)"
    using tables_inj [OF T 3(2)] t by auto
  moreover have "e' u k = (if (u, k) = (t, i) then v else ent s u k)"
    using u q3(2) by (rule e')
  ultimately have e: "e' u k = ent s u k" by (simp only: if_False)
  show ?case
  proof (cases "ent s u k AND PRESENT = 0 \<or> ent s u k AND HUGE_PAGE \<noteq> 0")
    case True
    then have "T (q @ [k]) = None"
      using tables_child(1,2) [OF T 3(2) q3] by auto
    moreover have "T (q @ [k]) \<noteq> None" if eq: "q @ k # j # ks = p @ [i]"
    proof -
      have "p = (q @ [k]) @ butlast (j # ks)"
        using arg_cong [OF eq, of butlast] by (simp add: butlast_append)
      then have "T ((q @ [k]) @ butlast (j # ks)) \<noteq> None" using t(1) by simp
      then show ?thesis by (rule tables_prefix [OF T])
    qed
    ultimately show ?thesis using True by (auto simp: e)
  next
    case False
    then have "T (q @ [k]) = Some (ent s u k AND ADDR_MASK)"
      using tables_child(3) [OF T 3(2) q3] by auto
    then have "lookup e' (ent s u k AND ADDR_MASK) (j # ks)
        = (if (q @ [k]) @ (j # ks) = p @ [i] then (if v AND PRESENT = 0 then Inl NotMapped else Inr v)
           else lookup (ent s) (ent s u k AND ADDR_MASK) (j # ks))"
      using 3 False by (intro 3(1)) auto
    with False show ?thesis by (simp add: e)
  qed
qed

section \<open>One level of the walk\<close>

lemma pt_invD:
  assumes "pt_inv s T fs"
  shows "fa_inv s fs" "tables s T" "T [] = Some (cr3 s AND ADDR_MASK)" "list_all (table_frame s) fs"
    "\<And>p t. T p = Some t \<Longrightarrow> t \<notin> set fs"
  using assms by (auto simp: pt_inv_def tables_def ran_def)

lemma p2v_table: "table_frame s t \<Longrightarrow> hhdm_or_unavailable (t AND ADDR_MASK) s = Some (Inr (t + hhdm s), s)"
  by (simp add: hhdm_or_unavailable_def table_frame_def p2v_frame)

lemma existing_step:
  assumes "pt_inv s T fs" and t: "T p = Some t" "length p < 3" "i < 512"
  shows "next_table_existing (ent s t i) s =
    (if ent s t i AND PRESENT = 0 then Some (Inl NotMapped, s)
     else if ent s t i AND HUGE_PAGE \<noteq> 0 then Some (Inl HugePageInPath, s)
     else Some (Inr ((ent s t i AND ADDR_MASK) + hhdm s), s))"
proof (cases "ent s t i AND PRESENT = 0 \<or> ent s t i AND HUGE_PAGE \<noteq> 0")
  case True
  then show ?thesis by (auto simp: next_table_existing_def)
next
  case False
  then have "T (p @ [i]) = Some (ent s t i AND ADDR_MASK)"
    using tables_child(3) [OF pt_invD(2) [OF assms(1)] t] by simp
  then have "table_frame s (ent s t i AND ADDR_MASK)"
    using tables_frame pt_invD(2) [OF assms(1)] by blast
  then have "hhdm_or_unavailable (ent s t i AND ADDR_MASK) s = Some (Inr ((ent s t i AND ADDR_MASK) + hhdm s), s)"
    by (simp add: hhdm_or_unavailable_def table_frame_def p2v_frame)
  with False show ?thesis by (auto simp: next_table_existing_def)
qed

definition new_table_state :: "u64 \<Rightarrow> u64 list \<Rightarrow> u64 \<Rightarrow> u64 \<Rightarrow> 'z pgstate_scheme \<Rightarrow> 'z pgstate_scheme" where
  "new_table_state f fs t i s =
     s\<lparr>fa_head := head_of fs,
       ram := wr64 (mem_fill (ram s) (f + hhdm s) 0 4096) (entry_at (t + hhdm s) i) (f OR PRESENT OR WRITABLE)\<rparr>"

lemma new_table_state_ent:
  assumes "frame_ok s f" "frame_ok s t" "i < 512" "frame_ok s u" "j < 512"
  shows "ent (new_table_state f fs t i s) u j =
    (if (u, j) = (t, i) then f OR PRESENT OR WRITABLE else if u = f then 0 else ent s u j)"
proof -
  let ?s1 = "s\<lparr>fa_head := head_of fs, ram := mem_fill (ram s) (f + hhdm s) 0 4096\<rparr>"
  have "ent (?s1\<lparr>ram := wr64 (ram ?s1) (entry_at (t + hhdm ?s1) i) (f OR PRESENT OR WRITABLE)\<rparr>) u j
      = (if (u, j) = (t, i) then f OR PRESENT OR WRITABLE else ent ?s1 u j)"
    by (rule ent_upd) (use assms in simp_all)
  moreover have "ent ?s1 u j = (if u = f then 0 else ent s u j)"
    using ent_fill [of "s\<lparr>fa_head := head_of fs\<rparr>" f u j] assms by simp
  moreover have "new_table_state f fs t i s
      = ?s1\<lparr>ram := wr64 (ram ?s1) (entry_at (t + hhdm ?s1) i) (f OR PRESENT OR WRITABLE)\<rparr>"
    by (simp add: new_table_state_def)
  ultimately show ?thesis by (simp only:)
qed

lemma new_table_tables:
  assumes T: "tables s T" and t: "T p = Some t" "length p < 3" "i < 512" "ent s t i AND PRESENT = 0"
    and f: "table_frame s f" "f \<notin> ran T"
  shows "tables (new_table_state f fs t i s) (T(p @ [i] \<mapsto> f))" (is "tables ?s' ?T'")
proof -
  have fok: "frame_ok s f" and tok: "frame_ok s t"
    using f tables_frame [OF T t(1)] by (auto simp: table_frame_def)
  have frm: "table_frame ?s' = table_frame s" by (simp add: new_table_state_def)
  have fT: "T q \<noteq> Some f" for q using f(2) by (auto intro: ranI)
  have none: "T (p @ [i]) = None" using tables_child(1) [OF T t(1-3)] t(4) by simp
  have e: "ent ?s' u j = (if (u, j) = (t, i) then f OR PRESENT OR WRITABLE else if u = f then 0 else ent s u j)"
    if "frame_ok s u" "j < 512" for u j
    using new_table_state_ent [OF fok tok t(3) that] .
  have "?T' [] = Some (cr3 ?s' AND ADDR_MASK)"
    using T by (simp add: tables_def new_table_state_def)
  moreover have "table_frame ?s' u \<and> length q \<le> 3" if "?T' q = Some u" for q u
    using that f(1) t(2) tables_frame [OF T] by (auto simp: frm split: if_splits)
  moreover have "q = q'" if "?T' q = Some u" "?T' q' = Some u" for q q' u
    using that fT tables_inj [OF T] by (auto split: if_splits)
  moreover have "if ent ?s' u k AND PRESENT = 0 then ent ?s' u k AND HUGE_PAGE = 0 \<and> ?T' (q @ [k]) = None
      else if ent ?s' u k AND HUGE_PAGE \<noteq> 0 then ?T' (q @ [k]) = None
      else ?T' (q @ [k]) = Some (ent ?s' u k AND ADDR_MASK)"
    if q: "?T' q = Some u" "length q < 3" "k < 512" for q u k
  proof (cases "q = p @ [i]")
    case True
    then have "u = f" using q(1) by simp
    moreover have "f \<noteq> t" using fT t(1) by auto
    ultimately have "ent ?s' u k = 0" using e [of u k] fok q(3) by simp
    moreover have "T (q @ [k]) = None" using T none True unfolding tables_def by blast
    ultimately show ?thesis using True by simp
  next
    case False
    then have Tq: "T q = Some u" using q(1) by simp
    then have uok: "frame_ok s u" and uf: "u \<noteq> f" using tables_frame [OF T] fT by auto
    show ?thesis
    proof (cases "q @ [k] = p @ [i]")
      case True
      then have "u = t" "k = i" "q = p" using Tq t(1) by auto
      then show ?thesis
        using e [OF uok q(3)] table_entry f(1) by (simp add: table_frame_def)
    next
      case False
      then have "(u, k) \<noteq> (t, i)" using tables_inj [OF T Tq] t(1) by auto
      then have "ent ?s' u k = ent s u k" using e [OF uok q(3)] uf by (simp only: if_False)
      moreover have "?T' (q @ [k]) = T (q @ [k])" using False by (rule fun_upd_other)
      ultimately show ?thesis
        using tables_child [OF T Tq q(2,3)] by (simp only:) presburger
    qed
  qed
  moreover have "?T' q \<noteq> None" if "?T' (q @ [k]) = Some u" for q k u
    using that tables_prefix [OF T, of q "[k]"] t(1) by (auto split: if_splits)
  ultimately show ?thesis unfolding tables_def by blast
qed

lemma new_table_inv:
  assumes inv: "pt_inv s T (f # fs)" and t: "T p = Some t" "length p < 3" "i < 512" "ent s t i AND PRESENT = 0"
  shows "pt_inv (new_table_state f fs t i s) (T(p @ [i] \<mapsto> f)) fs"
proof -
  have f: "table_frame s f" "f \<notin> ran T" "f \<notin> set fs"
    using inv by (auto simp: pt_inv_def fa_inv_def free_list_def)
  have tok: "frame_ok s t" using tables_frame pt_invD(2) [OF inv] t(1) by blast
  let ?s1 = "s\<lparr>fa_head := head_of fs, ram := mem_fill (ram s) (f + hhdm s) 0 4096\<rparr>"
  have "fa_inv (?s1\<lparr>ram := wr64 (ram ?s1) (entry_at (t + hhdm ?s1) i) (f OR PRESENT OR WRITABLE)\<rparr>) fs"
    by (rule free_list_write_entry [OF allocate_cons_list [OF pt_invD(1) [OF inv]]])
      (use tok t pt_invD(5) [OF inv t(1)] in simp_all)
  then have "fa_inv (new_table_state f fs t i s) fs"
    by (simp add: new_table_state_def)
  moreover have "list_all (table_frame (new_table_state f fs t i s)) fs"
    using pt_invD(4) [OF inv] by (simp add: new_table_state_def)
  moreover have "ran (T(p @ [i] \<mapsto> f)) \<inter> set fs = {}"
    using inv f(3) by (auto simp: pt_inv_def ran_def split: if_splits)
  ultimately show ?thesis
    using new_table_tables [OF pt_invD(2) [OF inv] t f(1,2)] by (simp add: pt_inv_def)
qed

text \<open>What a step of the walk, and a whole walk, may do to the state: take frames from the pool and link them.\<close>

definition grows :: "'z pgstate_scheme \<Rightarrow> (u64 list \<rightharpoonup> u64) \<Rightarrow> u64 list \<Rightarrow>
    'z pgstate_scheme \<Rightarrow> (u64 list \<rightharpoonup> u64) \<Rightarrow> u64 list \<Rightarrow> nat \<Rightarrow> bool" where
  "grows s T fs s' T' fs' n \<longleftrightarrow> pt_inv s' T' fs' \<and> hhdm s' = hhdm s \<and> cr3 s' = cr3 s \<and> invlpgs s' = invlpgs s
     \<and> (\<forall>q u. T q = Some u \<longrightarrow> T' q = Some u) \<and> (\<exists>k\<le>n. fs' = drop k fs)
     \<and> (\<forall>q u is. T q = Some u \<longrightarrow> length q + length is = 4 \<longrightarrow> (\<forall>k \<in> set is. k < 512) \<longrightarrow>
          lookup (ent s') u is = lookup (ent s) u is)"

lemma grows_refl: "pt_inv s T fs \<Longrightarrow> grows s T fs s T fs n"
  unfolding grows_def by (metis drop_0 le0)

lemma grows_lookup:
  "grows s T fs s' T' fs' n \<Longrightarrow> T q = Some u \<Longrightarrow> length q + length is = 4 \<Longrightarrow> \<forall>k \<in> set is. k < 512 \<Longrightarrow>
     lookup (ent s') u is = lookup (ent s) u is"
  unfolding grows_def by blast

lemma grows_trans:
  assumes "grows s T fs s' T' fs' m" "grows s' T' fs' s'' T'' fs'' n"
  shows "grows s T fs s'' T'' fs'' (m + n)"
proof -
  from assms obtain j k where "j \<le> m" "fs' = drop j fs" "k \<le> n" "fs'' = drop k fs'"
    unfolding grows_def by blast
  then have "\<exists>i\<le>m + n. fs'' = drop i fs"
    by (intro exI [of _ "j + k"]) (simp add: add.commute)
  moreover have "lookup (ent s'') u is = lookup (ent s) u is"
    if "T q = Some u" "length q + length is = 4" "\<forall>k \<in> set is. k < 512" for q u "is"
  proof -
    have "T' q = Some u" using assms(1) that(1) unfolding grows_def by simp
    then show ?thesis
      by (rule trans [OF grows_lookup [OF assms(2) _ that(2,3)] grows_lookup [OF assms(1) that]])
  qed
  ultimately show ?thesis using assms unfolding grows_def by simp
qed

lemma grows_leaf: "pt_inv s T fs \<Longrightarrow> grows s T fs s' T' fs' n \<Longrightarrow> leaf s' = leaf s"
  using path_indices pt_invD(3) [of s T fs] by (simp add: grows_def leaf_def fun_eq_iff)

lemma create_step:
  assumes inv: "pt_inv s T fs" and t: "T p = Some t" "length p < 3" "i < 512"
  shows "\<exists>r s' T' fs'. next_table_or_create (entry_at (t + hhdm s) i) s = Some (r, s')
    \<and> grows s T fs s' T' fs' 1
    \<and> (case r of
         Inr v \<Rightarrow> \<exists>t'. v = t' + hhdm s \<and> T' (p @ [i]) = Some t' \<and> ent s' t i AND PRESENT \<noteq> 0
                    \<and> ent s' t i AND HUGE_PAGE = 0 \<and> t' = ent s' t i AND ADDR_MASK
                    \<and> (ent s t i AND PRESENT \<noteq> 0 \<longrightarrow> s' = s)
       | Inl e \<Rightarrow> s' = s \<and> (e = HugePageInPath \<and> ent s t i AND PRESENT \<noteq> 0 \<and> ent s t i AND HUGE_PAGE \<noteq> 0
                    \<or> e = OutOfFrames \<and> fs = [] \<and> ent s t i AND PRESENT = 0))"
proof -
  note T = pt_invD(2) [OF inv]
  have entd: "rd64 (ram s) (entry_at (t + hhdm s) i) = ent s t i" by (simp add: ent_def)
  consider (huge) "ent s t i AND HUGE_PAGE \<noteq> 0" | (present) "ent s t i AND HUGE_PAGE = 0" "ent s t i AND PRESENT \<noteq> 0"
    | (none) "ent s t i AND HUGE_PAGE = 0" "ent s t i AND PRESENT = 0" "fs = []"
    | (new) f fs' where "ent s t i AND HUGE_PAGE = 0" "ent s t i AND PRESENT = 0" "fs = f # fs'"
    by (cases fs) auto
  then show ?thesis
  proof cases
    case huge
    moreover have "ent s t i AND PRESENT \<noteq> 0" using tables_child(1) [OF T t] huge by auto
    ultimately show ?thesis
      using grows_refl [OF inv] by (intro exI [of _ "Inl HugePageInPath"] exI [of _ s] exI [of _ T] exI [of _ fs])
        (simp add: next_table_or_create_def entd)
  next
    case present
    then have c: "T (p @ [i]) = Some (ent s t i AND ADDR_MASK)" using tables_child(3) [OF T t] by simp
    then have "table_frame s (ent s t i AND ADDR_MASK)" using tables_frame [OF T] by blast
    then have "hhdm_or_unavailable (ent s t i AND ADDR_MASK) s = Some (Inr ((ent s t i AND ADDR_MASK) + hhdm s), s)"
      by (simp add: hhdm_or_unavailable_def table_frame_def p2v_frame)
    with present c show ?thesis
      using grows_refl [OF inv] by (intro exI [of _ "Inr ((ent s t i AND ADDR_MASK) + hhdm s)"] exI [of _ s]
          exI [of _ T] exI [of _ fs]) (simp add: next_table_or_create_def entd)
  next
    case none
    then show ?thesis
      using grows_refl [OF inv] pt_invD(1) [OF inv]
      by (intro exI [of _ "Inl OutOfFrames"] exI [of _ s] exI [of _ T] exI [of _ fs])
        (simp add: next_table_or_create_def entd allocate_nil)
  next
    case (new f fs')
    let ?s' = "new_table_state f fs' t i s"
    have f: "table_frame s f" "f \<notin> ran T"
      using inv new(3) by (auto simp: pt_inv_def)
    have fok: "frame_ok s f" and tok: "frame_ok s t"
      using f(1) tables_frame [OF T t(1)] by (auto simp: table_frame_def)
    have h: "hhdm ?s' = hhdm s" by (simp add: new_table_state_def)
    have e': "ent ?s' u j = (if (u, j) = (t, i) then f OR PRESENT OR WRITABLE else if u = f then 0 else ent s u j)"
      if "frame_ok s u" "j < 512" for u j
      using new_table_state_ent [OF fok tok t(3) that] .
    have et: "ent ?s' t i = f OR PRESENT OR WRITABLE" using e' [OF tok t(3)] by simp
    note fe = table_entry [of f] f(1)
    have "next_table_or_create (entry_at (t + hhdm s) i) s
        = hhdm_or_unavailable (rd64 (ram ?s') (entry_at (t + hhdm s) i) AND ADDR_MASK) ?s'"
      using new pt_invD(1) [OF inv]
      by (simp add: next_table_or_create_def entd allocate_cons_eq new_table_state_def)
    also have "\<dots> = hhdm_or_unavailable f ?s'"
      using et fe by (simp add: ent_def h table_frame_def)
    also have "\<dots> = Some (Inr (f + hhdm s), ?s')"
    proof -
      have "frame_ok ?s' f" using fok by (simp add: new_table_state_def)
      then show ?thesis by (simp add: hhdm_or_unavailable_def p2v_frame h)
    qed
    finally have run: "next_table_or_create (entry_at (t + hhdm s) i) s = Some (Inr (f + hhdm s), ?s')" .
    have "pt_inv ?s' (T(p @ [i] \<mapsto> f)) fs'"
      using new_table_inv [OF inv [unfolded new(3)] t new(2)] .
    moreover have "(T(p @ [i] \<mapsto> f)) q = Some u" if "T q = Some u" for q u
      using that tables_child(1) [OF T t new(2)] by auto
    moreover have "lookup (ent ?s') u is = lookup (ent s) u is"
      if "T q = Some u" "length q + length is = 4" "\<forall>k \<in> set is. k < 512" for q u "is"
      by (rule lookup_new_table [OF T t new(2) f e' that])
    ultimately have "grows s T fs ?s' (T(p @ [i] \<mapsto> f)) fs' 1"
      using new(3) h by (auto simp: grows_def new_table_state_def intro!: exI [of _ 1])
    with run et fe new(2) show ?thesis
      by (intro exI [of _ "Inr (f + hhdm s)"] exI [of _ ?s'] exI [of _ "T(p @ [i] \<mapsto> f)"] exI [of _ fs'])
        (auto simp: table_frame_def)
  qed
qed

section \<open>Walking down to the last table\<close>

fun descend :: "u64 list \<Rightarrow> u64 \<Rightarrow> 'z pgstate_scheme \<Rightarrow> ((PagingError + u64) \<times> 'z pgstate_scheme) option" where
  "descend [] table s = Some (Inr table, s)"
| "descend (i # is) table s = try_bind (next_table_or_create (entry_at table i) s) (descend is)"

lemma map_page_descend:
  "path v = [a, b, c, d] \<Longrightarrow> map_page v p fl s =
     try_bind (pml4_virt s) (\<lambda>pml4 s. try_bind (descend [a, b, c] pml4 s) (\<lambda>pt s.
       if rd64 (ram s) (entry_at pt d) AND PRESENT \<noteq> 0 then Some (Inl AlreadyMapped, s)
       else Some (Inr (), s\<lparr>ram := wr64 (ram s) (entry_at pt d) ((p AND NOT (mask 12)) OR PRESENT OR fl),
                           invlpgs := invlpgs s @ [v AND NOT (mask 12)]\<rparr>)))"
  using path_page [of v]
  by (simp add: map_page_def path_def PAGE_mask Let_def try_bind_def split: prod.splits option.splits sum.splits)

lemma descend_steps:
  assumes "pt_inv s T fs" "T p = Some t" "length p + length is = 3" "\<forall>k \<in> set is. k < 512" "d < 512"
  shows "\<exists>r s' T' fs'. descend is (t + hhdm s) s = Some (r, s') \<and> grows s T fs s' T' fs' (length is)
    \<and> (case r of
         Inr v \<Rightarrow> \<exists>t'. v = t' + hhdm s \<and> T' (p @ is) = Some t'
                    \<and> lookup (ent s) t (is @ [d]) = lookup (ent s') t' [d]
                    \<and> (lookup (ent s) t (is @ [d]) \<noteq> Inl NotMapped \<longrightarrow> s' = s)
       | Inl e \<Rightarrow> e = HugePageInPath \<and> lookup (ent s) t (is @ [d]) = Inl HugePageInPath \<and> s' = s
                \<or> e = OutOfFrames \<and> lookup (ent s) t (is @ [d]) = Inl NotMapped \<and> length fs < length is)"
  using assms
proof (induction "is" arbitrary: s T fs p t)
  case Nil
  then show ?case
    using grows_refl [OF Nil(1)] by (intro exI [of _ "Inr (t + hhdm s)"] exI [of _ s] exI [of _ T] exI [of _ fs]) simp
next
  case (Cons i "is")
  have t: "length p < 3" "i < 512" using Cons.prems by auto
  obtain j js where j: "is @ [d] = j # js" by (cases "is @ [d]") auto
  from create_step [OF Cons.prems(1,2) t] obtain r s1 T1 fs1
    where run: "next_table_or_create (entry_at (t + hhdm s) i) s = Some (r, s1)"
      and g: "grows s T fs s1 T1 fs1 1"
      and r: "case r of
         Inr v \<Rightarrow> \<exists>t'. v = t' + hhdm s \<and> T1 (p @ [i]) = Some t' \<and> ent s1 t i AND PRESENT \<noteq> 0
                    \<and> ent s1 t i AND HUGE_PAGE = 0 \<and> t' = ent s1 t i AND ADDR_MASK
                    \<and> (ent s t i AND PRESENT \<noteq> 0 \<longrightarrow> s1 = s)
       | Inl e \<Rightarrow> s1 = s \<and> (e = HugePageInPath \<and> ent s t i AND PRESENT \<noteq> 0 \<and> ent s t i AND HUGE_PAGE \<noteq> 0
                    \<or> e = OutOfFrames \<and> fs = [] \<and> ent s t i AND PRESENT = 0)"
    by blast
  show ?case
  proof (cases r)
    case (Inl e)
    have "grows s T fs s T fs (length (i # is))" using Cons.prems(1) by (rule grows_refl)
    with Inl run r show ?thesis
      by (intro exI [of _ "Inl e"] exI [of _ s] exI [of _ T] exI [of _ fs]) (auto simp: j)
  next
    case (Inr v)
    with r obtain t1 where t1: "v = t1 + hhdm s" "T1 (p @ [i]) = Some t1" "ent s1 t i AND PRESENT \<noteq> 0"
        "ent s1 t i AND HUGE_PAGE = 0" "t1 = ent s1 t i AND ADDR_MASK" "ent s t i AND PRESENT \<noteq> 0 \<Longrightarrow> s1 = s"
      by auto
    have inv1: "pt_inv s1 T1 fs1" and h1: "hhdm s1 = hhdm s" using g by (auto simp: grows_def)
    have idx: "\<forall>k \<in> set (i # is @ [d]). k < 512" using Cons.prems(4,5) by auto
    have L: "lookup (ent s) t (i # is @ [d]) = lookup (ent s1) t1 (is @ [d])"
    proof -
      have "lookup (ent s1) t (i # is @ [d]) = lookup (ent s) t (i # is @ [d])"
        by (rule grows_lookup [OF g Cons.prems(2)]) (use Cons.prems(3) idx in auto)
      moreover have "lookup (ent s1) t (i # is @ [d]) = lookup (ent s1) t1 (is @ [d])"
        using t1 by (simp add: j)
      ultimately show ?thesis by simp
    qed
    have same: "s1 = s" if "lookup (ent s) t (i # is @ [d]) \<noteq> Inl NotMapped"
    proof (rule t1(6))
      show "ent s t i AND PRESENT \<noteq> 0" using that by (auto simp: j split: if_splits)
    qed
    have len: "length (p @ [i]) + length is = 3" using Cons.prems(3) by simp
    have "\<forall>k \<in> set is. k < 512" using Cons.prems(4) by simp
    from Cons.IH [OF inv1 t1(2) len this Cons.prems(5)] obtain r2 s2 T2 fs2
      where run2: "descend is (t1 + hhdm s1) s1 = Some (r2, s2)" and g2: "grows s1 T1 fs1 s2 T2 fs2 (length is)"
        and r2: "case r2 of
         Inr v \<Rightarrow> \<exists>t'. v = t' + hhdm s1 \<and> T2 ((p @ [i]) @ is) = Some t'
                    \<and> lookup (ent s1) t1 (is @ [d]) = lookup (ent s2) t' [d]
                    \<and> (lookup (ent s1) t1 (is @ [d]) \<noteq> Inl NotMapped \<longrightarrow> s2 = s1)
       | Inl e \<Rightarrow> e = HugePageInPath \<and> lookup (ent s1) t1 (is @ [d]) = Inl HugePageInPath \<and> s2 = s1
                \<or> e = OutOfFrames \<and> lookup (ent s1) t1 (is @ [d]) = Inl NotMapped \<and> length fs1 < length is"
      by blast
    have "descend (i # is) (t + hhdm s) s = Some (r2, s2)"
      using run run2 Inr t1(1) h1 by simp
    moreover have "grows s T fs s2 T2 fs2 (length (i # is))"
      using grows_trans [OF g g2] by simp
    moreover have "length fs \<le> length fs1 + 1"
      using g unfolding grows_def by auto
    moreover have "case r2 of
         Inr v \<Rightarrow> \<exists>t'. v = t' + hhdm s \<and> T2 (p @ i # is) = Some t'
                    \<and> lookup (ent s) t ((i # is) @ [d]) = lookup (ent s2) t' [d]
                    \<and> (lookup (ent s) t ((i # is) @ [d]) \<noteq> Inl NotMapped \<longrightarrow> s2 = s)
       | Inl e \<Rightarrow> e = HugePageInPath \<and> lookup (ent s) t ((i # is) @ [d]) = Inl HugePageInPath \<and> s2 = s
                \<or> e = OutOfFrames \<and> lookup (ent s) t ((i # is) @ [d]) = Inl NotMapped \<and> length fs < length (i # is)"
    proof (cases r2)
      case (Inl e)
      have "e = HugePageInPath \<and> lookup (ent s) t (i # is @ [d]) = Inl HugePageInPath \<and> s2 = s1
          \<or> e = OutOfFrames \<and> lookup (ent s) t (i # is @ [d]) = Inl NotMapped \<and> length fs1 < length is"
        using r2 unfolding Inl sum.case L .
      moreover have "s1 = s" if "lookup (ent s) t (i # is @ [d]) = Inl HugePageInPath"
        by (rule same) (simp only: that sum.inject PagingError.distinct not_False_eq_True)
      moreover have "length fs < length (i # is)" if "length fs1 < length is"
        using that \<open>length fs \<le> length fs1 + 1\<close> by simp
      ultimately show ?thesis unfolding Inl sum.case append_Cons by blast
    next
      case (Inr w)
      obtain t' where t': "w = t' + hhdm s1" "T2 ((p @ [i]) @ is) = Some t'"
          "lookup (ent s1) t1 (is @ [d]) = lookup (ent s2) t' [d]"
          "lookup (ent s1) t1 (is @ [d]) \<noteq> Inl NotMapped \<longrightarrow> s2 = s1"
        using r2 unfolding Inr sum.case by blast
      have "T2 (p @ i # is) = Some t'" using t'(2) by simp
      then show ?thesis
        unfolding Inr sum.case append_Cons L using t'(1,3,4) h1 same unfolding L by metis
    qed
    ultimately show ?thesis by blast
  qed
qed

lemma write_leaf_entry:
  assumes inv: "pt_inv s T fs" and t: "T p = Some t" "length p = 3" "d < 512" and v: "path v = p @ [d]"
    and s': "s' = s\<lparr>ram := wr64 (ram s) (entry_at (t + hhdm s) d) w\<rparr>"
  shows "pt_inv s' T fs"
    "leaf s' = (\<lambda>x. if same_page x v then if w AND PRESENT = 0 then Inl NotMapped else Inr w else leaf s x)"
proof -
  note T = pt_invD(2) [OF inv]
  have tok: "frame_ok s t" using tables_frame [OF T t(1)] by simp
  have e: "ent s' u j = (if (u, j) = (t, d) then w else ent s u j)" if "frame_ok s u" "j < 512" for u j
    unfolding s' by (rule ent_upd [OF tok that(1) t(3) that(2)])
  have fa: "fa_inv s' fs"
    unfolding s' by (rule free_list_write_entry [OF pt_invD(1) [OF inv] tok pt_invD(5) [OF inv t(1)] t(3)])
  have inner: "ent s' u k = ent s u k" if "T q = Some u" "length q < 3" "k < 512" for q u k
  proof -
    have "u \<noteq> t" using tables_inj [OF T that(1)] t(1,2) that(2) by auto
    with e [of u k] tables_frame [OF T that(1)] that(3) show ?thesis by simp
  qed
  have frm: "table_frame s' = table_frame s" "cr3 s' = cr3 s" by (simp_all add: s')
  have "tables s' T"
    unfolding tables_def frm
  proof (intro conjI allI impI)
    fix q u k assume q: "T q = Some u" "length q < 3" "(k :: u64) < 512"
    show "if ent s' u k AND PRESENT = 0 then ent s' u k AND HUGE_PAGE = 0 \<and> T (q @ [k]) = None
      else if ent s' u k AND HUGE_PAGE \<noteq> 0 then T (q @ [k]) = None
      else T (q @ [k]) = Some (ent s' u k AND ADDR_MASK)"
      using tables_child [OF T q] unfolding inner [OF q] by presburger
  next
    fix q k u assume "T (q @ [k]) = Some u"
    then show "T q \<noteq> None" using tables_prefix [OF T, of q "[k]"] by simp
  qed (use T in \<open>auto simp: tables_def\<close>)
  with fa inv show "pt_inv s' T fs" by (simp add: pt_inv_def frm)
  show "leaf s' = (\<lambda>x. if same_page x v then if w AND PRESENT = 0 then Inl NotMapped else Inr w else leaf s x)"
  proof
    fix x
    have "lookup (ent s') (cr3 s AND ADDR_MASK) (path x) =
        (if [] @ path x = p @ [d] then if w AND PRESENT = 0 then Inl NotMapped else Inr w
         else lookup (ent s) (cr3 s AND ADDR_MASK) (path x))"
      by (rule lookup_leaf_update [OF T t e pt_invD(3) [OF inv]]) (use path_indices in auto)
    then show "leaf s' x = (if same_page x v then if w AND PRESENT = 0 then Inl NotMapped else Inr w else leaf s x)"
      by (simp add: leaf_def frm(2) v [symmetric] path_eq_iff)
  qed
qed

fun walk_down :: "u64 list \<Rightarrow> u64 \<Rightarrow> 'z pgstate_scheme \<Rightarrow> ((PagingError + u64) \<times> 'z pgstate_scheme) option" where
  "walk_down [] table s = Some (Inr table, s)"
| "walk_down (i # is) table s =
     try_bind (next_table_existing (rd64 (ram s) (entry_at table i)) s) (walk_down is)"

lemma walk_existing_walk_down:
  "path v = [a, b, c, d] \<Longrightarrow> walk_existing v s =
     try_bind (pml4_virt s) (\<lambda>pml4 s. try_bind (walk_down [a, b, c] pml4 s) (\<lambda>pt s. Some (Inr (entry_at pt d), s)))"
  by (simp add: walk_existing_def path_def Let_def try_bind_def split: prod.splits option.splits sum.splits)

lemma walk_down_cases:
  assumes "pt_inv s T fs" "T p = Some t" "length p + length is = 3" "\<forall>k \<in> set is. k < 512"
  shows "(\<exists>t'. walk_down is (t + hhdm s) s = Some (Inr (t' + hhdm s), s) \<and> T (p @ is) = Some t'
             \<and> lookup (ent s) t (is @ [d]) = lookup (ent s) t' [d])
       \<or> (\<exists>e. walk_down is (t + hhdm s) s = Some (Inl e, s) \<and> lookup (ent s) t (is @ [d]) = Inl e)"
  using assms
proof (induction "is" arbitrary: p t)
  case Nil
  then show ?case by simp
next
  case (Cons i "is")
  have t: "length p < 3" "i < 512" using Cons.prems by auto
  obtain j js where j: "is @ [d] = j # js" by (cases "is @ [d]") auto
  note step = existing_step [OF Cons.prems(1,2) t]
  show ?case
  proof (cases "ent s t i AND PRESENT = 0 \<or> ent s t i AND HUGE_PAGE \<noteq> 0")
    case True
    then show ?thesis using step by (auto simp: j simp flip: ent_def)
  next
    case False
    let ?t = "ent s t i AND ADDR_MASK"
    have c: "T (p @ [i]) = Some ?t"
      using tables_child(3) [OF pt_invD(2) [OF Cons.prems(1)] Cons.prems(2) t] False by simp
    have "walk_down (i # is) (t + hhdm s) s = walk_down is (?t + hhdm s) s"
      using step False by (simp flip: ent_def)
    moreover have "lookup (ent s) t ((i # is) @ [d]) = lookup (ent s) ?t (is @ [d])"
      using False by (simp add: j)
    moreover have "length (p @ [i]) + length is = 3" "\<forall>k \<in> set is. k < 512" using Cons.prems(3,4) by auto
    ultimately show ?thesis using Cons.IH [OF Cons.prems(1) c] by simp
  qed
qed

lemma pml4_step:
  assumes inv: "pt_inv s T fs"
  shows "pml4_virt s = Some (Inr ((cr3 s AND ADDR_MASK) + hhdm s), s)"
proof -
  have "table_frame s (cr3 s AND ADDR_MASK)"
    using tables_frame [OF pt_invD(2) [OF inv] pt_invD(3) [OF inv]] by simp
  then show ?thesis
    using p2v_table [of s "cr3 s AND ADDR_MASK"] by (simp add: pml4_virt_def and.assoc)
qed

lemma path_cases: obtains a b c d where "path v = [a, b, c, d]" "a < 512" "b < 512" "c < 512" "d < 512"
  using path_indices [of _ v] by (auto simp: path_def table_indices_def)

text \<open>The walk either ends at the entry of the page in the last table or reports why there is none.\<close>

lemma walk_cases:
  assumes inv: "pt_inv s T fs"
  shows "(\<exists>t p d. walk_existing v s = Some (Inr (entry_at (t + hhdm s) d), s) \<and> T p = Some t \<and> length p = 3
            \<and> d < 512 \<and> path v = p @ [d]
            \<and> leaf s v = (if ent s t d AND PRESENT = 0 then Inl NotMapped else Inr (ent s t d)))
       \<or> (\<exists>e. walk_existing v s = Some (Inl e, s) \<and> leaf s v = Inl e)"
proof -
  obtain a b c d where v: "path v = [a, b, c, d]" and lt: "a < 512" "b < 512" "c < 512" "d < 512"
    by (rule path_cases)
  have "(\<exists>t'. walk_down [a, b, c] ((cr3 s AND ADDR_MASK) + hhdm s) s = Some (Inr (t' + hhdm s), s)
             \<and> T ([] @ [a, b, c]) = Some t'
             \<and> lookup (ent s) (cr3 s AND ADDR_MASK) ([a, b, c] @ [d]) = lookup (ent s) t' [d])
       \<or> (\<exists>e. walk_down [a, b, c] ((cr3 s AND ADDR_MASK) + hhdm s) s = Some (Inl e, s)
             \<and> lookup (ent s) (cr3 s AND ADDR_MASK) ([a, b, c] @ [d]) = Inl e)"
    by (rule walk_down_cases [OF inv pt_invD(3) [OF inv]]) (use lt in auto)
  then show ?thesis
  proof (elim disjE exE conjE)
    fix t' assume "walk_down [a, b, c] ((cr3 s AND ADDR_MASK) + hhdm s) s = Some (Inr (t' + hhdm s), s)"
      "T ([] @ [a, b, c]) = Some t'"
      "lookup (ent s) (cr3 s AND ADDR_MASK) ([a, b, c] @ [d]) = lookup (ent s) t' [d]"
    then show ?thesis
      using lt(4) by (intro disjI1 exI [of _ t'] exI [of _ "[a, b, c]"] exI [of _ d])
        (simp add: walk_existing_walk_down [OF v] pml4_step [OF inv] v leaf_def del: walk_down.simps lookup.simps(3))
  next
    fix e assume "walk_down [a, b, c] ((cr3 s AND ADDR_MASK) + hhdm s) s = Some (Inl e, s)"
      "lookup (ent s) (cr3 s AND ADDR_MASK) ([a, b, c] @ [d]) = Inl e"
    then show ?thesis
      by (intro disjI2 exI [of _ e])
        (simp add: walk_existing_walk_down [OF v] pml4_step [OF inv] v leaf_def del: walk_down.simps lookup.simps(3))
  qed
qed

section \<open>The operations on the abstract mapping\<close>

definition map_spec :: "u64 \<Rightarrow> u64 \<Rightarrow> (u64 \<Rightarrow> PagingError + u64) \<Rightarrow> (PagingError + unit) \<times> (u64 \<Rightarrow> PagingError + u64)" where
  "map_spec v pte L =
     (case L v of
        Inr _ \<Rightarrow> (Inl AlreadyMapped, L)
      | Inl e \<Rightarrow> if e = NotMapped then (Inr (), \<lambda>x. if same_page x v then Inr pte else L x) else (Inl e, L))"

definition unmap_spec :: "u64 \<Rightarrow> (u64 \<Rightarrow> PagingError + u64) \<Rightarrow> (PagingError + u64) \<times> (u64 \<Rightarrow> PagingError + u64)" where
  "unmap_spec v L =
     (case L v of
        Inr pte \<Rightarrow> (Inr (pte AND ADDR_MASK), \<lambda>x. if same_page x v then Inl NotMapped else L x)
      | Inl e \<Rightarrow> (Inl e, L))"

lemma present_pte: "(x OR PRESENT OR fl) AND PRESENT \<noteq> 0"
proof
  assume "(x OR PRESENT OR fl) AND PRESENT = 0"
  then have "bit ((x OR PRESENT OR fl) AND PRESENT) 0 = bit (0 :: u64) 0" by simp
  then show False by (simp add: bit_simps PRESENT_def)
qed

lemma leaf_not_other: "leaf s v = Inl e \<Longrightarrow> e = NotMapped \<or> e = HugePageInPath"
proof -
  have "lookup f t is = Inl e \<Longrightarrow> e = NotMapped \<or> e = HugePageInPath" for f t "is"
    by (induction f t "is" rule: lookup.induct) (auto split: if_splits)
  then show "leaf s v = Inl e \<Longrightarrow> e = NotMapped \<or> e = HugePageInPath"
    by (simp add: leaf_def)
qed

lemma map_page_aux:
  assumes inv: "pt_inv s T fs"
  shows "\<exists>r s' T' k. map_page v p fl s = Some (r, s') \<and> pt_inv s' T' (drop k fs) \<and> k \<le> 3 \<and> hhdm s' = hhdm s
    \<and> (r = Inl OutOfFrames \<and> length fs < 3 \<and> leaf s v = Inl NotMapped \<and> leaf s' = leaf s \<and> invlpgs s' = invlpgs s
       \<or> (r, leaf s') = map_spec v ((p AND NOT (mask 12)) OR PRESENT OR fl) (leaf s)
          \<and> (if r = Inr () then invlpgs s' = invlpgs s @ [v AND NOT (mask 12)] else s' = s))"
proof -
  obtain a b c d where v: "path v = [a, b, c, d]" and lt: "a < 512" "b < 512" "c < 512" "d < 512"
    by (rule path_cases)
  let ?root = "cr3 s AND ADDR_MASK"
  let ?w = "(p AND NOT (mask 12)) OR PRESENT OR fl"
  have L: "leaf s v = lookup (ent s) ?root ([a, b, c] @ [d])" by (simp add: leaf_def v)
  have "\<exists>r s' T' fs'. descend [a, b, c] (?root + hhdm s) s = Some (r, s') \<and> grows s T fs s' T' fs' (length [a, b, c])
    \<and> (case r of
         Inr v \<Rightarrow> \<exists>t'. v = t' + hhdm s \<and> T' ([] @ [a, b, c]) = Some t'
                    \<and> lookup (ent s) ?root ([a, b, c] @ [d]) = lookup (ent s') t' [d]
                    \<and> (lookup (ent s) ?root ([a, b, c] @ [d]) \<noteq> Inl NotMapped \<longrightarrow> s' = s)
       | Inl e \<Rightarrow> e = HugePageInPath \<and> lookup (ent s) ?root ([a, b, c] @ [d]) = Inl HugePageInPath \<and> s' = s
                \<or> e = OutOfFrames \<and> lookup (ent s) ?root ([a, b, c] @ [d]) = Inl NotMapped \<and> length fs < length [a, b, c])"
    by (rule descend_steps [OF inv pt_invD(3) [OF inv]]) (use lt in auto)
  then obtain r1 s1 T1 fs1 where run: "descend [a, b, c] (?root + hhdm s) s = Some (r1, s1)"
    and g: "grows s T fs s1 T1 fs1 (length [a, b, c])"
    and r1: "case r1 of
         Inr x \<Rightarrow> \<exists>t'. x = t' + hhdm s \<and> T1 ([] @ [a, b, c]) = Some t' \<and> leaf s v = lookup (ent s1) t' [d]
                    \<and> (leaf s v \<noteq> Inl NotMapped \<longrightarrow> s1 = s)
       | Inl e \<Rightarrow> e = HugePageInPath \<and> leaf s v = Inl HugePageInPath \<and> s1 = s
                \<or> e = OutOfFrames \<and> leaf s v = Inl NotMapped \<and> length fs < length [a, b, c]"
    unfolding L [symmetric] by blast
  from g obtain k where k: "k \<le> 3" "fs1 = drop k fs" and inv1: "pt_inv s1 T1 (drop k fs)"
      and h1: "hhdm s1 = hhdm s" and iv1: "invlpgs s1 = invlpgs s"
    unfolding grows_def by (auto simp: numeral_3_eq_3)
  have leaf1: "leaf s1 = leaf s" by (rule grows_leaf [OF inv g])
  have start: "map_page v p fl s = try_bind (Some (r1, s1)) (\<lambda>pt s.
       if rd64 (ram s) (entry_at pt d) AND PRESENT \<noteq> 0 then Some (Inl AlreadyMapped, s)
       else Some (Inr (), s\<lparr>ram := wr64 (ram s) (entry_at pt d) ?w, invlpgs := invlpgs s @ [v AND NOT (mask 12)]\<rparr>))"
    by (simp only: map_page_descend [OF v] pml4_step [OF inv] try_bind_simps run)
  show ?thesis
  proof (cases r1)
    case (Inl e)
    have m: "map_page v p fl s = Some (Inl e, s1)" by (simp only: start Inl try_bind_simps)
    consider "e = HugePageInPath" "leaf s v = Inl HugePageInPath" "s1 = s"
      | "e = OutOfFrames" "leaf s v = Inl NotMapped" "length fs < 3"
      using r1 unfolding Inl by auto
    then show ?thesis
    proof cases
      case 1
      then show ?thesis
        using m inv by (intro exI [of _ "Inl e"] exI [of _ s] exI [of _ T] exI [of _ 0]) (simp add: map_spec_def)
    next
      case 2
      then show ?thesis
        using m inv1 k(1) h1 leaf1 iv1
        by (intro exI [of _ "Inl e"] exI [of _ s1] exI [of _ T1] exI [of _ k]) simp
    qed
  next
    case (Inr x)
    with r1 obtain t where t: "x = t + hhdm s" "T1 [a, b, c] = Some t" "leaf s v = lookup (ent s1) t [d]"
        "leaf s v \<noteq> Inl NotMapped \<Longrightarrow> s1 = s" by auto
    have e: "rd64 (ram s1) (entry_at x d) = ent s1 t d" by (simp add: ent_def t(1) h1)
    show ?thesis
    proof (cases "ent s1 t d AND PRESENT = 0")
      case False
      then have "leaf s v = Inr (ent s1 t d)" using t(3) by simp
      moreover from this have "s1 = s" using t(4) by simp
      moreover have "map_page v p fl s = Some (Inl AlreadyMapped, s1)"
        using False by (simp add: start Inr e)
      ultimately show ?thesis
        using inv by (intro exI [of _ "Inl AlreadyMapped"] exI [of _ s] exI [of _ T] exI [of _ 0])
          (simp add: map_spec_def)
    next
      case True
      let ?s2 = "s1\<lparr>ram := wr64 (ram s1) (entry_at (t + hhdm s1) d) ?w\<rparr>"
      have len: "length [a, b, c] = 3" by simp
      have pv: "path v = [a, b, c] @ [d]" by (simp add: v)
      note w = write_leaf_entry [OF inv1 t(2) len lt(4) pv refl, of ?w, unfolded leaf1]
      have "map_page v p fl s = Some (Inr (), ?s2\<lparr>invlpgs := invlpgs s @ [v AND NOT (mask 12)]\<rparr>)"
        using True by (simp add: start Inr e) (simp add: t(1) h1 iv1)
      moreover have "leaf s v = Inl NotMapped" using True t(3) by simp
      moreover have "hhdm ?s2 = hhdm s" by (simp add: h1)
      ultimately show ?thesis
        using w k(1) by (intro exI [of _ "Inr ()"]
            exI [of _ "?s2\<lparr>invlpgs := invlpgs s @ [v AND NOT (mask 12)]\<rparr>"] exI [of _ T1] exI [of _ k])
          (simp add: map_spec_def present_pte)
    qed
  qed
qed

lemma unmap_page_aux:
  assumes inv: "pt_inv s T fs"
  shows "\<exists>r s'. unmap_page v s = Some (r, s') \<and> pt_inv s' T fs \<and> (r, leaf s') = unmap_spec v (leaf s)
    \<and> invlpgs s' = invlpgs s @ (case r of Inr _ \<Rightarrow> [v AND NOT (mask 12)] | Inl _ \<Rightarrow> [])
    \<and> (\<forall>e. r = Inl e \<longrightarrow> s' = s)"
proof -
  have wp: "walk_existing (v AND NOT (mask 12)) s = walk_existing v s"
    using path_page [of v] by (simp add: walk_existing_def path_def Let_def split: prod.splits)
  note w = walk_cases [OF inv, of v]
  then show ?thesis
  proof (elim disjE exE conjE)
    fix t p d
    assume run: "walk_existing v s = Some (Inr (entry_at (t + hhdm s) d), s)"
      and t: "T p = Some t" "length p = 3" "d < 512" and v: "path v = p @ [d]"
      and L: "leaf s v = (if ent s t d AND PRESENT = 0 then Inl NotMapped else Inr (ent s t d))"
    let ?s2 = "s\<lparr>ram := wr64 (ram s) (entry_at (t + hhdm s) d) 0\<rparr>"
    have un: "unmap_page v s = (if ent s t d AND PRESENT = 0 then Some (Inl NotMapped, s)
        else Some (Inr (ent s t d AND ADDR_MASK), ?s2\<lparr>invlpgs := invlpgs s @ [v AND NOT (mask 12)]\<rparr>))"
      by (simp add: unmap_page_def PAGE_mask wp run Let_def ent_def)
    show ?thesis
    proof (cases "ent s t d AND PRESENT = 0")
      case True
      then show ?thesis using inv by (simp add: un L unmap_spec_def)
    next
      case False
      then show ?thesis
        using write_leaf_entry [OF inv t v refl, of 0] by (simp add: un L unmap_spec_def)
    qed
  next
    fix e assume "walk_existing v s = Some (Inl e, s)" "leaf s v = Inl e"
    then show ?thesis using inv by (simp add: unmap_page_def PAGE_mask wp Let_def unmap_spec_def)
  qed
qed

lemma translate_aux:
  assumes inv: "pt_inv s T fs"
  shows "translate v s =
    Some (case leaf s v of Inr pte \<Rightarrow> Inr ((pte AND ADDR_MASK) + (v AND mask 12)) | Inl e \<Rightarrow> Inl e, s)"
proof -
  have wp: "walk_existing (v AND NOT (mask 12)) s = walk_existing v s"
    using path_page [of v] by (simp add: walk_existing_def path_def Let_def split: prod.splits)
  have room: "checked_add (x AND ADDR_MASK) (v AND mask 12) = Some ((x AND ADDR_MASK) + (v AND mask 12))" for x
  proof -
    have "unat (x AND ADDR_MASK) \<le> unat ADDR_MASK"
      unfolding word_le_nat_alt [symmetric] by (rule word_and_le1)
    moreover have "unat (v AND mask 12) < 4096" by (simp add: unat_and_mask)
    ultimately show ?thesis by (simp add: checked_add_def ADDR_MASK_def)
  qed
  from walk_cases [OF inv, of v] show ?thesis
    by (elim disjE exE conjE)
      (simp_all add: translate_def PAGE_mask wp Let_def room ent_def)
qed

lemma same_page_unat: "same_page x y \<longleftrightarrow> unat x div 4096 mod 2 ^ 36 = unat y div 4096 mod 2 ^ 36"
proof -
  have "unat (take_bit 36 (drop_bit 12 z)) = take_bit 36 (drop_bit 12 (unat z))" for z :: u64
    by (simp only: unsigned_take_bit_eq unat_drop_bit_eq)
  then have "unat (take_bit 36 (drop_bit 12 z)) = unat z div 4096 mod 2 ^ 36" for z :: u64
    by (simp add: take_bit_eq_mod drop_bit_eq_div)
  then show ?thesis by (metis same_page_def word_unat_eq_iff)
qed

lemma same_page_refl [simp]: "same_page x x"
  by (simp add: same_page_def)

lemma pages_differ:
  assumes "unat v + n * 4096 < 2 ^ 64" "n \<le> 2 ^ 36" "i < n" "j < n" "i \<noteq> j"
  shows "\<not> same_page (v + of_nat (i * 4096)) (v + of_nat (j * 4096))"
proof
  assume same: "same_page (v + of_nat (i * 4096)) (v + of_nat (j * 4096))"
  have pg: "unat (v + of_nat (k * 4096)) div 4096 = unat v div 4096 + k" if "k < n" for k
  proof -
    have k: "k * 4096 < n * 4096" using that by simp
    then have "unat (of_nat (k * 4096) :: u64) = k * 4096"
      using assms(1) by (subst unat_of_nat) simp
    then have "unat (v + of_nat (k * 4096)) = unat v + k * 4096"
      using k assms(1) by (subst unat_word_ariths) simp
    then show ?thesis by simp
  qed
  have "(unat v div 4096 + i) mod 2 ^ 36 = (unat v div 4096 + j) mod 2 ^ 36"
    using same unfolding same_page_unat pg [OF assms(3)] pg [OF assms(4)] .
  moreover have "(a + k) mod N \<noteq> (a + l) mod N" if "k < l" "l < N" for a k l N :: nat
  proof
    assume "(a + k) mod N = (a + l) mod N"
    then have "N dvd (a + l) - (a + k)"
      using mod_eq_dvd_iff_nat [of "a + k" "a + l" N] that(1) by simp
    then show False using that nat_dvd_not_less [of "l - k" N] by simp
  qed
  ultimately show False
    using assms(2-5) by (metis linorder_neqE_nat order_less_le_trans)
qed

lemma map_pages_aux:
  assumes "pt_inv s T fs" "3 * n \<le> length fs" "unat v + (i + n) * 4096 < 2 ^ 64" "unat p + (i + n) * 4096 < 2 ^ 64"
    and "i + n \<le> 2 ^ 36"
    and "\<forall>j. i \<le> j \<and> j < i + n \<longrightarrow> leaf s (v + of_nat (j * 4096)) = Inl NotMapped"
  shows "\<exists>s' T' k. map_pages i n v p fl s = Some (Inr (), s') \<and> pt_inv s' T' (drop k fs) \<and> k \<le> 3 * n
     \<and> (\<forall>j x. i \<le> j \<and> j < i + n \<and> same_page x (v + of_nat (j * 4096)) \<longrightarrow>
          leaf s' x = Inr (((p + of_nat (j * 4096)) AND NOT (mask 12)) OR PRESENT OR fl))
     \<and> (\<forall>x. (\<forall>j. i \<le> j \<and> j < i + n \<longrightarrow> \<not> same_page x (v + of_nat (j * 4096))) \<longrightarrow> leaf s' x = leaf s x)"
  using assms
proof (induction n arbitrary: i s T fs)
  case 0
  then show ?case by (intro exI [of _ s] exI [of _ T] exI [of _ 0]) auto
next
  case (Suc n)
  let ?v = "v + of_nat (i * 4096)" and ?p = "p + of_nat (i * 4096)"
  have un: "unat (of_nat (i * 4096) :: u64) = i * 4096" and ui: "unat (of_nat i :: u64) = i"
    using Suc.prems(3) by (subst unat_of_nat, simp)+
  have off: "checked_mul (of_nat i) PAGE_SIZE = Some (of_nat (i * 4096))"
    unfolding checked_mul_eq_Some un ui by (simp add: PAGE_SIZE_def)
  have vp: "checked_add v (of_nat (i * 4096)) = Some ?v" "checked_add p (of_nat (i * 4096)) = Some ?p"
    using Suc.prems(3,4) by (simp_all only: checked_add_def un) simp_all
  have L: "leaf s ?v = Inl NotMapped" using Suc.prems(6) by simp
  from map_page_aux [OF Suc.prems(1), of ?v ?p fl] obtain r s1 T1 k1
    where run: "map_page ?v ?p fl s = Some (r, s1)" and inv1: "pt_inv s1 T1 (drop k1 fs)" "k1 \<le> 3"
      and r: "r = Inl OutOfFrames \<and> length fs < 3
        \<or> (r, leaf s1) = map_spec ?v ((?p AND NOT (mask 12)) OR PRESENT OR fl) (leaf s)" by blast
  have r1: "r = Inr ()" "leaf s1 = (\<lambda>x. if same_page x ?v then Inr ((?p AND NOT (mask 12)) OR PRESENT OR fl) else leaf s x)"
    using r Suc.prems(2) unfolding map_spec_def L by simp_all
  have other: "\<not> same_page (v + of_nat (j * 4096)) ?v" if "Suc i \<le> j" "j < Suc i + n" for j
    using pages_differ [of v "i + Suc n" j i] Suc.prems(3,5) that by simp
  have len: "3 * n \<le> length (drop k1 fs)" using Suc.prems(2) inv1(2) by simp
  have "\<exists>s' T' k. map_pages (Suc i) n v p fl s1 = Some (Inr (), s') \<and> pt_inv s' T' (drop k (drop k1 fs)) \<and> k \<le> 3 * n
     \<and> (\<forall>j x. Suc i \<le> j \<and> j < Suc i + n \<and> same_page x (v + of_nat (j * 4096)) \<longrightarrow>
          leaf s' x = Inr (((p + of_nat (j * 4096)) AND NOT (mask 12)) OR PRESENT OR fl))
     \<and> (\<forall>x. (\<forall>j. Suc i \<le> j \<and> j < Suc i + n \<longrightarrow> \<not> same_page x (v + of_nat (j * 4096))) \<longrightarrow> leaf s' x = leaf s1 x)"
  proof (rule Suc.IH [OF inv1(1) len])
    show "\<forall>j. Suc i \<le> j \<and> j < Suc i + n \<longrightarrow> leaf s1 (v + of_nat (j * 4096)) = Inl NotMapped"
    proof (intro allI impI)
      fix j assume j: "Suc i \<le> j \<and> j < Suc i + n"
      then have "leaf s1 (v + of_nat (j * 4096)) = leaf s (v + of_nat (j * 4096))"
        unfolding r1(2) using other [of j] by (simp only: if_False)
      with j Suc.prems(6) show "leaf s1 (v + of_nat (j * 4096)) = Inl NotMapped" by simp
    qed
  qed (use Suc.prems(3-5) in simp_all)
  then obtain s' T' k where IH: "map_pages (Suc i) n v p fl s1 = Some (Inr (), s')"
      "pt_inv s' T' (drop k (drop k1 fs))" "k \<le> 3 * n"
    and mapped: "\<And>j x. Suc i \<le> j \<Longrightarrow> j < Suc i + n \<Longrightarrow> same_page x (v + of_nat (j * 4096)) \<Longrightarrow>
          leaf s' x = Inr (((p + of_nat (j * 4096)) AND NOT (mask 12)) OR PRESENT OR fl)"
    and kept: "\<And>x. (\<And>j. Suc i \<le> j \<Longrightarrow> j < Suc i + n \<Longrightarrow> \<not> same_page x (v + of_nat (j * 4096))) \<Longrightarrow> leaf s' x = leaf s1 x"
    by blast
  have first: "leaf s' x = Inr ((?p AND NOT (mask 12)) OR PRESENT OR fl)" if x: "same_page x ?v" for x
  proof -
    have "\<not> same_page x (v + of_nat (j * 4096))" if "Suc i \<le> j" "j < Suc i + n" for j
      using other [OF that] x by (simp add: same_page_def)
    then have "leaf s' x = leaf s1 x" by (rule kept)
    then show ?thesis unfolding r1(2) using x by (simp only: if_True)
  qed
  have "map_pages i (Suc n) v p fl s = Some (Inr (), s')"
    by (simp only: map_pages.simps off vp bind.bind_lunit run r1(1) try_bind_simps IH(1))
  moreover have "pt_inv s' T' (drop (k + k1) fs)" using IH(2) by simp
  moreover have "k + k1 \<le> 3 * Suc n" using IH(3) inv1(2) by simp
  moreover have "\<forall>j x. i \<le> j \<and> j < i + Suc n \<and> same_page x (v + of_nat (j * 4096)) \<longrightarrow>
          leaf s' x = Inr (((p + of_nat (j * 4096)) AND NOT (mask 12)) OR PRESENT OR fl)"
    using first mapped by (metis Suc_leI add_Suc_right add_Suc_shift le_neq_implies_less)
  moreover have "\<forall>x. (\<forall>j. i \<le> j \<and> j < i + Suc n \<longrightarrow> \<not> same_page x (v + of_nat (j * 4096))) \<longrightarrow> leaf s' x = leaf s x"
  proof (intro allI impI)
    fix x assume x: "\<forall>j. i \<le> j \<and> j < i + Suc n \<longrightarrow> \<not> same_page x (v + of_nat (j * 4096))"
    then have "leaf s' x = leaf s1 x" by (intro kept) simp
    moreover have "\<not> same_page x ?v" using x by simp
    ultimately show "leaf s' x = leaf s x" unfolding r1(2) by (simp only: if_False)
  qed
  ultimately show ?case by blast
qed

lemma hhdm_offset_cong: "pt_inv s T fs \<Longrightarrow> pt_inv s' T' fs' \<Longrightarrow> hhdm s' = hhdm s \<Longrightarrow>
    physical_to_virtual s' p = physical_to_virtual s p"
  by (simp add: physical_to_virtual_def hhdm_offset_eq pt_inv_def fa_inv_def free_list_def)

lemma map_mmio_page_cases:
  assumes inv: "pt_inv s T fs" and run: "map_mmio_page a s = Some (v, s')"
  shows "physical_to_virtual s (a AND NOT (mask 12)) = Some (Some v)
    \<and> (\<exists>T' k. pt_inv s' T' (drop k fs)) \<and> hhdm s' = hhdm s
    \<and> (\<exists>pte. leaf s' v = Inr pte)
    \<and> (leaf s v = Inl NotMapped \<longrightarrow>
         leaf s' = (\<lambda>x. if same_page x v then Inr ((a AND NOT (mask 12)) OR PRESENT OR (WRITABLE OR NO_CACHE)) else leaf s x))
    \<and> (leaf s v \<noteq> Inl NotMapped \<longrightarrow> s' = s)"
proof -
  let ?p = "a AND NOT (mask 12)"
  from run obtain w where w: "physical_to_virtual s ?p = Some (Some w)"
    by (auto simp: map_mmio_page_def PAGE_mask Let_def bind_eq_Some_conv)
  from map_page_aux [OF inv, of w ?p "WRITABLE OR NO_CACHE"] obtain r s1 T1 k
    where m: "map_page w ?p (WRITABLE OR NO_CACHE) s = Some (r, s1)" and i: "pt_inv s1 T1 (drop k fs)" "hhdm s1 = hhdm s"
      and c: "r = Inl OutOfFrames
        \<or> (r, leaf s1) = map_spec w (?p OR PRESENT OR (WRITABLE OR NO_CACHE)) (leaf s) \<and> (r \<noteq> Inr () \<longrightarrow> s1 = s)"
    by auto
  have r: "v = w" "s' = s1" "r = Inr () \<or> r = Inl AlreadyMapped"
    using run by (auto simp: map_mmio_page_def PAGE_mask Let_def w m split: sum.splits PagingError.splits)
  from r(3) show ?thesis
  proof
    assume "r = Inr ()"
    with c have "leaf s w = Inl NotMapped"
      "leaf s1 = (\<lambda>x. if same_page x w then Inr (?p OR PRESENT OR (WRITABLE OR NO_CACHE)) else leaf s x)"
      by (auto simp: map_spec_def split: sum.splits if_splits)
    with i w r(1,2) show ?thesis by auto
  next
    assume "r = Inl AlreadyMapped"
    with c have "\<exists>pte. leaf s w = Inr pte" "s1 = s"
      using leaf_not_other [of s w] by (auto simp: map_spec_def split: sum.splits if_splits)
    with i w r(1,2) show ?thesis by auto
  qed
qed

section \<open>An example state\<close>

text \<open>An empty PML4 at \<open>0x1000\<close> and three free frames, for the witnesses.\<close>

definition pg_base :: pgstate where
  "pg_base = \<lparr>ram = (\<lambda>_. 0), hhdm_offset = Some 0xFFFF800000000000, memory_map = None,
     fa_head = Some 0x2000, fa_initialized = True, heap_region = None, cr3 = 0x1000, invlpgs = []\<rparr>"

definition pg_link :: "u64 \<Rightarrow> u64 \<Rightarrow> pgstate \<Rightarrow> pgstate" where
  "pg_link f v s = s\<lparr>ram := wr64 (ram s) (entry_at (f + hhdm s) 0) v\<rparr>"

definition pg_example :: pgstate where
  "pg_example = pg_link 0x4000 NULL_MARK (pg_link 0x3000 0x4000 (pg_link 0x2000 0x3000 pg_base))"

lemma pg_link_upd [simp]:
  "hhdm (pg_link f v s) = hhdm s" "hhdm_ok (pg_link f v s) = hhdm_ok s" "frame_ok (pg_link f v s) = frame_ok s"
  "table_frame (pg_link f v s) = table_frame s" "cr3 (pg_link f v s) = cr3 s" "invlpgs (pg_link f v s) = invlpgs s"
  "fa_head (pg_link f v s) = fa_head s" "fa_initialized (pg_link f v s) = fa_initialized s"
  "hhdm_offset (pg_link f v s) = hhdm_offset s"
  by (simp_all add: pg_link_def)

lemma pg_frames:
  "f \<in> {0x1000, 0x2000, 0x3000, 0x4000} \<Longrightarrow> table_frame pg_base f"
  by (auto simp: table_frame_def frame_ok_def hhdm_ok_def hhdm_def pg_base_def aligned_def mask_eq_exp_minus_1 ADDR_MASK_def)

lemma pg_link_ent:
  "frame_ok s f \<Longrightarrow> frame_ok s u \<Longrightarrow> j < 512 \<Longrightarrow>
     ent (pg_link f v s) u j = (if (u, j) = (f, 0) then v else ent s u j)"
  unfolding pg_link_def by (rule ent_upd) simp_all

lemma pg_example_ent:
  assumes "frame_ok pg_base u" "j < 512"
  shows "ent pg_example u j = (if (u, j) = (0x4000, 0) then NULL_MARK else if (u, j) = (0x3000, 0) then 0x4000
           else if (u, j) = (0x2000, 0) then 0x3000 else 0)"
proof -
  have "ent pg_base u j = 0"
    by (simp add: ent_def pg_base_def rd64_def mem_read_def map_replicate_const)
  moreover have "frame_ok pg_base f" if "f \<in> {0x2000, 0x3000, 0x4000}" for f
    using that pg_frames [of f] by (auto simp: table_frame_def)
  ultimately show ?thesis using assms by (simp add: pg_example_def pg_link_ent)
qed

lemma pg_example_inv: "pt_inv pg_example [[] \<mapsto> 0x1000] [0x2000, 0x3000, 0x4000]"
proof -
  have frm: "frame_ok pg_example = frame_ok pg_base" "table_frame pg_example = table_frame pg_base"
    "hhdm pg_example = hhdm pg_base" "hhdm_ok pg_example = hhdm_ok pg_base"
    by (simp_all add: pg_example_def)
  have fok: "frame_ok pg_base f" if "f \<in> {0x1000, 0x2000, 0x3000, 0x4000}" for f
    using that pg_frames [of f] by (auto simp: table_frame_def)
  have rd: "rd64 (ram pg_example) (f + hhdm pg_base) = ent pg_example f 0" for f
    by (simp add: ent_def entry_at_def frm)
  have "fa_inv pg_example [0x2000, 0x3000, 0x4000]"
    using fok by (simp add: fa_inv_def free_list_def frm rd pg_example_ent next_of_def NULL_MARK_def)
      (simp add: pg_example_def pg_base_def hhdm_ok_def aligned_def mask_eq_exp_minus_1)
  moreover have "tables pg_example [[] \<mapsto> 0x1000]"
  proof -
    have "cr3 pg_example AND ADDR_MASK = 0x1000"
      by (simp add: pg_example_def pg_base_def ADDR_MASK_def)
    moreover have "ent pg_example 0x1000 i = 0" if "i < 512" for i
      using pg_frames [of "0x1000"] that by (simp add: pg_example_ent table_frame_def)
    ultimately show ?thesis
      using pg_frames [of "0x1000"] by (simp add: tables_def frm)
  qed
  ultimately show ?thesis using pg_frames by (simp add: pt_inv_def frm)
qed

lemma pg_example_leaf: "leaf pg_example v = Inl NotMapped"
proof -
  obtain a b c d where v: "path v = [a, b, c, d]" "a < 512" by (rule path_cases)
  have "ent pg_example 0x1000 a = 0"
    using pg_example_ent [of "0x1000" a] pg_frames [of "0x1000"] v(2) by (simp add: table_frame_def)
  moreover have "cr3 pg_example AND ADDR_MASK = 0x1000"
    by (simp add: pg_example_def) (simp add: pg_base_def ADDR_MASK_def)
  ultimately show ?thesis by (simp add: leaf_def v(1))
qed

lemma pg_example_p2v: "physical_to_virtual pg_example 0xFEE00000 = Some (Some 0xFFFF8000FEE00000)"
  by (simp add: pg_example_def physical_to_virtual_def) (simp add: pg_base_def checked_add_def)

section \<open>Properties\<close>

text \<open>
  Two virtual addresses have the same four table indices exactly when they lie in the
  same 4 KiB page of the 48-bit address space.
\<close>

theorem table_indices_same_page: "table_indices v = table_indices w \<longleftrightarrow> same_page v w"
  unfolding path_eq_iff [symmetric] by (auto simp: path_def split: prod.splits)

text \<open>
  Property C1. \<open>map_page\<close> implements its contract on the abstract mapping: a page without a mapping gets
  the new entry, flushed from the TLB, and every other address keeps its translation; a page that is
  mapped, or lies below a huge page, is refused with the state unchanged. It may fail for want of
  frames only with fewer than three of them free, and then changes no translation.
\<close>

theorem map_page_refines:
  assumes "pt_inv s T fs"
  shows "\<exists>r s' T' k. map_page v p fl s = Some (r, s') \<and> pt_inv s' T' (drop k fs) \<and> k \<le> 3
    \<and> (r = Inl OutOfFrames \<and> length fs < 3 \<and> leaf s v = Inl NotMapped \<and> leaf s' = leaf s \<and> invlpgs s' = invlpgs s
       \<or> (r, leaf s') = map_spec v ((p AND NOT (mask 12)) OR PRESENT OR fl) (leaf s)
          \<and> (if r = Inr () then invlpgs s' = invlpgs s @ [v AND NOT (mask 12)] else s' = s))"
  using map_page_aux [OF assms, of v p fl] by blast

theorem map_page_refines_witness:
  "\<exists>s'. map_page 0x400000 0x5000 WRITABLE pg_example = Some (Inr (), s') \<and> invlpgs s' = [0x400000]
     \<and> leaf s' 0x400123 = Inr 0x5003 \<and> leaf s' 0x401000 = Inl NotMapped"
proof -
  have "mask 12 = (4095 :: u64)" "same_page 0x400123 0x400000" "\<not> same_page 0x401000 0x400000"
    by (simp_all add: mask_eq_exp_minus_1 same_page_unat)
  moreover have "invlpgs pg_example = []" by (simp add: pg_example_def) (simp add: pg_base_def)
  ultimately show ?thesis
    using map_page_refines [OF pg_example_inv, of "0x400000" "0x5000" WRITABLE]
    by (auto simp: map_spec_def pg_example_leaf PRESENT_def WRITABLE_def)
qed

text \<open>
  Property C20. \<open>unmap_page\<close> implements its contract: it returns the physical address of the page it
  removes, flushes the page and changes no other translation; without a mapping it returns the error
  and leaves the state as it was. No table is created or freed.
\<close>

theorem unmap_page_refines:
  assumes "pt_inv s T fs"
  shows "\<exists>r s'. unmap_page v s = Some (r, s') \<and> pt_inv s' T fs \<and> (r, leaf s') = unmap_spec v (leaf s)
    \<and> invlpgs s' = invlpgs s @ (case r of Inr _ \<Rightarrow> [v AND NOT (mask 12)] | Inl _ \<Rightarrow> [])
    \<and> (\<forall>e. r = Inl e \<longrightarrow> s' = s)"
  using assms by (rule unmap_page_aux)

theorem unmap_page_refines_witness:
  "unmap_page 0x400000 pg_example = Some (Inl NotMapped, pg_example)"
  using unmap_page_refines [OF pg_example_inv, of "0x400000"] by (auto simp: unmap_spec_def pg_example_leaf)

text \<open>
  Property C21. After a successful \<open>map_page\<close> of a physical address below \<open>2 ^ 52\<close>, \<open>translate\<close> takes
  every address of the page to the byte of the physical page at the same offset.
\<close>

theorem map_page_then_translate:
  assumes inv: "pt_inv s T fs" and run: "map_page v p fl s = Some (Inr (), s')"
    and p: "p < 2 ^ 52" and fl: "fl AND ADDR_MASK = 0" and x: "same_page x v"
  shows "translate x s' = Some (Inr ((p AND NOT (mask 12)) + (x AND mask 12)), s')"
proof -
  let ?w = "(p AND NOT (mask 12)) OR PRESENT OR fl"
  from map_page_aux [OF inv, of v p fl] run obtain T' k
    where inv': "pt_inv s' T' (drop k fs)" and "(Inr (), leaf s') = map_spec v ?w (leaf s)" by auto
  then have "leaf s' x = Inr ?w"
    using x by (auto simp: map_spec_def split: sum.splits if_splits)
  moreover have "?w AND ADDR_MASK = p AND NOT (mask 12)"
  proof -
    have "(p AND NOT (mask 12)) AND ADDR_MASK = p AND NOT (mask 12)"
    proof (rule bit_word_eqI)
      fix n :: nat assume "n < LENGTH(64)"
      have am: "ADDR_MASK = mask 52 AND NOT (mask 12)"
        by (simp add: ADDR_MASK_def mask_eq_exp_minus_1)
      have "bit ADDR_MASK n \<longleftrightarrow> n < 52 \<and> \<not> n < 12"
        unfolding am using \<open>n < LENGTH(64)\<close> by (auto simp: bit_simps)
      moreover have "take_bit 52 p = p"
      proof -
        have "unat p < 2 ^ 52" using p by (simp add: word_less_nat_alt)
        then have "take_bit 52 (unat p) = unat p"
          by (simp only: take_bit_eq_mod mod_less)
        then have "unat (take_bit 52 p) = unat p"
          by (simp only: unsigned_take_bit_eq)
        then show ?thesis by (simp only: word_unat_eq_iff)
      qed
      ultimately show "bit ((p AND NOT (mask 12)) AND ADDR_MASK) n = bit (p AND NOT (mask 12)) n"
        by (simp only: bit_and_iff bit_not_iff bit_mask_iff) (metis bit_take_bit_iff possible_bit_word)
    qed
    then show ?thesis using fl by (simp add: bit.conj_disj_distrib2) (simp add: PRESENT_def ADDR_MASK_def)
  qed
  ultimately show ?thesis by (simp add: translate_aux [OF inv'])
qed

theorem map_page_then_translate_witness:
  "\<exists>s' :: pgstate. translate 0x400123 s' = Some (Inr 0x5123, s')"
proof -
  obtain r s' where "map_page 0x400000 0x5000 WRITABLE pg_example = Some (r, s')" "r = Inr ()"
    using map_page_aux [OF pg_example_inv, of "0x400000" "0x5000" WRITABLE]
    by (auto simp: map_spec_def pg_example_leaf)
  then have run: "map_page 0x400000 0x5000 WRITABLE pg_example = Some (Inr (), s')" by simp
  have "translate 0x400123 s' = Some (Inr ((0x5000 AND NOT (mask 12)) + (0x400123 AND mask 12)), s')"
    by (rule map_page_then_translate [OF pg_example_inv run])
      (simp_all add: WRITABLE_def ADDR_MASK_def same_page_unat)
  then show ?thesis by (simp add: mask_eq_exp_minus_1) blast
qed

text \<open>
  Property C22. \<open>map_range\<close> over pages that are all unmapped, with three frames free for each of them,
  maps every page of the range to the page of the physical range at the same offset and changes no
  other translation.
\<close>

theorem map_range_maps_all:
  assumes "pt_inv s T fs" and n: "n = unat (div_ceil len PAGE_SIZE)" and "3 * n \<le> length fs"
    and "unat v + n * 4096 < 2 ^ 64" and "unat p + n * 4096 < 2 ^ 64" and "n \<le> 2 ^ 36"
    and "\<And>j. j < n \<Longrightarrow> leaf s (v + of_nat (j * 4096)) = Inl NotMapped"
  shows "\<exists>s' T' k. map_range v p len fl s = Some (Inr (), s') \<and> pt_inv s' T' (drop k fs) \<and> k \<le> 3 * n
     \<and> (\<forall>j x. j < n \<and> same_page x (v + of_nat (j * 4096)) \<longrightarrow>
          leaf s' x = Inr (((p + of_nat (j * 4096)) AND NOT (mask 12)) OR PRESENT OR fl))
     \<and> (\<forall>x. (\<forall>j<n. \<not> same_page x (v + of_nat (j * 4096))) \<longrightarrow> leaf s' x = leaf s x)"
  using map_pages_aux [OF assms(1,3), of v 0 p fl] assms(4-7) unfolding map_range_def n [symmetric] by simp

theorem map_range_maps_all_witness:
  "\<exists>s'. map_range 0x400000 0x5000 0x800 WRITABLE pg_example = Some (Inr (), s') \<and> leaf s' 0x400123 = Inr 0x5003"
proof -
  have n: "1 = unat (div_ceil 0x800 PAGE_SIZE)" by (simp add: div_ceil_def PAGE_SIZE_def)
  have "\<exists>s' T' k. map_range 0x400000 0x5000 0x800 WRITABLE pg_example = Some (Inr (), s')
     \<and> pt_inv s' T' (drop k [0x2000, 0x3000, 0x4000]) \<and> k \<le> 3 * 1
     \<and> (\<forall>j x. j < 1 \<and> same_page x (0x400000 + of_nat (j * 4096)) \<longrightarrow>
          leaf s' x = Inr (((0x5000 + of_nat (j * 4096)) AND NOT (mask 12)) OR PRESENT OR WRITABLE))
     \<and> (\<forall>x. (\<forall>j<1. \<not> same_page x (0x400000 + of_nat (j * 4096))) \<longrightarrow> leaf s' x = leaf pg_example x)"
    by (rule map_range_maps_all [OF pg_example_inv n]) (simp_all add: pg_example_leaf)
  moreover have "same_page 0x400123 0x400000" by (simp add: same_page_unat)
  ultimately show ?thesis by (auto simp: mask_eq_exp_minus_1 PRESENT_def WRITABLE_def)
qed

text \<open>
  \<open>map_mmio_page\<close> returns the HHDM address of the page with that page mapped, and calling
  it again returns the same address without changing anything.
\<close>

theorem map_mmio_page_idempotent:
  assumes inv: "pt_inv s T fs" and run: "map_mmio_page a s = Some (v, s')"
  shows "v = (a AND NOT (mask 12)) + hhdm s \<and> (\<exists>pte. leaf s' v = Inr pte) \<and> map_mmio_page a s' = Some (v, s')"
proof -
  note c = map_mmio_page_cases [OF assms]
  then obtain T' k pte where inv': "pt_inv s' T' (drop k fs)" and h: "hhdm s' = hhdm s" and l: "leaf s' v = Inr pte"
    and v: "physical_to_virtual s (a AND NOT (mask 12)) = Some (Some v)"
    by blast
  have v': "physical_to_virtual s' (a AND NOT (mask 12)) = Some (Some v)"
    using v hhdm_offset_cong [OF inv inv' h] by simp
  obtain r s1 where m: "map_page v (a AND NOT (mask 12)) (WRITABLE OR NO_CACHE) s' = Some (r, s1)"
      "r = Inl AlreadyMapped" "s1 = s'"
    using map_page_aux [OF inv', of v "a AND NOT (mask 12)" "WRITABLE OR NO_CACHE"] l by (auto simp: map_spec_def)
  have "map_mmio_page a s' = Some (v, s')"
    by (simp add: map_mmio_page_def PAGE_mask Let_def v' m)
  moreover have "v = (a AND NOT (mask 12)) + hhdm s"
    using v inv by (auto simp: physical_to_virtual_def hhdm_offset_eq pt_inv_def fa_inv_def free_list_def
        bind_eq_Some_conv dest: checked_add_Some_value)
  ultimately show ?thesis using l by blast
qed

lemma pg_example_mmio: "\<exists>s'. map_mmio_page 0xFEE00020 pg_example = Some (0xFFFF8000FEE00000, s')"
proof -
  obtain r s' where "map_page 0xFFFF8000FEE00000 0xFEE00000 (WRITABLE OR NO_CACHE) pg_example = Some (r, s')"
      "r = Inr ()"
    using map_page_aux [OF pg_example_inv, of "0xFFFF8000FEE00000" "0xFEE00000" "WRITABLE OR NO_CACHE"]
    by (auto simp: map_spec_def pg_example_leaf)
  then show ?thesis
    using pg_example_p2v by (simp add: map_mmio_page_def PAGE_mask Let_def mask_eq_exp_minus_1)
qed

theorem map_mmio_page_idempotent_witness:
  "\<exists>s'. map_mmio_page 0xFEE00020 pg_example = Some (0xFFFF8000FEE00000, s')
      \<and> map_mmio_page 0xFEE00020 s' = Some (0xFFFF8000FEE00000, s')"
  using map_mmio_page_idempotent [OF pg_example_inv] pg_example_mmio by blast

text \<open>
  Property C39. When the first page of an MMIO region is mapped already, \<open>map_mmio_range\<close> returns the
  address of the region as if it had succeeded and maps nothing, so that the pages of the region that
  were not mapped stay so.
\<close>

theorem map_mmio_range_stops_early:
  assumes inv: "pt_inv s T fs" and v: "physical_to_virtual s (a AND NOT (mask 12)) = Some (Some v)"
    and first: "leaf s v = Inr pte" and len: "0 < len"
  shows "map_mmio_range a len s = Some (v, s)"
proof -
  have "div_ceil len PAGE_SIZE \<noteq> 0"
  proof -
    have "len \<noteq> 0" using len by auto
    then have "len div 4096 \<noteq> 0" if "len mod 4096 = 0"
      using that div_mult_mod_eq [of len 4096] by auto
    moreover have "len div 4096 + 1 \<noteq> 0"
    proof
      assume "len div 4096 + 1 = 0"
      then have "unat (len div 4096) = unat (- 1 :: u64)"
        by (metis add.inverse_unique add.commute)
      moreover have "unat (len div 4096) < 2 ^ 52"
        unfolding unat_div using unsigned_less [of len, where 'a = nat] by (simp add: div_less_iff_less_mult)
      ultimately show False by (simp add: unsigned_minus_1_eq_mask mask_eq_exp_minus_1)
    qed
    ultimately show ?thesis by (simp add: div_ceil_def PAGE_SIZE_def)
  qed
  then obtain n where n: "unat (div_ceil len PAGE_SIZE) = Suc n"
    by (metis not0_implies_Suc unat_eq_zero)
  let ?p = "a AND NOT (mask 12)"
  obtain r s1 where m: "map_page v ?p (WRITABLE OR NO_CACHE) s = Some (r, s1)" "r = Inl AlreadyMapped" "s1 = s"
    using map_page_aux [OF inv, of v ?p "WRITABLE OR NO_CACHE"] first by (auto simp: map_spec_def)
  have "checked_mul 0 PAGE_SIZE = Some 0" by (simp add: checked_mul_def)
  moreover have "checked_add x 0 = Some x" for x :: u64 by (simp add: checked_simps)
  ultimately show ?thesis
    by (simp add: map_mmio_range_def map_range_def n PAGE_mask Let_def v m)
qed

theorem map_mmio_range_stops_early_witness:
  "\<exists>s :: pgstate. leaf s 0xFFFF8000FEE01000 = Inl NotMapped \<and> map_mmio_range 0xFEE00000 0x2000 s = Some (0xFFFF8000FEE00000, s)"
proof -
  obtain s where run: "map_mmio_page 0xFEE00020 pg_example = Some (0xFFFF8000FEE00000, s)"
    using pg_example_mmio by blast
  note c = map_mmio_page_cases [OF pg_example_inv run]
  then obtain T' k pte where inv: "pt_inv s T' (drop k [0x2000, 0x3000, 0x4000])" and l: "leaf s 0xFFFF8000FEE00000 = Inr pte"
      and h: "hhdm s = hhdm pg_example" by blast
  have "physical_to_virtual s (0xFEE00000 AND NOT (mask 12)) = Some (Some 0xFFFF8000FEE00000)"
    using pg_example_p2v hhdm_offset_cong [OF pg_example_inv inv h] by (simp add: mask_eq_exp_minus_1)
  from map_mmio_range_stops_early [OF inv this l]
  have "map_mmio_range 0xFEE00000 0x2000 s = Some (0xFFFF8000FEE00000, s)" by simp
  moreover have "\<not> same_page 0xFFFF8000FEE01000 0xFFFF8000FEE00000" by (simp add: same_page_unat)
  moreover have "leaf s = (\<lambda>x. if same_page x 0xFFFF8000FEE00000
      then Inr ((0xFEE00020 AND NOT (mask 12)) OR PRESENT OR (WRITABLE OR NO_CACHE)) else leaf pg_example x)"
    using c pg_example_leaf by blast
  ultimately have "leaf s 0xFFFF8000FEE01000 = Inl NotMapped"
    by (simp only: if_False pg_example_leaf)
  then show ?thesis using \<open>map_mmio_range 0xFEE00000 0x2000 s = _\<close> by blast
qed

end
