(* ===== verification/Xhci.thy ===== *)
theory Xhci
  imports Trb_Ring Pci Paging
begin

text \<open>
  \<^verbatim>\<open>kernel/src/usb/xhci.rs\<close>, the transport: the driver state \<open>struct XHCI\<close>, the register views, the
  command, control, transfer and event rings, and the initialisation of the controller. The statics of
  the USB modules that the interrupt handler shares with the rest of the kernel are fields of \<open>kernel\<close>.
  Methods with \<open>&mut self\<close> take the driver state and return it; \<open>XHCI_INSTANCE\<close> holds it once it is
  published.
\<close>

record XHCI =
  xbar :: BarInfo
  virt_base :: u64
  event_ring_virt :: u64
  event_ring_phys :: u64
  dequeue_index :: nat
  cycle_state :: bool
  last_completion :: "(u32 \<times> u32) option"
  cmd_ring_virt :: u64
  cmd_ring_phys :: u64
  cmd_enqueue_index :: nat
  cmd_cycle_state :: bool
  dcbaa_virt :: u64
  ep0_ring_virt :: u64
  ep0_ring_phys :: u64
  ep0_enqueue_index :: nat
  ep0_cycle_state :: bool

record 'h kernel = pgstate +
  outside :: 'h
  xhci_instance :: "XHCI option"
  completion_pending :: bool
  completion_code :: u32
  completion_slot :: u32
  transfer_completion_pending :: bool
  transfer_completion_code :: u32
  transfer_completion_length :: u32
  port_change_pending :: bool
  kbd_dci :: u32
  kbd_slot_id :: u32
  kbd_report_pending :: bool
  kbd_report_len :: u32
  mouse_dci :: u32
  mouse_slot_id :: u32
  mouse_report_pending :: bool
  mouse_report_len :: u32

section \<open>Device registers and the heap\<close>

definition mmio_read8 :: "('h, 'e) machine_scheme \<Rightarrow> u64 \<Rightarrow> ('h, 'z) kernel_scheme \<Rightarrow> u8 \<times> ('h, 'z) kernel_scheme" where
  "mmio_read8 io a s = (let (v, h) = mrd8 io a (outside s) in (v, s\<lparr>outside := h\<rparr>))"

definition mmio_read32 :: "('h, 'e) machine_scheme \<Rightarrow> u64 \<Rightarrow> ('h, 'z) kernel_scheme \<Rightarrow> u32 \<times> ('h, 'z) kernel_scheme" where
  "mmio_read32 io a s = (let (v, h) = mrd32 io a (outside s) in (v, s\<lparr>outside := h\<rparr>))"

definition mmio_write32 :: "('h, 'e) machine_scheme \<Rightarrow> u64 \<Rightarrow> u32 \<Rightarrow> ('h, 'z) kernel_scheme \<Rightarrow> ('h, 'z) kernel_scheme" where
  "mmio_write32 io a v s = s\<lparr>outside := mwr32 io a v (outside s)\<rparr>"

definition mmio_write64 :: "('h, 'e) machine_scheme \<Rightarrow> u64 \<Rightarrow> u64 \<Rightarrow> ('h, 'z) kernel_scheme \<Rightarrow> ('h, 'z) kernel_scheme" where
  "mmio_write64 io a v s = s\<lparr>outside := mwr64 io a v (outside s)\<rparr>"

text \<open>\<open>Box::into_raw(Box::new(..))\<close> of a type of \<open>n\<close> zero bytes with the given alignment.\<close>

definition box_zeroed :: "('h, 'e) machine_scheme \<Rightarrow> nat \<Rightarrow> nat \<Rightarrow> ('h, 'z) kernel_scheme \<Rightarrow> (u64 \<times> ('h, 'z) kernel_scheme) option" where
  "box_zeroed io n al s = do {
     (a, h) \<leftarrow> heap_alloc io n al (outside s);
     Some (a, s\<lparr>outside := h, ram := mem_fill (ram s) a 0 n\<rparr>)
   }"

definition phys_unwrap :: "u64 \<Rightarrow> ('h, 'z) kernel_scheme \<Rightarrow> u64 option" where
  "phys_unwrap v s = do { p \<leftarrow> virtual_to_physical s v; p }"

definition cap_length :: "('h, 'e) machine_scheme \<Rightarrow> XHCI \<Rightarrow> ('h, 'z) kernel_scheme \<Rightarrow> u8 \<times> ('h, 'z) kernel_scheme" where
  "cap_length io x s = mmio_read8 io (virt_base x) s"

definition hcsparams1 :: "('h, 'e) machine_scheme \<Rightarrow> XHCI \<Rightarrow> ('h, 'z) kernel_scheme \<Rightarrow> u32 \<times> ('h, 'z) kernel_scheme" where
  "hcsparams1 io x s = mmio_read32 io (virt_base x + 0x04) s"

definition max_slots :: "('h, 'e) machine_scheme \<Rightarrow> XHCI \<Rightarrow> ('h, 'z) kernel_scheme \<Rightarrow> u8 \<times> ('h, 'z) kernel_scheme" where
  "max_slots io x s = (let (v, s) = hcsparams1 io x s in (ucast (v AND 0xFF), s))"

definition max_ports :: "('h, 'e) machine_scheme \<Rightarrow> XHCI \<Rightarrow> ('h, 'z) kernel_scheme \<Rightarrow> u8 \<times> ('h, 'z) kernel_scheme" where
  "max_ports io x s = (let (v, s) = hcsparams1 io x s in (ucast (drop_bit 24 v AND 0xFF), s))"

definition rtsoff :: "('h, 'e) machine_scheme \<Rightarrow> XHCI \<Rightarrow> ('h, 'z) kernel_scheme \<Rightarrow> u32 \<times> ('h, 'z) kernel_scheme" where
  "rtsoff io x s = (let (v, s) = mmio_read32 io (virt_base x + 0x18) s in (v AND NOT 0x1F, s))"

definition dboff :: "('h, 'e) machine_scheme \<Rightarrow> XHCI \<Rightarrow> ('h, 'z) kernel_scheme \<Rightarrow> u32 \<times> ('h, 'z) kernel_scheme" where
  "dboff io x s = (let (v, s) = mmio_read32 io (virt_base x + 0x14) s in (v AND NOT 0x3, s))"

text \<open>The base of the operational registers and of the registers of interrupter 0.\<close>

definition op_regs :: "('h, 'e) machine_scheme \<Rightarrow> XHCI \<Rightarrow> ('h, 'z) kernel_scheme \<Rightarrow> u64 \<times> ('h, 'z) kernel_scheme" where
  "op_regs io x s = (let (n, s) = cap_length io x s in (virt_base x + ucast n, s))"

definition interrupter0 :: "('h, 'e) machine_scheme \<Rightarrow> XHCI \<Rightarrow> ('h, 'z) kernel_scheme \<Rightarrow> (u64 \<times> ('h, 'z) kernel_scheme) option" where
  "interrupter0 io x s =
     (let (off, s) = rtsoff io x s in do {
        rt_base \<leftarrow> checked_add (virt_base x) (ucast off);
        ir0_base \<leftarrow> checked_add rt_base 0x20;
        Some (ir0_base, s)
      })"

definition read_usbcmd :: "('h, 'e) machine_scheme \<Rightarrow> u64 \<Rightarrow> ('h, 'z) kernel_scheme \<Rightarrow> u32 \<times> ('h, 'z) kernel_scheme" where
  "read_usbcmd io op s = mmio_read32 io op s"

definition write_usbcmd :: "('h, 'e) machine_scheme \<Rightarrow> u64 \<Rightarrow> u32 \<Rightarrow> ('h, 'z) kernel_scheme \<Rightarrow> ('h, 'z) kernel_scheme" where
  "write_usbcmd io op v s = mmio_write32 io op v s"

definition read_usbsts :: "('h, 'e) machine_scheme \<Rightarrow> u64 \<Rightarrow> ('h, 'z) kernel_scheme \<Rightarrow> u32 \<times> ('h, 'z) kernel_scheme" where
  "read_usbsts io op s = mmio_read32 io (op + 0x04) s"

definition write_config :: "('h, 'e) machine_scheme \<Rightarrow> u64 \<Rightarrow> u32 \<Rightarrow> ('h, 'z) kernel_scheme \<Rightarrow> ('h, 'z) kernel_scheme" where
  "write_config io op v s = mmio_write32 io (op + 0x38) v s"

definition write_dcbaap :: "('h, 'e) machine_scheme \<Rightarrow> u64 \<Rightarrow> u64 \<Rightarrow> ('h, 'z) kernel_scheme \<Rightarrow> ('h, 'z) kernel_scheme" where
  "write_dcbaap io op v s = mmio_write64 io (op + 0x30) v s"

definition write_crcr :: "('h, 'e) machine_scheme \<Rightarrow> u64 \<Rightarrow> u64 \<Rightarrow> ('h, 'z) kernel_scheme \<Rightarrow> ('h, 'z) kernel_scheme" where
  "write_crcr io op v s = mmio_write64 io (op + 0x18) v s"

definition read_portsc :: "('h, 'e) machine_scheme \<Rightarrow> u64 \<Rightarrow> u8 \<Rightarrow> ('h, 'z) kernel_scheme \<Rightarrow> u32 \<times> ('h, 'z) kernel_scheme" where
  "read_portsc io op port s = mmio_read32 io (op + (0x400 + ucast port * 0x10)) s"

definition write_erdp :: "('h, 'e) machine_scheme \<Rightarrow> u64 \<Rightarrow> u64 \<Rightarrow> ('h, 'z) kernel_scheme \<Rightarrow> ('h, 'z) kernel_scheme" where
  "write_erdp io ir0 v s = mmio_write64 io (ir0 + 0x18) v s"

definition write_iman :: "('h, 'e) machine_scheme \<Rightarrow> u64 \<Rightarrow> u32 \<Rightarrow> ('h, 'z) kernel_scheme \<Rightarrow> ('h, 'z) kernel_scheme" where
  "write_iman io ir0 v s = mmio_write32 io ir0 v s"

definition read_iman :: "('h, 'e) machine_scheme \<Rightarrow> u64 \<Rightarrow> ('h, 'z) kernel_scheme \<Rightarrow> u32 \<times> ('h, 'z) kernel_scheme" where
  "read_iman io ir0 s = mmio_read32 io ir0 s"

definition write_erstsz :: "('h, 'e) machine_scheme \<Rightarrow> u64 \<Rightarrow> u32 \<Rightarrow> ('h, 'z) kernel_scheme \<Rightarrow> ('h, 'z) kernel_scheme" where
  "write_erstsz io ir0 v s = mmio_write32 io (ir0 + 0x08) v s"

definition write_erstba :: "('h, 'e) machine_scheme \<Rightarrow> u64 \<Rightarrow> u64 \<Rightarrow> ('h, 'z) kernel_scheme \<Rightarrow> ('h, 'z) kernel_scheme" where
  "write_erstba io ir0 v s = mmio_write64 io (ir0 + 0x10) v s"

text \<open>Registers the source has accessors for and does not use.\<close>

definition hccparams1 :: "('h, 'e) machine_scheme \<Rightarrow> XHCI \<Rightarrow> ('h, 'z) kernel_scheme \<Rightarrow> u32 \<times> ('h, 'z) kernel_scheme" where
  "hccparams1 io x s = mmio_read32 io (virt_base x + 0x10) s"

definition supports_64bit :: "('h, 'e) machine_scheme \<Rightarrow> XHCI \<Rightarrow> ('h, 'z) kernel_scheme \<Rightarrow> bool \<times> ('h, 'z) kernel_scheme" where
  "supports_64bit io x s = (let (v, s) = hccparams1 io x s in (v AND 0x1 = 1, s))"

definition context_size_64 :: "('h, 'e) machine_scheme \<Rightarrow> XHCI \<Rightarrow> ('h, 'z) kernel_scheme \<Rightarrow> bool \<times> ('h, 'z) kernel_scheme" where
  "context_size_64 io x s = (let (v, s) = hccparams1 io x s in (drop_bit 2 v AND 0x1 = 1, s))"

definition write_usbsts :: "('h, 'e) machine_scheme \<Rightarrow> u64 \<Rightarrow> u32 \<Rightarrow> ('h, 'z) kernel_scheme \<Rightarrow> ('h, 'z) kernel_scheme" where
  "write_usbsts io op v s = mmio_write32 io (op + 0x04) v s"

definition write_portsc :: "('h, 'e) machine_scheme \<Rightarrow> u64 \<Rightarrow> u8 \<Rightarrow> u32 \<Rightarrow> ('h, 'z) kernel_scheme \<Rightarrow> ('h, 'z) kernel_scheme" where
  "write_portsc io op port v s = mmio_write32 io (op + (0x400 + ucast port * 0x10)) v s"

definition write_imod :: "('h, 'e) machine_scheme \<Rightarrow> u64 \<Rightarrow> u32 \<Rightarrow> ('h, 'z) kernel_scheme \<Rightarrow> ('h, 'z) kernel_scheme" where
  "write_imod io ir0 v s = mmio_write32 io (ir0 + 0x04) v s"

section \<open>The event ring\<close>

definition EVENT_RING_SIZE :: nat where "EVENT_RING_SIZE = 32"
definition COMMAND_RING_SIZE :: nat where "COMMAND_RING_SIZE = 32"
definition CONTROL_RING_SIZE :: nat where "CONTROL_RING_SIZE = 16"

definition dispatch_event :: "Trb \<Rightarrow> ('h, 'z) kernel_scheme \<Rightarrow> ('h, 'z) kernel_scheme" where
  "dispatch_event trb s =
     (let ty = drop_bit 10 (control trb) AND 0x3F in
      if ty = 34 then s\<lparr>port_change_pending := True\<rparr>
      else if ty = 33 then
        s\<lparr>completion_code := drop_bit 24 (status trb) AND 0xFF,
          completion_slot := drop_bit 24 (control trb) AND 0xFF,
          completion_pending := True\<rparr>
      else if ty = 32 then
        let code = drop_bit 24 (status trb) AND 0xFF;
            residual_length = status trb AND 0xFFFFFF;
            endpoint_id = drop_bit 16 (control trb) AND 0x1F;
            event_slot_id = drop_bit 24 (control trb) AND 0xFF
        in
        if kbd_dci s \<noteq> 0 \<and> event_slot_id = kbd_slot_id s \<and> endpoint_id = kbd_dci s then
          s\<lparr>kbd_report_len := residual_length, kbd_report_pending := True\<rparr>
        else if mouse_dci s \<noteq> 0 \<and> event_slot_id = mouse_slot_id s \<and> endpoint_id = mouse_dci s then
          s\<lparr>mouse_report_len := residual_length, mouse_report_pending := True\<rparr>
        else
          s\<lparr>transfer_completion_code := code, transfer_completion_length := residual_length,
            transfer_completion_pending := True\<rparr>
      else s)"

definition advance_dequeue :: "XHCI \<Rightarrow> XHCI" where
  "advance_dequeue x =
     (let x = x\<lparr>dequeue_index := dequeue_index x + 1\<rparr> in
      if dequeue_index x \<ge> EVENT_RING_SIZE then x\<lparr>dequeue_index := 0, cycle_state := \<not> cycle_state x\<rparr> else x)"

definition poll_event_ring :: "('h, 'e) machine_scheme \<Rightarrow> XHCI \<Rightarrow> ('h, 'z) kernel_scheme \<Rightarrow> (XHCI \<times> ('h, 'z) kernel_scheme) option" where
  "poll_event_ring io x s =
     (let trb = trb_read (ram s) (trb_slot (event_ring_virt x) (dequeue_index x)) in
      if (control trb AND 0x1 \<noteq> 0) \<noteq> cycle_state x then Some (x, s)
      else
        let s = dispatch_event trb s; x = advance_dequeue x in do {
          new_erdp \<leftarrow> checked_add (event_ring_phys x) (of_nat (dequeue_index x) * 16);
          (ir0, s) \<leftarrow> interrupter0 io x s;
          Some (x, write_erdp io ir0 (new_erdp OR push_bit 3 1) s)
        })"

section \<open>The rings the driver fills\<close>

definition ring_doorbell :: "('h, 'e) machine_scheme \<Rightarrow> XHCI \<Rightarrow> u8 \<Rightarrow> u32 \<Rightarrow> ('h, 'z) kernel_scheme \<Rightarrow> ('h, 'z) kernel_scheme option" where
  "ring_doorbell io x slot v s =
     (let (off, s) = dboff io x s in do {
        db_base \<leftarrow> checked_add (virt_base x) (ucast off);
        db_ptr \<leftarrow> checked_add db_base (ucast slot * 4);
        Some (mmio_write32 io db_ptr v s)
      })"

definition ep0_enqueue_trb :: "u64 \<Rightarrow> u32 \<Rightarrow> u32 \<Rightarrow> XHCI \<times> ('h, 'z) kernel_scheme \<Rightarrow> XHCI \<times> ('h, 'z) kernel_scheme" where
  "ep0_enqueue_trb param stat control_no_cycle = (\<lambda>(x, s).
     let ctl = control_no_cycle OR bool_u32 (ep0_cycle_state x);
         s = s\<lparr>ram := trb_write (ram s) (trb_slot (ep0_ring_virt x) (ep0_enqueue_index x))
                         \<lparr>parameter = param, status = stat, control = ctl\<rparr>\<rparr>;
         x = x\<lparr>ep0_enqueue_index := ep0_enqueue_index x + 1\<rparr>
     in (if ep0_enqueue_index x \<ge> CONTROL_RING_SIZE - 1
         then x\<lparr>ep0_enqueue_index := 0, ep0_cycle_state := \<not> ep0_cycle_state x\<rparr> else x, s))"

text \<open>\<open>send_command\<close> up to the doorbell, and with it.\<close>

definition enqueue_command :: "u64 \<Rightarrow> u32 \<Rightarrow> u32 \<Rightarrow> u32 \<Rightarrow> XHCI \<times> ('h, 'z) kernel_scheme \<Rightarrow> XHCI \<times> ('h, 'z) kernel_scheme" where
  "enqueue_command param stat ty slot_id = (\<lambda>(x, s).
     let ctl = push_bit 10 ty OR bool_u32 (cmd_cycle_state x) OR push_bit 24 slot_id;
         s = s\<lparr>ram := trb_write (ram s) (trb_slot (cmd_ring_virt x) (cmd_enqueue_index x))
                         \<lparr>parameter = param, status = stat, control = ctl\<rparr>\<rparr>;
         x = x\<lparr>cmd_enqueue_index := cmd_enqueue_index x + 1\<rparr>
     in (if cmd_enqueue_index x \<ge> COMMAND_RING_SIZE - 1
         then x\<lparr>cmd_enqueue_index := 0, cmd_cycle_state := \<not> cmd_cycle_state x\<rparr> else x, s))"

definition send_command :: "('h, 'e) machine_scheme \<Rightarrow> u64 \<Rightarrow> u32 \<Rightarrow> u32 \<Rightarrow> u32 \<Rightarrow> XHCI \<Rightarrow> ('h, 'z) kernel_scheme \<Rightarrow> (XHCI \<times> ('h, 'z) kernel_scheme) option" where
  "send_command io param stat ty slot_id x s = do {
     let (x, s) = enqueue_command param stat ty slot_id (x, s);
     s \<leftarrow> ring_doorbell io x 0 0 s;
     Some (x, s)
   }"

definition TRB_TYPE_NORMAL :: u32 where "TRB_TYPE_NORMAL = 1"

text \<open>
  \<open>enqueue_normal_trb_and_ring\<close> up to the doorbell: the ring of a device-class driver with its enqueue
  index and cycle state.
\<close>

definition enqueue_normal_trb :: "u64 \<Rightarrow> u64 \<Rightarrow> nat \<Rightarrow> u64 \<Rightarrow> u32 \<Rightarrow> nat \<times> bool \<times> mem \<Rightarrow> nat \<times> bool \<times> mem" where
  "enqueue_normal_trb ring_virt ring_phys ring_size buf_phys len = (\<lambda>(i, c, m).
     let ctl = push_bit 10 TRB_TYPE_NORMAL OR push_bit 5 1 OR bool_u32 c;
         m = trb_write m (trb_slot ring_virt i)
               \<lparr>parameter = buf_phys, status = len AND 0x1FFFF, control = ctl\<rparr>;
         i = i + 1
     in if i \<ge> ring_size - 1 then (0, \<not> c, write_link_trb ring_virt ring_phys ring_size c m) else (i, c, m))"

definition enqueue_normal_trb_and_ring ::
  "('h, 'e) machine_scheme \<Rightarrow> XHCI \<Rightarrow> u64 \<Rightarrow> u64 \<Rightarrow> nat \<Rightarrow> bool \<Rightarrow> nat \<Rightarrow> u32 \<Rightarrow> u32 \<Rightarrow> u64 \<Rightarrow> u32
     \<Rightarrow> ('h, 'z) kernel_scheme \<Rightarrow> (nat \<times> bool \<times> ('h, 'z) kernel_scheme) option" where
  "enqueue_normal_trb_and_ring io x ring_virt ring_phys i c ring_size slot_id dci buf_phys len s = do {
     let (i, c, m) = enqueue_normal_trb ring_virt ring_phys ring_size buf_phys len (i, c, ram s);
     s \<leftarrow> ring_doorbell io x (ucast slot_id) dci (s\<lparr>ram := m\<rparr>);
     Some (i, c, s)
   }"

lemmas interrupter_access_defs = write_erdp_def write_erstsz_def write_erstba_def read_iman_def write_iman_def

section \<open>Initialisation of the controller\<close>

text \<open>An error of the transport: the strings of the source, by what they say.\<close>

datatype XhciError = CommandFailed | CompletionTimeout | NoTranslation | TransferFailed | NoInterruptEndpoint

definition COMMAND_TIMEOUT :: nat where "COMMAND_TIMEOUT = 10000000"

fun await_completion :: "(('h, 'z) kernel_scheme \<Rightarrow> ('h, 'z) kernel_scheme option) \<Rightarrow> nat \<Rightarrow> XHCI \<Rightarrow> ('h, 'z) kernel_scheme
    \<Rightarrow> ((XhciError + u32) \<times> XHCI \<times> ('h, 'z) kernel_scheme) option" where
  "await_completion tick 0 x s = Some (Inl CompletionTimeout, x, s)"
| "await_completion tick (Suc n) x s =
     (case last_completion x of
        Some (code, slot_id) \<Rightarrow>
          Some (if code = 1 then Inr slot_id else Inl CommandFailed, x\<lparr>last_completion := None\<rparr>, s)
      | None \<Rightarrow> do { s \<leftarrow> tick s; await_completion tick n x s })"

definition send_command_and_wait ::
  "('h, 'e) machine_scheme \<Rightarrow> (('h, 'z) kernel_scheme \<Rightarrow> ('h, 'z) kernel_scheme option) \<Rightarrow> u64 \<Rightarrow> u32 \<Rightarrow> u32 \<Rightarrow> u32 \<Rightarrow> XHCI
     \<Rightarrow> ('h, 'z) kernel_scheme \<Rightarrow> ((XhciError + u32) \<times> XHCI \<times> ('h, 'z) kernel_scheme) option" where
  "send_command_and_wait io tick param stat ty slot_id x s = do {
     let x = x\<lparr>last_completion := None\<rparr>;
     (x, s) \<leftarrow> send_command io param stat ty slot_id x s;
     await_completion tick COMMAND_TIMEOUT x s
   }"

fun map_bar_pages :: "nat list \<Rightarrow> u64 \<Rightarrow> ('h, 'z) kernel_scheme \<Rightarrow> ('h, 'z) kernel_scheme option" where
  "map_bar_pages [] addr s = Some s"
| "map_bar_pages (i # is) addr s = do {
     off \<leftarrow> checked_mul (of_nat i) 0x1000;
     a \<leftarrow> checked_add addr off;
     (v, s) \<leftarrow> map_mmio_page a s;
     map_bar_pages is addr s
   }"

definition XHCI_new :: "('h, 'e) machine_scheme \<Rightarrow> BarInfo \<Rightarrow> PciDevice \<Rightarrow> ('h, 'z) kernel_scheme \<Rightarrow> (XHCI \<times> ('h, 'z) kernel_scheme) option" where
  "XHCI_new io b dev s =
     (let (bar_size, h) = get_bar0_size io dev (outside s); s = s\<lparr>outside := h\<rparr> in
      if \<not> (0 < bar_size \<and> bar_size < 0x10000000) then None
      else do {
        n \<leftarrow> checked_add bar_size 0xFFF;
        let page_count = n div 0x1000;
        (v, s) \<leftarrow> map_mmio_page (address b) s;
        s \<leftarrow> map_bar_pages [1..<unat page_count] (address b) s;
        Some (\<lparr>xbar = b, virt_base = v, event_ring_virt = 0, event_ring_phys = 0, dequeue_index = 0,
               cycle_state = False, last_completion = None, cmd_ring_virt = 0, cmd_ring_phys = 0,
               cmd_enqueue_index = 0, cmd_cycle_state = True, dcbaa_virt = 0, ep0_ring_virt = 0,
               ep0_ring_phys = 0, ep0_enqueue_index = 0, ep0_cycle_state = True\<rparr>, s)
      })"

definition setup_msix :: "('h, 'e) machine_scheme \<Rightarrow> XHCI \<Rightarrow> PciDevice \<Rightarrow> u8 \<Rightarrow> u8 \<Rightarrow> ('h, 'z) kernel_scheme \<Rightarrow> (bool \<times> ('h, 'z) kernel_scheme) option" where
  "setup_msix io x dev vector apic_id s = do {
     (r, h) \<leftarrow> get_msix_info io dev (outside s);
     let s = s\<lparr>outside := h\<rparr>;
     case r of
       None \<Rightarrow> Some (False, s)
     | Some info \<Rightarrow> do {
         table_addr \<leftarrow> checked_add (virt_base x) (ucast (table_offset info));
         let msg_addr = 0xFEE00000 OR push_bit 12 (ucast apic_id);
         let msg_data = ucast vector;
         let s = mmio_write32 io table_addr msg_addr s;
         a4 \<leftarrow> checked_add table_addr 4;
         let s = mmio_write32 io a4 0 s;
         a8 \<leftarrow> checked_add table_addr 8;
         let s = mmio_write32 io a8 msg_data s;
         a12 \<leftarrow> checked_add table_addr 12;
         let s = mmio_write32 io a12 0 s;
         h \<leftarrow> set_msix_enable io dev (cap_offset info) True (outside s);
         Some (True, s\<lparr>outside := h\<rparr>)
       }
   }"

text \<open>\<open>while busy(read()) {}\<close>: reads a register until it is no longer busy, perhaps for ever.\<close>

partial_function (option) spin_while :: "('s \<Rightarrow> u32 \<times> 's) \<Rightarrow> (u32 \<Rightarrow> bool) \<Rightarrow> 's \<Rightarrow> 's option" where
  "spin_while rd busy s = (let (v, s) = rd s in if busy v then spin_while rd busy s else Some s)"

definition USBCMD_RUN_OR_STOP :: u32 where "USBCMD_RUN_OR_STOP = push_bit 0 1"
definition USBCMD_HCRST :: u32 where "USBCMD_HCRST = push_bit 1 1"
definition USBCMD_INTE :: u32 where "USBCMD_INTE = push_bit 2 1"
definition USBSTS_HCH :: u32 where "USBSTS_HCH = push_bit 0 1"
definition USBSTS_CNR :: u32 where "USBSTS_CNR = push_bit 11 1"

definition setup_event_ring :: "('h, 'e) machine_scheme \<Rightarrow> XHCI \<Rightarrow> ('h, 'z) kernel_scheme \<Rightarrow> (XHCI \<times> ('h, 'z) kernel_scheme) option" where
  "setup_event_ring io x s = do {
     (segment_virt, s) \<leftarrow> box_zeroed io 512 64 s;
     segment_phys \<leftarrow> phys_unwrap segment_virt s;
     (erst_virt, s) \<leftarrow> box_zeroed io 64 64 s;
     let s = s\<lparr>ram := wr32 (wr64 (ram s) erst_virt segment_phys) (erst_virt + 8) (of_nat EVENT_RING_SIZE)\<rparr>;
     erst_phys \<leftarrow> phys_unwrap erst_virt s;
     (ir0, s) \<leftarrow> interrupter0 io x s;
     let s = write_erstsz io ir0 1 s;
     let s = write_erdp io ir0 segment_phys s;
     let s = write_erstba io ir0 erst_phys s;
     let (iman, s) = read_iman io ir0 s;
     let s = write_iman io ir0 (iman OR push_bit 1 1) s;
     Some (x\<lparr>event_ring_virt := segment_virt, event_ring_phys := segment_phys, dequeue_index := 0,
             cycle_state := True\<rparr>, s)
   }"

fun wait_running :: "('h, 'e) machine_scheme \<Rightarrow> u64 \<Rightarrow> nat \<Rightarrow> ('h, 'z) kernel_scheme \<Rightarrow> ('h, 'z) kernel_scheme" where
  "wait_running io op 0 s = s"
| "wait_running io op (Suc n) s =
     (let (v, s) = read_usbsts io op s in if v AND USBSTS_HCH \<noteq> 0 then wait_running io op n s else s)"

definition start_controller :: "('h, 'e) machine_scheme \<Rightarrow> XHCI \<Rightarrow> ('h, 'z) kernel_scheme \<Rightarrow> ('h, 'z) kernel_scheme" where
  "start_controller io x s =
     (let (op, s) = op_regs io x s;
          (cmd, s) = read_usbcmd io op s;
          cmd = cmd OR USBCMD_INTE;
          cmd = cmd OR USBCMD_RUN_OR_STOP;
          s = write_usbcmd io op cmd s
      in wait_running io op 1000000 s)"

definition init_xhci :: "('h, 'e) machine_scheme \<Rightarrow> XHCI \<Rightarrow> ('h, 'z) kernel_scheme \<Rightarrow> (XHCI \<times> ('h, 'z) kernel_scheme) option" where
  "init_xhci io x s = do {
     let (op, s) = op_regs io x s;
     let (cmd, s) = read_usbcmd io op s;
     let s = write_usbcmd io op (cmd AND NOT USBCMD_RUN_OR_STOP) s;
     s \<leftarrow> spin_while (read_usbsts io op) (\<lambda>v. v AND USBSTS_HCH = 0) s;
     let (cmd, s) = read_usbcmd io op s;
     let s = write_usbcmd io op (cmd OR USBCMD_HCRST) s;
     s \<leftarrow> spin_while (read_usbcmd io op) (\<lambda>v. v AND USBCMD_HCRST \<noteq> 0) s;
     s \<leftarrow> spin_while (read_usbsts io op) (\<lambda>v. v AND USBSTS_CNR \<noteq> 0) s;
     let (slots, s) = max_slots io x s;
     let s = write_config io op (ucast slots) s;
     (dcbaa, s) \<leftarrow> box_zeroed io 2048 64 s;
     dcbaa_phys \<leftarrow> phys_unwrap dcbaa s;
     let s = write_dcbaap io op dcbaa_phys s;
     (ring, s) \<leftarrow> box_zeroed io 512 64 s;
     ring_phys \<leftarrow> phys_unwrap ring s;
     let s = write_crcr io op ((ring_phys AND NOT 0x3F) OR 1) s;
     let x = x\<lparr>cmd_ring_virt := ring, cmd_ring_phys := ring_phys, cmd_enqueue_index := 0,
               cmd_cycle_state := True, dcbaa_virt := dcbaa\<rparr>;
     (x, s) \<leftarrow> setup_event_ring io x s;
     Some (x, start_controller io x s)
   }"

definition connected_ports :: "('h, 'e) machine_scheme \<Rightarrow> u64 \<Rightarrow> nat list \<Rightarrow> ('h, 'z) kernel_scheme \<Rightarrow> (u8 \<times> u8) list \<times> ('h, 'z) kernel_scheme" where
  "connected_ports io op ports s =
     foldl (\<lambda>(states, s) port.
       let (portsc, s) = read_portsc io op (of_nat port) s in
       if portsc AND 0x1 \<noteq> 0
       then (states @ [(of_nat port, ucast (drop_bit 10 portsc AND 0xF))], s) else (states, s))
     ([], s) ports"

definition scan_ports :: "('h, 'e) machine_scheme \<Rightarrow> XHCI \<Rightarrow> ('h, 'z) kernel_scheme \<Rightarrow> (u8 \<times> u8) list \<times> ('h, 'z) kernel_scheme" where
  "scan_ports io x s =
     (let (op, s) = op_regs io x s; (n, s) = max_ports io x s in connected_ports io op [0..<unat n] s)"

section \<open>The rings as instances of the contracts\<close>

lemma bit_bool_u32 [simp]: "bit (bool_u32 c) n \<longleftrightarrow> c \<and> n = 0"
  by (simp add: bool_u32_def bit_1_iff)

lemma mask_3F: "(0x3F :: u32) = mask 6"
  by (simp add: mask_eq_exp_minus_1)

definition cmd_trb :: "u64 \<times> u32 \<times> u32 \<times> u32 \<Rightarrow> bool \<Rightarrow> Trb" where
  "cmd_trb = (\<lambda>(param, stat, ty, slot_id) c.
     \<lparr>parameter = param, status = stat, control = push_bit 10 ty OR bool_u32 c OR push_bit 24 slot_id\<rparr>)"

definition cmd_slot :: "XHCI \<times> ('h, 'z) kernel_scheme \<Rightarrow> nat \<Rightarrow> Trb" where
  "cmd_slot = (\<lambda>(x, s) j. trb_read (ram s) (trb_slot (cmd_ring_virt x) j))"

definition cmd_put :: "u64 \<times> u32 \<times> u32 \<times> u32 \<Rightarrow> XHCI \<times> ('h, 'z) kernel_scheme \<Rightarrow> XHCI \<times> ('h, 'z) kernel_scheme" where
  "cmd_put = (\<lambda>(param, stat, ty, slot_id). enqueue_command param stat ty slot_id)"

definition ep0_trb :: "u64 \<times> u32 \<times> u32 \<Rightarrow> bool \<Rightarrow> Trb" where
  "ep0_trb = (\<lambda>(param, stat, ctl) c. \<lparr>parameter = param, status = stat, control = ctl OR bool_u32 c\<rparr>)"

definition ep0_slot :: "XHCI \<times> ('h, 'z) kernel_scheme \<Rightarrow> nat \<Rightarrow> Trb" where
  "ep0_slot = (\<lambda>(x, s) j. trb_read (ram s) (trb_slot (ep0_ring_virt x) j))"

definition ep0_put :: "u64 \<times> u32 \<times> u32 \<Rightarrow> XHCI \<times> ('h, 'z) kernel_scheme \<Rightarrow> XHCI \<times> ('h, 'z) kernel_scheme" where
  "ep0_put = (\<lambda>(param, stat, ctl). ep0_enqueue_trb param stat ctl)"

definition normal_trb :: "u64 \<times> u32 \<Rightarrow> bool \<Rightarrow> Trb" where
  "normal_trb = (\<lambda>(buf, len) c.
     \<lparr>parameter = buf, status = len AND 0x1FFFF, control = push_bit 10 TRB_TYPE_NORMAL OR push_bit 5 1 OR bool_u32 c\<rparr>)"

definition normal_slot :: "u64 \<Rightarrow> nat \<times> bool \<times> mem \<Rightarrow> nat \<Rightarrow> Trb" where
  "normal_slot ring_virt = (\<lambda>(i, c, m) j. trb_read m (trb_slot ring_virt j))"

definition normal_put :: "u64 \<Rightarrow> u64 \<Rightarrow> u64 \<times> u32 \<Rightarrow> nat \<times> bool \<times> mem \<Rightarrow> nat \<times> bool \<times> mem" where
  "normal_put ring_virt ring_phys = (\<lambda>(buf, len). enqueue_normal_trb ring_virt ring_phys 16 buf len)"

lemma cmd_trb_bits: "trb_cycle (cmd_trb r c) = c" "trb_type (cmd_trb r c) = fst (snd (snd r)) AND 0x3F"
proof -
  show "trb_cycle (cmd_trb r c) = c"
    by (cases r) (simp add: trb_cycle_bit cmd_trb_def bit_or_iff bit_push_bit_iff)
  show "trb_type (cmd_trb r c) = fst (snd (snd r)) AND 0x3F"
    unfolding trb_type_def mask_3F
    by (cases r; rule bit_word_eqI) (auto simp add: cmd_trb_def bit_simps)
qed

lemma ep0_trb_bits: "\<not> bit (snd (snd r)) 0 \<Longrightarrow> trb_cycle (ep0_trb r c) = c"
    "trb_type (ep0_trb r c) = drop_bit 10 (snd (snd r)) AND 0x3F"
proof -
  show "\<not> bit (snd (snd r)) 0 \<Longrightarrow> trb_cycle (ep0_trb r c) = c"
    by (cases r) (simp add: trb_cycle_bit ep0_trb_def bit_or_iff)
  show "trb_type (ep0_trb r c) = drop_bit 10 (snd (snd r)) AND 0x3F"
    unfolding trb_type_def by (cases r; rule bit_word_eqI) (auto simp add: ep0_trb_def bit_simps)
qed

lemma normal_trb_bits: "trb_cycle (normal_trb r c) = c" "trb_type (normal_trb r c) = 1"
  by (cases r; cases c; simp add: trb_cycle_def trb_type_def normal_trb_def bool_u32_def TRB_TYPE_NORMAL_def)+

lemma cmd_put_eq: "cmd_put r (x, s) =
    (if cmd_enqueue_index x + 1 \<ge> 31
     then x\<lparr>cmd_enqueue_index := 0, cmd_cycle_state := \<not> cmd_cycle_state x\<rparr>
     else x\<lparr>cmd_enqueue_index := cmd_enqueue_index x + 1\<rparr>,
     s\<lparr>ram := trb_write (ram s) (trb_slot (cmd_ring_virt x) (cmd_enqueue_index x)) (cmd_trb r (cmd_cycle_state x))\<rparr>)"
  by (cases r) (simp add: cmd_put_def enqueue_command_def cmd_trb_def COMMAND_RING_SIZE_def Let_def)

lemma ep0_put_eq: "ep0_put r (x, s) =
    (if ep0_enqueue_index x + 1 \<ge> 15
     then x\<lparr>ep0_enqueue_index := 0, ep0_cycle_state := \<not> ep0_cycle_state x\<rparr>
     else x\<lparr>ep0_enqueue_index := ep0_enqueue_index x + 1\<rparr>,
     s\<lparr>ram := trb_write (ram s) (trb_slot (ep0_ring_virt x) (ep0_enqueue_index x)) (ep0_trb r (ep0_cycle_state x))\<rparr>)"
  by (cases r) (simp add: ep0_put_def ep0_enqueue_trb_def ep0_trb_def CONTROL_RING_SIZE_def Let_def)

lemma normal_put_eq: "normal_put ring_virt ring_phys r (i, c, m) =
    (let m = trb_write m (trb_slot ring_virt i) (normal_trb r c) in
     if i + 1 \<ge> 15 then (0, \<not> c, write_link_trb ring_virt ring_phys 16 c m) else (i + 1, c, m))"
  by (cases r) (simp add: normal_put_def enqueue_normal_trb_def normal_trb_def Let_def)

interpretation cmd: unlinked_ring cmd_slot "\<lambda>(x, s). cmd_enqueue_index x" "\<lambda>(x, s). cmd_cycle_state x"
  cmd_put cmd_trb "\<lambda>r. fst (snd (snd r)) AND 0x3F \<noteq> TRB_TYPE_LINK" 32
  by unfold_locales (auto simp: cmd_slot_def cmd_put_eq cmd_trb_bits trb_slot_write)

interpretation ep0: unlinked_ring ep0_slot "\<lambda>(x, s). ep0_enqueue_index x" "\<lambda>(x, s). ep0_cycle_state x"
  ep0_put ep0_trb "\<lambda>r. \<not> bit (snd (snd r)) 0 \<and> drop_bit 10 (snd (snd r)) AND 0x3F \<noteq> TRB_TYPE_LINK" 16
  by unfold_locales (auto simp: ep0_slot_def ep0_put_eq ep0_trb_bits trb_slot_write)

interpretation hid: linked_ring "normal_slot ring_virt" "\<lambda>(i, c, m). i" "\<lambda>(i, c, m). c"
  "normal_put ring_virt ring_phys" normal_trb "\<lambda>_. True" 16 "\<lambda>_. ring_phys"
  for ring_virt ring_phys :: u64
  by unfold_locales
    (auto simp: normal_slot_def normal_put_eq normal_trb_bits Let_def TRB_TYPE_LINK_def trb_slot_write write_link_trb_def)

section \<open>Polling the event ring\<close>

text \<open>Any number of calls of \<open>poll_event_ring\<close> in a row.\<close>

fun poll_times :: "nat \<Rightarrow> ('h, 'e) machine_scheme \<Rightarrow> XHCI \<Rightarrow> ('h, 'z) kernel_scheme \<Rightarrow> (XHCI \<times> ('h, 'z) kernel_scheme) option" where
  "poll_times 0 io x s = Some (x, s)"
| "poll_times (Suc n) io x s = do { (x, s) \<leftarrow> poll_event_ring io x s; poll_times n io x s }"

text \<open>The register that holds the offset of the runtime registers always reads a usable offset.\<close>

definition runtime_regs_ok :: "('h, 'e) machine_scheme \<Rightarrow> XHCI \<Rightarrow> bool" where
  "runtime_regs_ok io x \<longleftrightarrow>
     (\<forall>h. unat (virt_base x) + unat (fst (mrd32 io (virt_base x + 0x18) h) AND NOT 0x1F) + 0x20 < 2 ^ 64)"

lemma interrupter0_ok:
  assumes "runtime_regs_ok io x"
  shows "\<exists>ir0 h. interrupter0 io x s = Some (ir0, s\<lparr>outside := h\<rparr>)"
proof -
  let ?v = "fst (mrd32 io (virt_base x + 0x18) (outside s)) AND NOT 0x1F"
  have b: "unat (virt_base x) + unat ?v + 0x20 < 2 ^ 64"
    using assms by (simp add: runtime_regs_ok_def)
  then have 1: "checked_add (virt_base x) (ucast ?v) = Some (virt_base x + ucast ?v)"
    by (simp add: checked_add_def unsigned_ucast_eq take_bit_nat_eq_self)
  have "unat (virt_base x + ucast ?v) = unat (virt_base x) + unat ?v"
    using b by (subst unat_word_ariths) (simp add: unsigned_ucast_eq take_bit_nat_eq_self)
  then have 2: "checked_add (virt_base x + ucast ?v) 0x20 = Some (virt_base x + ucast ?v + 0x20)"
    using b by (simp add: checked_add_def)
  show ?thesis
    by (simp add: interrupter0_def rtsoff_def mmio_read32_def 1 2 split: prod.splits) (use 1 2 in auto)
qed

definition for_kbd :: "Trb \<Rightarrow> ('h, 'z) kernel_scheme \<Rightarrow> bool" where
  "for_kbd t s \<longleftrightarrow> kbd_dci s \<noteq> 0 \<and> drop_bit 24 (control t) AND 0xFF = kbd_slot_id s
     \<and> drop_bit 16 (control t) AND 0x1F = kbd_dci s"

definition for_mouse :: "Trb \<Rightarrow> ('h, 'z) kernel_scheme \<Rightarrow> bool" where
  "for_mouse t s \<longleftrightarrow> mouse_dci s \<noteq> 0 \<and> drop_bit 24 (control t) AND 0xFF = mouse_slot_id s
     \<and> drop_bit 16 (control t) AND 0x1F = mouse_dci s"

lemma dispatch_event_if:
  "dispatch_event t s =
     (if trb_type t = 34 then s\<lparr>port_change_pending := True\<rparr>
      else if trb_type t = 33 then
        s\<lparr>completion_code := drop_bit 24 (status t) AND 0xFF, completion_slot := drop_bit 24 (control t) AND 0xFF,
          completion_pending := True\<rparr>
      else if trb_type t = 32 then
        if for_kbd t s then s\<lparr>kbd_report_len := status t AND 0xFFFFFF, kbd_report_pending := True\<rparr>
        else if for_mouse t s then s\<lparr>mouse_report_len := status t AND 0xFFFFFF, mouse_report_pending := True\<rparr>
        else s\<lparr>transfer_completion_code := drop_bit 24 (status t) AND 0xFF,
               transfer_completion_length := status t AND 0xFFFFFF, transfer_completion_pending := True\<rparr>
      else s)"
  unfolding dispatch_event_def trb_type_def for_kbd_def for_mouse_def Let_def by (rule refl)

lemma dispatch_event_simps:
  "trb_type t = 34 \<Longrightarrow> dispatch_event t s = s\<lparr>port_change_pending := True\<rparr>"
  "trb_type t = 33 \<Longrightarrow> dispatch_event t s =
     s\<lparr>completion_code := drop_bit 24 (status t) AND 0xFF, completion_slot := drop_bit 24 (control t) AND 0xFF,
       completion_pending := True\<rparr>"
  "trb_type t = 32 \<Longrightarrow> for_kbd t s \<Longrightarrow> dispatch_event t s =
     s\<lparr>kbd_report_len := status t AND 0xFFFFFF, kbd_report_pending := True\<rparr>"
  "trb_type t = 32 \<Longrightarrow> \<not> for_kbd t s \<Longrightarrow> for_mouse t s \<Longrightarrow> dispatch_event t s =
     s\<lparr>mouse_report_len := status t AND 0xFFFFFF, mouse_report_pending := True\<rparr>"
  "trb_type t = 32 \<Longrightarrow> \<not> for_kbd t s \<Longrightarrow> \<not> for_mouse t s \<Longrightarrow> dispatch_event t s =
     s\<lparr>transfer_completion_code := drop_bit 24 (status t) AND 0xFF,
       transfer_completion_length := status t AND 0xFFFFFF, transfer_completion_pending := True\<rparr>"
  "trb_type t \<noteq> 34 \<Longrightarrow> trb_type t \<noteq> 33 \<Longrightarrow> trb_type t \<noteq> 32 \<Longrightarrow> dispatch_event t s = s"
  by (simp_all add: dispatch_event_if)

lemma dispatch_event_outside [simp]:
  "dispatch_event t (s\<lparr>outside := h\<rparr>) = (dispatch_event t s)\<lparr>outside := h\<rparr>"
  "ram (dispatch_event t s) = ram s"
proof -
  have f: "for_kbd t (s\<lparr>outside := h\<rparr>) = for_kbd t s" "for_mouse t (s\<lparr>outside := h\<rparr>) = for_mouse t s"
    by (simp_all add: for_kbd_def for_mouse_def)
  consider "trb_type t = 34" | "trb_type t = 33" | "trb_type t = 32" "for_kbd t s"
    | "trb_type t = 32" "\<not> for_kbd t s" "for_mouse t s" | "trb_type t = 32" "\<not> for_kbd t s" "\<not> for_mouse t s"
    | "trb_type t \<noteq> 34" "trb_type t \<noteq> 33" "trb_type t \<noteq> 32" by blast
  then have "dispatch_event t (s\<lparr>outside := h\<rparr>) = (dispatch_event t s)\<lparr>outside := h\<rparr> \<and> ram (dispatch_event t s) = ram s"
    by cases (simp_all add: dispatch_event_simps f)
  then show "dispatch_event t (s\<lparr>outside := h\<rparr>) = (dispatch_event t s)\<lparr>outside := h\<rparr>"
    "ram (dispatch_event t s) = ram s" by simp_all
qed

lemma fold_dispatch_outside [simp]:
  "fold dispatch_event ts (s\<lparr>outside := h\<rparr>) = (fold dispatch_event ts s)\<lparr>outside := h\<rparr>"
  "ram (fold dispatch_event ts s) = ram s"
  by (induction ts arbitrary: s) simp_all

lemma advance_dequeue_simps [simp]:
  "event_ring_virt (advance_dequeue x) = event_ring_virt x" "event_ring_phys (advance_dequeue x) = event_ring_phys x"
  "virt_base (advance_dequeue x) = virt_base x"
  by (simp_all add: advance_dequeue_def Let_def)

lemma advance_dequeue_pos:
  "dequeue_index x < 32 \<Longrightarrow> dequeue_index (advance_dequeue x) = (dequeue_index x + 1) mod 32"
  "dequeue_index x < 32 \<Longrightarrow> cycle_state (advance_dequeue x) = (if dequeue_index x = 31 then \<not> cycle_state x else cycle_state x)"
  by (cases "dequeue_index x = 31"; simp add: advance_dequeue_def EVENT_RING_SIZE_def Let_def)+

lemma poll_event_ring_step:
  assumes regs: "runtime_regs_ok io x" and phys: "unat (event_ring_phys x) + 512 < 2 ^ 64" and d: "dequeue_index x < 32"
  shows "\<exists>h. poll_event_ring io x s =
    (let t = trb_read (ram s) (trb_slot (event_ring_virt x) (dequeue_index x)) in
     if trb_cycle t \<noteq> cycle_state x then Some (x, s)
     else Some (advance_dequeue x, (dispatch_event t s)\<lparr>outside := h\<rparr>))"
proof -
  let ?t = "trb_read (ram s) (trb_slot (event_ring_virt x) (dequeue_index x))"
  let ?x = "advance_dequeue x"
  have d': "dequeue_index ?x < 32" using advance_dequeue_pos(1) [OF d] by simp
  then have "unat (of_nat (dequeue_index ?x) * 16 :: u64) = dequeue_index ?x * 16"
    by (simp add: unat_word_ariths unat_of_nat)
  then have add: "checked_add (event_ring_phys ?x) (of_nat (dequeue_index ?x) * 16)
      = Some (event_ring_phys ?x + of_nat (dequeue_index ?x) * 16)"
    using phys d' by (simp add: checked_add_def)
  have "runtime_regs_ok io ?x" using regs by (simp add: runtime_regs_ok_def)
  from interrupter0_ok [OF this, of "dispatch_event ?t s"] obtain ir0 h
    where ir0: "interrupter0 io ?x (dispatch_event ?t s) = Some (ir0, (dispatch_event ?t s)\<lparr>outside := h\<rparr>)" by blast
  show ?thesis
  proof (cases "trb_cycle ?t = cycle_state x")
    case False
    then show ?thesis by (simp add: poll_event_ring_def trb_cycle_def)
  next
    case True
    then have "poll_event_ring io x s = Some (?x, write_erdp io ir0
        ((event_ring_phys ?x + of_nat (dequeue_index ?x) * 16) OR push_bit 3 1) ((dispatch_event ?t s)\<lparr>outside := h\<rparr>))"
      unfolding poll_event_ring_def trb_cycle_def Let_def add ir0 by simp
    with True show ?thesis by (auto simp: write_erdp_def mmio_write64_def)
  qed
qed

lemma poll_times_order:
  assumes "runtime_regs_ok io x" and "unat (event_ring_phys x) + 512 < 2 ^ 64" and "dequeue_index x < 32" and "length es \<le> 32"
    and "\<forall>k < length es. trb_read (ram s) (trb_slot (event_ring_virt x) ((dequeue_index x + k) mod 32)) = es ! k
           \<and> trb_cycle (es ! k) = (if dequeue_index x + k < 32 then cycle_state x else \<not> cycle_state x)"
  shows "\<exists>x' h. poll_times (length es) io x s = Some (x', (fold dispatch_event es s)\<lparr>outside := h\<rparr>)
    \<and> dequeue_index x' = (dequeue_index x + length es) mod 32
    \<and> cycle_state x' = (if dequeue_index x + length es < 32 then cycle_state x else \<not> cycle_state x)"
  using assms
proof (induction es arbitrary: x s)
  case Nil
  show ?case using Nil(3) by (intro exI [of _ x] exI [of _ "outside s"]) simp
next
  case (Cons e es)
  let ?x = "advance_dequeue x"
  have e: "trb_read (ram s) (trb_slot (event_ring_virt x) (dequeue_index x)) = e" "trb_cycle e = cycle_state x"
    using Cons.prems(3) Cons.prems(5) [rule_format, of 0] by simp_all
  obtain h where h: "poll_event_ring io x s = Some (?x, (dispatch_event e s)\<lparr>outside := h\<rparr>)"
    using poll_event_ring_step [OF Cons.prems(1-3), of s] e by auto
  let ?s = "(dispatch_event e s)\<lparr>outside := h\<rparr>"
  have x: "runtime_regs_ok io ?x" "unat (event_ring_phys ?x) + 512 < 2 ^ 64" "dequeue_index ?x < 32"
    using Cons.prems(1,2) advance_dequeue_pos(1) [OF Cons.prems(3)] by (simp_all add: runtime_regs_ok_def)
  have rest: "\<forall>k < length es. trb_read (ram ?s) (trb_slot (event_ring_virt ?x) ((dequeue_index ?x + k) mod 32)) = es ! k
           \<and> trb_cycle (es ! k) = (if dequeue_index ?x + k < 32 then cycle_state ?x else \<not> cycle_state ?x)"
  proof (intro allI impI)
    fix k assume k: "k < length es"
    then have "Suc k < length (e # es)" by simp
    with Cons.prems(5) have *: "trb_read (ram s) (trb_slot (event_ring_virt x) ((dequeue_index x + Suc k) mod 32)) = es ! k"
      "trb_cycle (es ! k) = (if dequeue_index x + Suc k < 32 then cycle_state x else \<not> cycle_state x)"
      by (metis nth_Cons_Suc)+
    have "(dequeue_index ?x + k) mod 32 = (dequeue_index x + Suc k) mod 32"
      by (simp add: advance_dequeue_pos(1) [OF Cons.prems(3)] mod_add_left_eq)
    moreover have "(if dequeue_index ?x + k < 32 then cycle_state ?x else \<not> cycle_state ?x)
        = (if dequeue_index x + Suc k < 32 then cycle_state x else \<not> cycle_state x)"
      using Cons.prems(3,4) k by (auto simp: advance_dequeue_pos)
    ultimately show "trb_read (ram ?s) (trb_slot (event_ring_virt ?x) ((dequeue_index ?x + k) mod 32)) = es ! k
           \<and> trb_cycle (es ! k) = (if dequeue_index ?x + k < 32 then cycle_state ?x else \<not> cycle_state ?x)"
      using * by simp
  qed
  have len: "length es \<le> 32" using Cons.prems(4) by simp
  obtain x' h' where IH: "poll_times (length es) io ?x ?s = Some (x', (fold dispatch_event es ?s)\<lparr>outside := h'\<rparr>)"
    "dequeue_index x' = (dequeue_index ?x + length es) mod 32"
    "cycle_state x' = (if dequeue_index ?x + length es < 32 then cycle_state ?x else \<not> cycle_state ?x)"
    using Cons.IH [OF x len rest] by blast
  have "dequeue_index x' = (dequeue_index x + length (e # es)) mod 32"
    using IH(2) by (simp add: advance_dequeue_pos(1) [OF Cons.prems(3)] mod_add_left_eq)
  moreover have "cycle_state x' = (if dequeue_index x + length (e # es) < 32 then cycle_state x else \<not> cycle_state x)"
    using IH(3) Cons.prems(3,4) by (auto simp: advance_dequeue_pos)
  ultimately show ?case
    using IH(1) h by (intro exI [of _ x'] exI [of _ h']) simp
qed

section \<open>Commands that wait on the driver state\<close>

lemma enqueue_command_last [simp]:
  "last_completion (fst (enqueue_command p st ty sl (x, s))) = last_completion x"
  by (simp add: enqueue_command_def Let_def)

lemma await_completion_none:
  assumes "\<And>s. tick s \<noteq> None" and "last_completion x = None"
  shows "\<exists>s'. await_completion tick n x s = Some (Inl CompletionTimeout, x, s')"
proof (induction n arbitrary: s)
  case (Suc n)
  obtain s1 where "tick s = Some s1" using assms(1) [of s] by blast
  with Suc assms(2) show ?case by simp
qed simp

text \<open>A transfer event as the controller builds it.\<close>

definition transfer_event :: "u32 \<Rightarrow> u32 \<Rightarrow> u32 \<Rightarrow> u32 \<Rightarrow> bool \<Rightarrow> Trb" where
  "transfer_event slot_id ep code residual cycle =
     \<lparr>parameter = 0, status = push_bit 24 code OR residual,
      control = push_bit 24 slot_id OR push_bit 16 ep OR push_bit 10 32 OR bool_u32 cycle\<rparr>"

lemma transfer_event_fields:
  assumes "slot_id < 256" "ep < 32" "code < 256" "residual < 2 ^ 24"
  shows "trb_type (transfer_event slot_id ep code residual c) = 32"
    "drop_bit 24 (control (transfer_event slot_id ep code residual c)) AND 0xFF = slot_id"
    "drop_bit 16 (control (transfer_event slot_id ep code residual c)) AND 0x1F = ep"
    "drop_bit 24 (status (transfer_event slot_id ep code residual c)) AND 0xFF = code"
    "status (transfer_event slot_id ep code residual c) AND 0xFFFFFF = residual"
proof -
  have b: "bit slot_id n \<Longrightarrow> n < 8" "bit ep n \<Longrightarrow> n < 5" "bit code n \<Longrightarrow> n < 8" "bit residual n \<Longrightarrow> n < 24" for n
    using word_below_bits [of slot_id 8 n] word_below_bits [of ep 5 n] word_below_bits [of code 8 n]
      word_below_bits [of residual 24 n] assms by simp_all
  have m: "(0xFF :: u32) = mask 8" "(0x1F :: u32) = mask 5" "(0xFFFFFF :: u32) = mask 24"
    by (simp_all add: mask_eq_exp_minus_1)
  have "bit (push_bit 5 (1 :: int)) n \<longleftrightarrow> n = 5" for n
    unfolding bit_push_bit_iff bit_1_iff by auto
  then have b32: "bit (32 :: int) n \<longleftrightarrow> n = 5" for n by simp
  note d = transfer_event_def Trb.simps bit_and_iff bit_or_iff bit_drop_bit_eq o_def bit_push_bit_iff bit_mask_iff bit_bool_u32 bit_1_iff
  show "trb_type (transfer_event slot_id ep code residual c) = 32"
    unfolding trb_type_def mask_3F
    by (rule bit_word_eqI) (auto simp add: d b32 dest: b)
  show "drop_bit 24 (control (transfer_event slot_id ep code residual c)) AND 0xFF = slot_id"
    unfolding m by (rule bit_word_eqI) (auto simp add: d dest: b simp del: push_bit_of_1)
  show "drop_bit 16 (control (transfer_event slot_id ep code residual c)) AND 0x1F = ep"
    unfolding m by (rule bit_word_eqI) (auto simp add: d dest: b simp del: push_bit_of_1)
  show "drop_bit 24 (status (transfer_event slot_id ep code residual c)) AND 0xFF = code"
    unfolding m by (rule bit_word_eqI) (auto simp add: d dest: b)
  show "status (transfer_event slot_id ep code residual c) AND 0xFFFFFF = residual"
    unfolding m by (rule bit_word_eqI) (auto simp add: d dest: b)
qed

end
