(* ===== verification/Xhci_Rings.thy ===== *)
theory Xhci_Rings
  imports Xhci
begin

text \<open>
  What the transport of \<^verbatim>\<open>kernel/src/usb/xhci.rs\<close> promises: the three rings the driver fills, seen from the
  controller, the event ring the driver drains, and the two ways of waiting for a command.
\<close>

section \<open>The initial state, and a machine for examples\<close>

text \<open>The state of the kernel when the first line of \<open>kmain\<close> runs: the statics have their initial values.\<close>

definition kernel_start :: "pgstate \<Rightarrow> 'h \<Rightarrow> 'h kernel" where
  "kernel_start p h = pgstate.extend p
     \<lparr>outside = h, xhci_instance = None, completion_pending = False, completion_code = 0, completion_slot = 0,
      transfer_completion_pending = False, transfer_completion_code = 0, transfer_completion_length = 0,
      port_change_pending = False, kbd_dci = 0, kbd_slot_id = 0, kbd_report_pending = False, kbd_report_len = 0,
      mouse_dci = 0, mouse_slot_id = 0, mouse_report_pending = False, mouse_report_len = 0\<rparr>"

lemma kernel_start_sel [simp]:
  "kbd_dci (kernel_start p h) = 0" "mouse_dci (kernel_start p h) = 0" "xhci_instance (kernel_start p h) = None"
  "ram (kernel_start p h) = ram p" "outside (kernel_start p h) = h"
  by (simp_all add: kernel_start_def pgstate.extend_def)

text \<open>A machine on which nothing is connected: every register reads as zero, the heap is empty.\<close>

definition quiet_machine :: "unit machine" where
  "quiet_machine =
     \<lparr>inb = \<lambda>p h. (0, h), outb = \<lambda>p v h. h, inl = \<lambda>p h. (0, h), outl = \<lambda>p v h. h,
      rdmsr = \<lambda>r h. (0, h), wrmsr = \<lambda>r v h. h, mrd8 = \<lambda>a h. (0, h), mrd32 = \<lambda>a h. (0, h),
      mwr32 = \<lambda>a v h. h, mwr64 = \<lambda>a v h. h, heap_alloc = \<lambda>n al h. None, heap_free = \<lambda>a h. h,
      hw_step = \<lambda>h m. (h, m, False)\<rparr>"

definition xhci_example :: XHCI where
  "xhci_example =
     \<lparr>xbar = \<lparr>address = 0xFEB00000, is_64bit = False, is_prefetchable = False\<rparr>, virt_base = 0xFFFF8000FEB00000,
      event_ring_virt = 0xFFFF800000010000, event_ring_phys = 0x10000, dequeue_index = 31, cycle_state = True,
      last_completion = None, cmd_ring_virt = 0xFFFF800000020000, cmd_ring_phys = 0x20000, cmd_enqueue_index = 0,
      cmd_cycle_state = True, dcbaa_virt = 0xFFFF800000030000, ep0_ring_virt = 0xFFFF800000040000,
      ep0_ring_phys = 0x40000, ep0_enqueue_index = 0, ep0_cycle_state = True\<rparr>"

section \<open>Fresh rings\<close>

lemma rd32_fill_zero: "unat (b - a) + 4 \<le> k \<Longrightarrow> k < 2 ^ 64 \<Longrightarrow> rd32 (mem_fill m a 0 k) b = 0"
  by (simp add: rd32_def mem_read_fill_inside)

lemma trb_read_zeroed:
  assumes "j < n" "n < 2 ^ 32"
  shows "trb_read (mem_fill m r 0 (16 * n)) (trb_slot r j) = Trb_empty"
proof -
  have u: "unat (16 * of_nat j + k - 0 :: u64) = 16 * j + unat k" if "k < 16" for k :: u64
  proof -
    have "unat (16 * of_nat j :: u64) = 16 * j"
      using assms by (simp add: unat_word_ariths unat_of_nat)
    moreover have "unat k < 16" using that by (simp add: word_less_nat_alt)
    ultimately show ?thesis using assms by (simp add: unat_word_ariths)
  qed
  from u [of 0] u [of 8] u [of 12] show ?thesis
    using assms by (simp add: trb_read_def trb_slot_def Trb_empty_def rd64_fill_zero rd32_fill_zero add.assoc)
qed

lemma Trb_empty_cycle [simp]: "trb_cycle Trb_empty = False"
  by (simp add: trb_cycle_def Trb_empty_def)

text \<open>A transfer ring as \<open>configure_endpoint\<close> leaves it: zeroed, with a link TRB in its last slot.\<close>

definition new_hid_ring :: "u64 \<Rightarrow> u64 \<Rightarrow> mem \<Rightarrow> nat \<times> bool \<times> mem" where
  "new_hid_ring ring_virt ring_phys m =
     (0, True, write_link_trb ring_virt ring_phys 16 True (mem_fill m ring_virt 0 256))"

lemma new_hid_ring_fresh:
  "ring_fresh 16 (normal_slot rv (new_hid_ring rv rp m)) 0 True"
proof -
  have "trb_read (mem_fill m rv 0 256) (trb_slot rv j) = Trb_empty" if "j < 16" for j
    using trb_read_zeroed [of j 16 m rv] that by simp
  then show ?thesis
    by (simp add: ring_fresh_def normal_slot_def new_hid_ring_def write_link_trb_def trb_slot_write)
qed


text \<open>The command ring as \<open>init_xhci\<close> leaves it, and the ring of endpoint 0 as \<open>address_device\<close> leaves it.\<close>

definition new_cmd_ring :: "XHCI \<Rightarrow> ('h, 'z) kernel_scheme \<Rightarrow> XHCI \<times> ('h, 'z) kernel_scheme" where
  "new_cmd_ring x s = (x\<lparr>cmd_enqueue_index := 0, cmd_cycle_state := True\<rparr>,
                       s\<lparr>ram := mem_fill (ram s) (cmd_ring_virt x) 0 512\<rparr>)"

definition new_ep0_ring :: "XHCI \<Rightarrow> ('h, 'z) kernel_scheme \<Rightarrow> XHCI \<times> ('h, 'z) kernel_scheme" where
  "new_ep0_ring x s = (x\<lparr>ep0_enqueue_index := 0, ep0_cycle_state := True\<rparr>,
                       s\<lparr>ram := mem_fill (ram s) (ep0_ring_virt x) 0 256\<rparr>)"

lemma new_cmd_ring_slots: "j < 32 \<Longrightarrow> cmd_slot (new_cmd_ring x s) j = Trb_empty"
  using trb_read_zeroed [of j 32 "ram s" "cmd_ring_virt x"] by (simp add: new_cmd_ring_def cmd_slot_def)

lemma new_ep0_ring_slots: "j < 16 \<Longrightarrow> ep0_slot (new_ep0_ring x s) j = Trb_empty"
  using trb_read_zeroed [of j 16 "ram s" "ep0_ring_virt x"] by (simp add: new_ep0_ring_def ep0_slot_def)

text \<open>
  Property C37. The command ring has no link TRB: starting as \<open>init_xhci\<close> leaves it, the controller fetches
  the first 31 commands, in order and unchanged, and then none of the later ones, however many are sent.
\<close>

theorem command_ring_stops_at_wrap:
  assumes "\<forall>(param, stat, ty, slot_id) \<in> set rs. ty AND 0x3F \<noteq> TRB_TYPE_LINK"
  shows "exchange cmd_put cmd_slot rs (new_cmd_ring x s) (0, True) =
     map (\<lambda>r. Some (cmd_trb r True)) (take 31 rs) @ replicate (length rs - 31) None"
proof -
  have pos: "(\<lambda>(x, s). cmd_enqueue_index x) (new_cmd_ring x s) = 0" "(\<lambda>(x, s). cmd_cycle_state x) (new_cmd_ring x s) = True"
    by (simp_all add: new_cmd_ring_def)
  have "\<forall>r \<in> set rs. fst (snd (snd r)) AND 0x3F \<noteq> TRB_TYPE_LINK" using assms by auto
  from cmd.exchange_until_full [of "new_cmd_ring x s" rs, unfolded pos, OF _ this]
  show ?thesis by (simp add: ring_fresh_def new_cmd_ring_slots)
qed

theorem command_ring_stops_at_wrap_witness:
  "exchange cmd_put cmd_slot (replicate 40 (0, 0, 9, 0)) (new_cmd_ring xhci_example (kernel_start pg_example ())) (0, True) =
     replicate 31 (Some (cmd_trb (0, 0, 9, 0) True)) @ replicate 9 None"
  using command_ring_stops_at_wrap [of "replicate 40 (0, 0, 9, 0)" xhci_example "kernel_start pg_example ()"]
  by (simp add: TRB_TYPE_LINK_def map_replicate_const)

text \<open>
  The same for control transfers: a device receives the first 15 TRBs put on the ring of its
  endpoint 0 (\<open>address_device\<close> starts a new ring for each device) and nothing after them.
\<close>

theorem ep0_ring_stops_at_wrap:
  assumes "\<forall>(param, stat, ctl) \<in> set rs. \<not> bit ctl 0 \<and> drop_bit 10 ctl AND 0x3F \<noteq> TRB_TYPE_LINK"
  shows "exchange ep0_put ep0_slot rs (new_ep0_ring x s) (0, True) =
     map (\<lambda>r. Some (ep0_trb r True)) (take 15 rs) @ replicate (length rs - 15) None"
proof -
  have pos: "(\<lambda>(x, s). ep0_enqueue_index x) (new_ep0_ring x s) = 0" "(\<lambda>(x, s). ep0_cycle_state x) (new_ep0_ring x s) = True"
    by (simp_all add: new_ep0_ring_def)
  have "\<forall>r \<in> set rs. \<not> bit (snd (snd r)) 0 \<and> drop_bit 10 (snd (snd r)) AND 0x3F \<noteq> TRB_TYPE_LINK" using assms by auto
  from ep0.exchange_until_full [of "new_ep0_ring x s" rs, unfolded pos, OF _ this]
  show ?thesis by (simp add: ring_fresh_def new_ep0_ring_slots)
qed

theorem ep0_ring_stops_at_wrap_witness:
  "exchange ep0_put ep0_slot (replicate 20 (0, 8, 0x30840)) (new_ep0_ring xhci_example (kernel_start pg_example ())) (0, True) =
     replicate 15 (Some (ep0_trb (0, 8, 0x30840) True)) @ replicate 5 None"
  using ep0_ring_stops_at_wrap [of "replicate 20 (0, 8, 0x30840)" xhci_example "kernel_start pg_example ()"]
  by (simp add: TRB_TYPE_LINK_def bit_numeral_rec map_replicate_const)

section \<open>The event ring\<close>

text \<open>The controller has put the events \<open>es\<close> on the event ring, from the position the driver reads next.\<close>

definition events_posted :: "XHCI \<Rightarrow> ('h, 'z) kernel_scheme \<Rightarrow> Trb list \<Rightarrow> bool" where
  "events_posted x s es \<longleftrightarrow>
     (\<forall>k < length es. trb_read (ram s) (trb_slot (event_ring_virt x) ((dequeue_index x + k) mod 32)) = es ! k
        \<and> trb_cycle (es ! k) = (if dequeue_index x + k < 32 then cycle_state x else \<not> cycle_state x))"

text \<open>
  Property C14. The driver handles the events in the order the controller put them, each exactly once, also
  across the end of the ring: after as many calls of \<open>poll_event_ring\<close> as there are events the state is the
  one that dispatching them in order gives (but for the device registers), and dequeue index and cycle
  state are where the next event will be.
\<close>

theorem poll_event_ring_in_order:
  assumes "runtime_regs_ok io x" and "unat (event_ring_phys x) + 512 < 2 ^ 64" and "dequeue_index x < 32"
    and "length es \<le> 32" and "events_posted x s es"
  shows "\<exists>x' h. poll_times (length es) io x s = Some (x', (fold dispatch_event es s)\<lparr>outside := h\<rparr>)
    \<and> dequeue_index x' = (dequeue_index x + length es) mod 32
    \<and> cycle_state x' = (if dequeue_index x + length es < 32 then cycle_state x else \<not> cycle_state x)"
  by (rule poll_times_order [OF assms(1-4) assms(5) [unfolded events_posted_def]])

definition command_event :: "u32 \<Rightarrow> u32 \<Rightarrow> bool \<Rightarrow> Trb" where
  "command_event code slot_id cycle =
     \<lparr>parameter = 0, status = push_bit 24 code, control = push_bit 24 slot_id OR push_bit 10 33 OR bool_u32 cycle\<rparr>"

definition port_event :: "bool \<Rightarrow> Trb" where
  "port_event cycle = \<lparr>parameter = 0, status = 0, control = push_bit 10 34 OR bool_u32 cycle\<rparr>"

theorem poll_event_ring_in_order_witness:
  "\<exists>x' h. poll_times 2 quiet_machine xhci_example
        (kernel_start pg_example ()\<lparr>ram := trb_write (trb_write (ram pg_example) (trb_slot 0xFFFF800000010000 31) (command_event 1 5 True))
           (trb_slot 0xFFFF800000010000 0) (port_event False)\<rparr>)
      = Some (x', (kernel_start pg_example ())\<lparr>ram := trb_write (trb_write (ram pg_example) (trb_slot 0xFFFF800000010000 31) (command_event 1 5 True))
           (trb_slot 0xFFFF800000010000 0) (port_event False), completion_code := 1, completion_slot := 5,
           completion_pending := True, port_change_pending := True, outside := h\<rparr>)
    \<and> dequeue_index x' = 1 \<and> \<not> cycle_state x'"
proof -
  let ?m = "trb_write (trb_write (ram pg_example) (trb_slot 0xFFFF800000010000 31) (command_event 1 5 True))
           (trb_slot 0xFFFF800000010000 0) (port_event False)"
  let ?s = "kernel_start pg_example ()\<lparr>ram := ?m\<rparr>" and ?es = "[command_event 1 5 True, port_event False]"
  have "runtime_regs_ok quiet_machine xhci_example"
    by (simp add: runtime_regs_ok_def quiet_machine_def xhci_example_def)
  moreover have "events_posted xhci_example ?s ?es"
    by (simp add: events_posted_def xhci_example_def All_less_Suc trb_slot_write trb_cycle_def
        command_event_def port_event_def bool_u32_def)
  ultimately have *: "\<exists>x' h. poll_times (length ?es) quiet_machine xhci_example ?s
        = Some (x', (fold dispatch_event ?es ?s)\<lparr>outside := h\<rparr>)
    \<and> dequeue_index x' = (dequeue_index xhci_example + length ?es) mod 32
    \<and> cycle_state x' = (if dequeue_index xhci_example + length ?es < 32 then cycle_state xhci_example else \<not> cycle_state xhci_example)"
    by (intro poll_event_ring_in_order) (simp_all add: xhci_example_def)
  have "fold dispatch_event ?es ?s
      = ?s\<lparr>completion_code := 1, completion_slot := 5, completion_pending := True, port_change_pending := True\<rparr>"
    by (simp add: dispatch_event_if trb_type_def command_event_def port_event_def bool_u32_def)
  moreover have "length ?es = 2" "dequeue_index xhci_example = 31" "cycle_state xhci_example = True"
    by (simp_all add: xhci_example_def)
  ultimately show ?thesis using * by (simp only:) simp
qed

text \<open>
  A transfer event is routed by slot and endpoint: the report of the keyboard's interrupt
  endpoint to the keyboard's flags, that of the mouse to the mouse's, any other to the flags of the control
  transfers; the residual length is kept exactly. The completion code is kept only for control transfers: a
  report that failed is announced like one that arrived.
\<close>

theorem transfer_event_routing:
  assumes "slot_id < 256" "ep < 32" "code < 256" "residual < 2 ^ 24"
  shows "dispatch_event (transfer_event slot_id ep code residual c) s =
    (if kbd_dci s \<noteq> 0 \<and> slot_id = kbd_slot_id s \<and> ep = kbd_dci s
     then s\<lparr>kbd_report_len := residual, kbd_report_pending := True\<rparr>
     else if mouse_dci s \<noteq> 0 \<and> slot_id = mouse_slot_id s \<and> ep = mouse_dci s
     then s\<lparr>mouse_report_len := residual, mouse_report_pending := True\<rparr>
     else s\<lparr>transfer_completion_code := code, transfer_completion_length := residual, transfer_completion_pending := True\<rparr>)"
proof -
  have n: "((32 :: u32) = 34) = False" "((32 :: u32) = 33) = False" "((32 :: u32) = 32) = True" by simp_all
  show ?thesis
    by (simp only: dispatch_event_if for_kbd_def for_mouse_def transfer_event_fields [OF assms] n if_False if_True)
qed

theorem transfer_event_routing_witness:
  "dispatch_event (transfer_event 2 3 6 5 True) ((kernel_start pg_example ())\<lparr>mouse_dci := 3, mouse_slot_id := 2\<rparr>) =
     (kernel_start pg_example ())\<lparr>mouse_dci := 3, mouse_slot_id := 2, mouse_report_len := 5, mouse_report_pending := True\<rparr>"
  by (subst transfer_event_routing) (simp_all del: kernel.update_convs)

section \<open>Waiting for a command\<close>

text \<open>The register that holds the offset of the doorbells always reads a usable offset.\<close>

definition doorbells_ok :: "('h, 'e) machine_scheme \<Rightarrow> XHCI \<Rightarrow> bool" where
  "doorbells_ok io x \<longleftrightarrow>
     (\<forall>h. unat (virt_base x) + unat (fst (mrd32 io (virt_base x + 0x14) h) AND NOT 0x3) + 1024 < 2 ^ 64)"

lemma ring_doorbell_ok:
  assumes "doorbells_ok io x"
  shows "\<exists>h. ring_doorbell io x slot v s = Some (s\<lparr>outside := h\<rparr>)"
proof -
  let ?v = "fst (mrd32 io (virt_base x + 0x14) (outside s)) AND NOT 0x3"
  have b: "unat (virt_base x) + unat ?v + 1024 < 2 ^ 64"
    using assms by (simp add: doorbells_ok_def)
  then have 1: "checked_add (virt_base x) (ucast ?v) = Some (virt_base x + ucast ?v)"
    by (simp add: checked_add_def unsigned_ucast_eq take_bit_nat_eq_self)
  have v: "unat (virt_base x + ucast ?v) = unat (virt_base x) + unat ?v"
    using b by (subst unat_word_ariths) (simp add: unsigned_ucast_eq take_bit_nat_eq_self)
  have "unat slot < 256" using unsigned_less [of slot] by simp
  then have "unat (ucast slot * 4 :: u64) = unat slot * 4"
    by (simp add: unat_word_ariths unsigned_ucast_eq take_bit_nat_eq_self)
  with b v \<open>unat slot < 256\<close> have 2: "checked_add (virt_base x + ucast ?v) (ucast slot * 4)
      = Some (virt_base x + ucast ?v + ucast slot * 4)"
    by (simp add: checked_add_def)
  show ?thesis
    by (simp add: ring_doorbell_def dboff_def mmio_read32_def mmio_write32_def 1 2 split: prod.splits) (use 1 2 in auto)
qed

text \<open>
  \<open>send_command_and_wait\<close> never sees a completion: the field it waits on is written nowhere else
  (the interrupt handler reports completions through \<open>COMPLETION_PENDING\<close>), so whatever the controller
  answers in the meantime the call returns the error of its timeout.
\<close>

theorem send_command_and_wait_times_out:
  assumes "doorbells_ok io x" and "\<forall>s. tick s \<noteq> None"
  shows "\<exists>x' s'. send_command_and_wait io tick param stat ty slot_id x s = Some (Inl CompletionTimeout, x', s')"
proof -
  let ?x = "x\<lparr>last_completion := None\<rparr>"
  obtain x1 s1 where e: "enqueue_command param stat ty slot_id (?x, s) = (x1, s1)" by fastforce
  have "last_completion x1 = None"
    using enqueue_command_last [of param stat ty slot_id ?x s] by (simp add: e)
  moreover have "virt_base x1 = virt_base x"
    using e by (auto simp: enqueue_command_def Let_def)
  then have "doorbells_ok io x1" using assms(1) by (simp add: doorbells_ok_def)
  then obtain h where "ring_doorbell io x1 0 0 s1 = Some (s1\<lparr>outside := h\<rparr>)"
    using ring_doorbell_ok by blast
  moreover obtain s2 where "await_completion tick COMMAND_TIMEOUT x1 (s1\<lparr>outside := h\<rparr>) = Some (Inl CompletionTimeout, x1, s2)"
    using await_completion_none [of tick x1 COMMAND_TIMEOUT] assms(2) \<open>last_completion x1 = None\<close> by blast
  ultimately show ?thesis
    by (simp add: send_command_and_wait_def send_command_def e)
qed

theorem send_command_and_wait_times_out_witness:
  "\<exists>x' s'. send_command_and_wait quiet_machine
      (\<lambda>s. Some (s\<lparr>completion_pending := True, completion_code := 1, completion_slot := 1\<rparr>)) 0 0 9 0 xhci_example
      (kernel_start pg_example ()) = Some (Inl CompletionTimeout, x', s')"
  by (rule send_command_and_wait_times_out) (simp_all add: doorbells_ok_def quiet_machine_def xhci_example_def)

end
