(* ===== verification/Xhci_Device.thy ===== *)
theory Xhci_Device
  imports Xhci_Rings
begin

text \<open>
  \<^verbatim>\<open>kernel/src/usb/xhci.rs\<close>, from \<open>enable_slot\<close> on: the commands that manage device slots, the control
  transfers on endpoint 0, the configuration-descriptor parser and the configuration of an interrupt
  endpoint. These functions take \<open>XHCI_INSTANCE\<close>'s lock themselves, with interrupts off, and then spin on
  a flag that the interrupt handler sets. What happens between two looks at the flag (the devices move,
  an interrupt is served) is the parameter \<open>tick\<close>; it is instantiated with the interrupt handler of the
  kernel in the theory \<open>Kernel\<close>. A \<open>tick\<close> that is \<open>None\<close> never comes back.
\<close>

section \<open>The lock and the waiting loops\<close>

text \<open>\<open>XHCI_INSTANCE.get().unwrap().lock()\<close> around \<open>f\<close>.\<close>

definition with_xhci :: "(XHCI \<Rightarrow> ('h, 'z) kernel_scheme \<Rightarrow> (XHCI \<times> ('h, 'z) kernel_scheme) option)
    \<Rightarrow> ('h, 'z) kernel_scheme \<Rightarrow> ('h, 'z) kernel_scheme option" where
  "with_xhci f s = do {
     x \<leftarrow> xhci_instance s;
     (x, s) \<leftarrow> f x s;
     Some (s\<lparr>xhci_instance := Some x\<rparr>)
   }"

definition WAIT_LIMIT :: nat where "WAIT_LIMIT = 10000000"

fun wait_flag :: "(('h, 'z) kernel_scheme \<Rightarrow> ('h, 'z) kernel_scheme option) \<Rightarrow> (('h, 'z) kernel_scheme \<Rightarrow> bool) \<Rightarrow> nat
    \<Rightarrow> ('h, 'z) kernel_scheme \<Rightarrow> (bool \<times> ('h, 'z) kernel_scheme) option" where
  "wait_flag tick flag 0 s = Some (False, s)"
| "wait_flag tick flag (Suc n) s =
     (if flag s then Some (True, s) else do { s \<leftarrow> tick s; wait_flag tick flag n s })"

text \<open>
  One command: the flag is cleared, the command is sent under the lock after \<open>prep\<close> has set up the driver
  state, and the loop waits for the completion event.
\<close>

definition issue_command ::
  "('h, 'e) machine_scheme \<Rightarrow> (('h, 'z) kernel_scheme \<Rightarrow> ('h, 'z) kernel_scheme option) \<Rightarrow> (XHCI \<Rightarrow> XHCI) \<Rightarrow> u64 \<Rightarrow> u32 \<Rightarrow> u32
     \<Rightarrow> ('h, 'z) kernel_scheme \<Rightarrow> ((XhciError + unit) \<times> ('h, 'z) kernel_scheme) option" where
  "issue_command io tick prep param ty slot_id s = do {
     let s = s\<lparr>completion_pending := False\<rparr>;
     s \<leftarrow> with_xhci (\<lambda>x s. send_command io param 0 ty slot_id (prep x) s) s;
     (seen, s) \<leftarrow> wait_flag tick completion_pending WAIT_LIMIT s;
     Some (if \<not> seen then Inl CompletionTimeout
           else if completion_code s = 1 then Inr () else Inl CommandFailed, s)
   }"

definition TRB_TYPE_ENABLE_SLOT :: u32 where "TRB_TYPE_ENABLE_SLOT = 9"
definition TRB_TYPE_DISABLE_SLOT :: u32 where "TRB_TYPE_DISABLE_SLOT = 10"
definition TRB_TYPE_ADDRESS_DEVICE :: u32 where "TRB_TYPE_ADDRESS_DEVICE = 11"
definition TRB_TYPE_CONFIGURE_ENDPOINT :: u32 where "TRB_TYPE_CONFIGURE_ENDPOINT = 12"

definition phys_or_error :: "u64 \<Rightarrow> ('h, 'z) kernel_scheme \<Rightarrow> ((XhciError + u64) \<times> ('h, 'z) kernel_scheme) option" where
  "phys_or_error v s =
     (case virtual_to_physical s v of
        None \<Rightarrow> None
      | Some None \<Rightarrow> Some (Inl NoTranslation, s)
      | Some (Some p) \<Rightarrow> Some (Inr p, s))"

section \<open>Slots\<close>

definition enable_slot :: "('h, 'e) machine_scheme \<Rightarrow> (('h, 'z) kernel_scheme \<Rightarrow> ('h, 'z) kernel_scheme option)
    \<Rightarrow> ('h, 'z) kernel_scheme \<Rightarrow> ((XhciError + u32) \<times> ('h, 'z) kernel_scheme) option" where
  "enable_slot io tick s =
     try_bind (issue_command io tick id 0 TRB_TYPE_ENABLE_SLOT 0 s) (\<lambda>_ s. Some (Inr (completion_slot s), s))"

definition dcbaa_entry :: "XHCI \<Rightarrow> u32 \<Rightarrow> u64" where
  "dcbaa_entry x slot_id = dcbaa_virt x + 8 * ucast slot_id"

definition disable_slot :: "('h, 'e) machine_scheme \<Rightarrow> (('h, 'z) kernel_scheme \<Rightarrow> ('h, 'z) kernel_scheme option) \<Rightarrow> u32
    \<Rightarrow> ('h, 'z) kernel_scheme \<Rightarrow> ((XhciError + unit) \<times> ('h, 'z) kernel_scheme) option" where
  "disable_slot io tick slot_id s =
     try_bind (issue_command io tick id 0 TRB_TYPE_DISABLE_SLOT slot_id s) (\<lambda>_ s. do {
       x \<leftarrow> xhci_instance s;
       Some (Inr (), s\<lparr>ram := wr64 (ram s) (dcbaa_entry x slot_id) 0\<rparr>)
     })"

definition max_packet_size_of :: "u8 \<Rightarrow> u32" where
  "max_packet_size_of speed = (if speed = 4 then 512 else if speed = 3 then 64 else if speed = 2 then 8 else 8)"

text \<open>
  The contexts in memory (\<open>repr(C)\<close>): 32 bytes each, the input control context first, then the slot context,
  then the endpoint contexts.
\<close>

definition addr_low :: "u64 \<Rightarrow> u32" where
  "addr_low ring_phys = ((ucast ring_phys :: u32) AND NOT 0xF) OR 1"

definition addr_high :: "u64 \<Rightarrow> u32" where
  "addr_high ring_phys = ucast (drop_bit 32 ring_phys)"

definition write_input_context :: "u64 \<Rightarrow> u64 \<Rightarrow> u8 \<Rightarrow> u8 \<Rightarrow> mem \<Rightarrow> mem" where
  "write_input_context a ring_phys root_port speed m =
     (let m = wr32 m (a + 4) 3;
          m = wr32 m (a + 32) (push_bit 27 1 OR push_bit 20 (ucast speed));
          m = wr32 m (a + 36) (push_bit 16 (ucast root_port));
          m = wr32 m (a + 68) (push_bit 3 4 OR push_bit 1 3 OR push_bit 16 (max_packet_size_of speed));
          m = wr32 m (a + 72) (addr_low ring_phys);
          m = wr32 m (a + 76) (addr_high ring_phys)
      in wr32 m (a + 80) 8)"

definition address_device :: "('h, 'e) machine_scheme \<Rightarrow> (('h, 'z) kernel_scheme \<Rightarrow> ('h, 'z) kernel_scheme option)
    \<Rightarrow> u32 \<Rightarrow> u8 \<Rightarrow> u8 \<Rightarrow> ('h, 'z) kernel_scheme \<Rightarrow> ((XhciError + unit) \<times> ('h, 'z) kernel_scheme) option" where
  "address_device io tick slot_id root_port speed s = do {
     (ring, s) \<leftarrow> box_zeroed io 256 64 s;
     try_bind (phys_or_error ring s) (\<lambda>ring_phys s. do {
       (dev_ctx, s) \<leftarrow> box_zeroed io 1024 64 s;
       try_bind (phys_or_error dev_ctx s) (\<lambda>dev_ctx_phys s. do {
         x \<leftarrow> xhci_instance s;
         let s = s\<lparr>ram := wr64 (ram s) (dcbaa_entry x slot_id) dev_ctx_phys\<rparr>;
         (input_ctx, s) \<leftarrow> box_zeroed io 128 64 s;
         let s = s\<lparr>ram := write_input_context input_ctx ring_phys root_port speed (ram s)\<rparr>;
         try_bind (phys_or_error input_ctx s) (\<lambda>input_ctx_phys s.
           issue_command io tick
             (\<lambda>x. x\<lparr>ep0_ring_virt := ring, ep0_ring_phys := ring_phys, ep0_enqueue_index := 0, ep0_cycle_state := True\<rparr>)
             input_ctx_phys TRB_TYPE_ADDRESS_DEVICE slot_id s)
       })
     })
   }"

section \<open>Control transfers\<close>

definition TRB_TYPE_SETUP_STAGE :: u32 where "TRB_TYPE_SETUP_STAGE = 2"
definition TRB_TYPE_DATA_STAGE :: u32 where "TRB_TYPE_DATA_STAGE = 3"
definition TRB_TYPE_STATUS_STAGE :: u32 where "TRB_TYPE_STATUS_STAGE = 4"
definition USB_REQ_GET_DESCRIPTOR :: u8 where "USB_REQ_GET_DESCRIPTOR = 0x06"
definition USB_DESC_TYPE_DEVICE :: u8 where "USB_DESC_TYPE_DEVICE = 0x01"

definition setup_packet :: "u8 \<Rightarrow> u8 \<Rightarrow> u16 \<Rightarrow> u16 \<Rightarrow> u16 \<Rightarrow> u64" where
  "setup_packet bm_request_type b_request w_value w_index w_length =
     ucast bm_request_type OR push_bit 8 (ucast b_request) OR push_bit 16 (ucast w_value)
       OR push_bit 32 (ucast w_index) OR push_bit 48 (ucast w_length)"

text \<open>The TRBs of a transfer with a data stage into a buffer, and of one without.\<close>

definition control_in_trbs :: "u64 \<Rightarrow> u64 \<Rightarrow> u32 \<Rightarrow> (u64 \<times> u32 \<times> u32) list" where
  "control_in_trbs setup buf_phys len =
     [(setup, 8, push_bit 10 TRB_TYPE_SETUP_STAGE OR push_bit 6 1 OR push_bit 16 3),
      (buf_phys, len AND 0x1FFFF, push_bit 10 TRB_TYPE_DATA_STAGE OR push_bit 16 1),
      (0, 0, push_bit 10 TRB_TYPE_STATUS_STAGE OR push_bit 5 1)]"

definition control_no_data_trbs :: "u64 \<Rightarrow> (u64 \<times> u32 \<times> u32) list" where
  "control_no_data_trbs setup =
     [(setup, 8, push_bit 10 TRB_TYPE_SETUP_STAGE OR push_bit 6 1 OR push_bit 16 0),
      (0, 0, push_bit 10 TRB_TYPE_STATUS_STAGE OR push_bit 5 1 OR push_bit 16 1)]"

text \<open>
  A control transfer up to its completion event: \<open>ep0_put\<close> is \<open>ep0_enqueue_trb\<close> on its three arguments. The
  result is the completion code.
\<close>

definition control_transfer ::
  "('h, 'e) machine_scheme \<Rightarrow> (('h, 'z) kernel_scheme \<Rightarrow> ('h, 'z) kernel_scheme option) \<Rightarrow> u32 \<Rightarrow> (u64 \<times> u32 \<times> u32) list
     \<Rightarrow> ('h, 'z) kernel_scheme \<Rightarrow> ((XhciError + u32) \<times> ('h, 'z) kernel_scheme) option" where
  "control_transfer io tick slot_id trbs s = do {
     let s = s\<lparr>transfer_completion_pending := False\<rparr>;
     s \<leftarrow> with_xhci (\<lambda>x s. do {
       let (x, s) = fold ep0_put trbs (x, s);
       s \<leftarrow> ring_doorbell io x (ucast slot_id) 1 s;
       Some (x, s) }) s;
     (seen, s) \<leftarrow> wait_flag tick transfer_completion_pending WAIT_LIMIT s;
     Some (if seen then Inr (transfer_completion_code s) else Inl CompletionTimeout, s)
   }"

definition rd16 :: "mem \<Rightarrow> u64 \<Rightarrow> u16" where
  "rd16 m a = of_le_bytes (mem_read m a 2)"

record DeviceDescriptor =
  dd_length :: u8
  dd_descriptor_type :: u8
  bcd_usb :: u16
  device_class :: u8
  device_subclass :: u8
  device_protocol :: u8
  max_packet_size0 :: u8
  dd_vendor_id :: u16
  dd_product_id :: u16
  bcd_device :: u16
  manufacturer_index :: u8
  product_index :: u8
  serial_number_index :: u8
  num_configurations :: u8

definition read_device_descriptor :: "mem \<Rightarrow> u64 \<Rightarrow> DeviceDescriptor" where
  "read_device_descriptor m a =
     \<lparr>dd_length = m a, dd_descriptor_type = m (a + 1), bcd_usb = rd16 m (a + 2), device_class = m (a + 4),
      device_subclass = m (a + 5), device_protocol = m (a + 6), max_packet_size0 = m (a + 7),
      dd_vendor_id = rd16 m (a + 8), dd_product_id = rd16 m (a + 10), bcd_device = rd16 m (a + 12),
      manufacturer_index = m (a + 14), product_index = m (a + 15), serial_number_index = m (a + 16),
      num_configurations = m (a + 17)\<rparr>"

definition get_device_descriptor :: "('h, 'e) machine_scheme \<Rightarrow> (('h, 'z) kernel_scheme \<Rightarrow> ('h, 'z) kernel_scheme option)
    \<Rightarrow> u32 \<Rightarrow> ('h, 'z) kernel_scheme \<Rightarrow> ((XhciError + DeviceDescriptor) \<times> ('h, 'z) kernel_scheme) option" where
  "get_device_descriptor io tick slot_id s = do {
     (buf, s) \<leftarrow> box_zeroed io 18 1 s;
     try_bind (phys_or_error buf s) (\<lambda>buf_phys s.
       let setup = setup_packet 0x80 USB_REQ_GET_DESCRIPTOR (push_bit 8 (ucast USB_DESC_TYPE_DEVICE)) 0 18 in
       try_bind (control_transfer io tick slot_id (control_in_trbs setup buf_phys 18) s) (\<lambda>code s.
         if code \<noteq> 1 \<and> code \<noteq> 13 then Some (Inl TransferFailed, s)
         else Some (Inr (read_device_descriptor (ram s) buf), s)))
   }"

definition saturating_sub :: "u32 \<Rightarrow> u32 \<Rightarrow> u32" where
  "saturating_sub a b = (if b \<le> a then a - b else 0)"

definition control_transfer_in ::
  "('h, 'e) machine_scheme \<Rightarrow> (('h, 'z) kernel_scheme \<Rightarrow> ('h, 'z) kernel_scheme option) \<Rightarrow> u32 \<Rightarrow> u8 \<Rightarrow> u8 \<Rightarrow> u16 \<Rightarrow> u16
     \<Rightarrow> u64 \<Rightarrow> u16 \<Rightarrow> ('h, 'z) kernel_scheme \<Rightarrow> ((XhciError + u32) \<times> ('h, 'z) kernel_scheme) option" where
  "control_transfer_in io tick slot_id bm_request_type b_request w_value w_index buf_phys w_length s =
     (let setup = setup_packet bm_request_type b_request w_value w_index w_length in
      try_bind (control_transfer io tick slot_id (control_in_trbs setup buf_phys (ucast w_length)) s) (\<lambda>code s.
        if code \<noteq> 1 \<and> code \<noteq> 13 then Some (Inl TransferFailed, s)
        else Some (Inr (saturating_sub (ucast w_length) (transfer_completion_length s)), s)))"

definition control_transfer_no_data ::
  "('h, 'e) machine_scheme \<Rightarrow> (('h, 'z) kernel_scheme \<Rightarrow> ('h, 'z) kernel_scheme option) \<Rightarrow> u32 \<Rightarrow> u8 \<Rightarrow> u8 \<Rightarrow> u16 \<Rightarrow> u16
     \<Rightarrow> ('h, 'z) kernel_scheme \<Rightarrow> ((XhciError + unit) \<times> ('h, 'z) kernel_scheme) option" where
  "control_transfer_no_data io tick slot_id bm_request_type b_request w_value w_index s =
     (let setup = setup_packet bm_request_type b_request w_value w_index 0 in
      try_bind (control_transfer io tick slot_id (control_no_data_trbs setup) s) (\<lambda>code s.
        Some (if code = 1 then Inr () else Inl TransferFailed, s)))"

section \<open>The configuration descriptor\<close>

definition USB_DESC_TYPE_CONFIGURATION :: u8 where "USB_DESC_TYPE_CONFIGURATION = 0x02"
definition USB_DESC_TYPE_INTERFACE :: u8 where "USB_DESC_TYPE_INTERFACE = 0x04"
definition USB_DESC_TYPE_ENDPOINT :: u8 where "USB_DESC_TYPE_ENDPOINT = 0x05"

record EndpointInfo =
  ep_address :: u8
  ep_attributes :: u8
  ep_max_packet_size :: u16
  ep_interval :: u8
  inteface_number :: u8
  interface_class :: u8
  interface_protocol :: u8

text \<open>Indexing a slice: a panic outside it.\<close>

definition index :: "'a list \<Rightarrow> nat \<Rightarrow> 'a option" where
  "index xs i = (if i < length xs then Some (xs ! i) else None)"

text \<open>The loop over the descriptors, from position \<open>i\<close> with the current interface; the endpoints it finds.\<close>

function parse_descriptors :: "u8 list \<Rightarrow> nat \<Rightarrow> u8 \<Rightarrow> u8 \<Rightarrow> u8 \<Rightarrow> EndpointInfo list option" where
  "parse_descriptors buf i iface cls prot =
     (if i + 2 \<le> length buf then
        let b_length = unat (buf ! i); b_descriptor_type = buf ! (i + 1) in
        if b_length = 0 \<or> i + b_length > length buf then Some []
        else if b_descriptor_type = USB_DESC_TYPE_INTERFACE then do {
          iface \<leftarrow> index buf (i + 2);
          cls \<leftarrow> index buf (i + 5);
          prot \<leftarrow> index buf (i + 7);
          parse_descriptors buf (i + b_length) iface cls prot
        }
        else if b_descriptor_type = USB_DESC_TYPE_ENDPOINT then do {
          addr \<leftarrow> index buf (i + 2);
          attributes \<leftarrow> index buf (i + 3);
          lo \<leftarrow> index buf (i + 4);
          hi \<leftarrow> index buf (i + 5);
          interval \<leftarrow> index buf (i + 6);
          let found = (if addr AND 0x80 \<noteq> 0 \<and> attributes AND 0x3 = 0x3
            then [\<lparr>ep_address = addr, ep_attributes = attributes, ep_max_packet_size = ucast lo OR push_bit 8 (ucast hi),
                   ep_interval = interval, inteface_number = iface, interface_class = cls, interface_protocol = prot\<rparr>]
            else []);
          rest \<leftarrow> parse_descriptors buf (i + b_length) iface cls prot;
          Some (found @ rest)
        }
        else parse_descriptors buf (i + b_length) iface cls prot
      else Some [])"
  by pat_completeness auto
termination
  by (relation "measure (\<lambda>(buf, i, _). length buf - i)") auto

declare parse_descriptors.simps [simp del]

definition get_configuration_descriptor_and_find_interrupt_endpoints ::
  "('h, 'e) machine_scheme \<Rightarrow> (('h, 'z) kernel_scheme \<Rightarrow> ('h, 'z) kernel_scheme option) \<Rightarrow> u32 \<Rightarrow> ('h, 'z) kernel_scheme
     \<Rightarrow> ((XhciError + EndpointInfo list) \<times> ('h, 'z) kernel_scheme) option" where
  "get_configuration_descriptor_and_find_interrupt_endpoints io tick slot_id s = do {
     (buf, s) \<leftarrow> box_zeroed io 256 1 s;
     try_bind (phys_or_error buf s) (\<lambda>buf_phys s.
       try_bind (control_transfer_in io tick slot_id 0x80 USB_REQ_GET_DESCRIPTOR
           (push_bit 8 (ucast USB_DESC_TYPE_CONFIGURATION)) 0 buf_phys 256 s) (\<lambda>actual_len s. do {
         found \<leftarrow> parse_descriptors (mem_read (ram s) buf (unat actual_len)) 0 0 0 0;
         Some (if found = [] then Inl NoInterruptEndpoint else Inr found, s)
       }))
   }"

section \<open>Configuring an interrupt endpoint\<close>

record EndpointHandle =
  eh_ring_virt :: u64
  eh_ring_phys :: u64
  eh_dci :: u32

definition dci_of :: "u8 \<Rightarrow> u32" where
  "dci_of addr = ucast (addr AND 0x0F) * 2 + (if addr AND 0x80 \<noteq> 0 then 1 else 0)"

definition write_endpoint_context :: "u64 \<Rightarrow> u32 \<Rightarrow> nat \<Rightarrow> u8 \<Rightarrow> u64 \<Rightarrow> EndpointInfo \<Rightarrow> mem \<Rightarrow> mem" where
  "write_endpoint_context a dci idx root_port ring_phys ep m =
     (let m = wr32 m (a + 4) (push_bit 0 1 OR push_bit (unat dci) 1);
          m = wr32 m (a + 32) (push_bit 27 dci OR push_bit 20 3);
          m = wr32 m (a + 36) (push_bit 16 (ucast root_port));
          c = a + 64 + 32 * of_nat idx;
          m = wr32 m c (push_bit 16 (saturating_sub (ucast (ep_interval ep)) 1));
          m = wr32 m (c + 4) (push_bit 3 7 OR push_bit 1 3 OR push_bit 16 (ucast (ep_max_packet_size ep)));
          m = wr32 m (c + 8) (addr_low ring_phys);
          m = wr32 m (c + 12) (addr_high ring_phys)
      in wr32 m (c + 16) (ucast (ep_max_packet_size ep)))"

definition configure_endpoint :: "('h, 'e) machine_scheme \<Rightarrow> (('h, 'z) kernel_scheme \<Rightarrow> ('h, 'z) kernel_scheme option)
    \<Rightarrow> u32 \<Rightarrow> u8 \<Rightarrow> EndpointInfo \<Rightarrow> ('h, 'z) kernel_scheme \<Rightarrow> ((XhciError + EndpointHandle) \<times> ('h, 'z) kernel_scheme) option" where
  "configure_endpoint io tick slot_id root_port ep s = do {
     let dci = dci_of (ep_address ep);
     (ring, s) \<leftarrow> box_zeroed io 256 64 s;
     try_bind (phys_or_error ring s) (\<lambda>ring_phys s. do {
       let s = s\<lparr>ram := write_link_trb ring ring_phys CONTROL_RING_SIZE True (ram s)\<rparr>;
       (input_ctx, s) \<leftarrow> box_zeroed io 1088 64 s;
       idx \<leftarrow> checked_sub dci 1;
       let s = s\<lparr>ram := write_endpoint_context input_ctx dci (unat idx) root_port ring_phys ep (ram s)\<rparr>;
       try_bind (phys_or_error input_ctx s) (\<lambda>input_ctx_phys s.
         try_bind (issue_command io tick id input_ctx_phys TRB_TYPE_CONFIGURE_ENDPOINT slot_id s) (\<lambda>_ s.
           Some (Inr \<lparr>eh_ring_virt = ring, eh_ring_phys = ring_phys, eh_dci = dci\<rparr>, s)))
     })
   }"

end
