(* ===== verification/Slot_Commands.thy ===== *)
theory Slot_Commands
  imports Xhci_Device
begin

text \<open>
  What the slot commands of \<open>Xhci_Device\<close> return: the loop that waits for a flag as a search in the run of
  the system, the outcome of a command on every branch, and the layout of the contexts that are handed to
  the controller.
\<close>

section \<open>Waiting for a flag\<close>

text \<open>
  When every tick returns, the run from \<open>s\<close> is \<open>s\<close>, \<open>f s\<close>, \<open>f (f s)\<close>, ... The loop stops at the first state
  whose flag is up, or after \<open>n\<close> ticks.
\<close>

definition first_up :: "('s \<Rightarrow> 's) \<Rightarrow> ('s \<Rightarrow> bool) \<Rightarrow> nat \<Rightarrow> 's \<Rightarrow> nat" where
  "first_up f flag n s = length (takeWhile (\<lambda>k. \<not> flag ((f ^^ k) s)) [0..<n])"

lemma first_up_0 [simp]: "first_up f flag 0 s = 0"
  by (simp add: first_up_def)

lemma first_up_Suc: "first_up f flag (Suc n) s = (if flag s then 0 else Suc (first_up f flag n (f s)))"
proof -
  have "[0..<Suc n] = 0 # map Suc [0..<n]" by (simp add: upt_conv_Cons map_Suc_upt)
  then show ?thesis
    by (simp add: first_up_def takeWhile_map comp_def funpow_swap1)
qed

lemma first_up_le: "first_up f flag n s \<le> n"
  using length_takeWhile_le [of _ "[0..<n]"] by (simp add: first_up_def)

lemma first_up_before: "k < first_up f flag n s \<Longrightarrow> \<not> flag ((f ^^ k) s)"
proof (induction n arbitrary: s k)
  case (Suc n)
  then show ?case by (cases k) (auto simp: first_up_Suc funpow_swap1 split: if_splits)
qed simp

lemma first_up_at: "first_up f flag n s < n \<Longrightarrow> flag ((f ^^ first_up f flag n s) s)"
  by (induction n arbitrary: s) (auto simp: first_up_Suc funpow_swap1 split: if_splits)

lemma first_up_1: "\<not> flag s \<Longrightarrow> flag (f s) \<Longrightarrow> 1 < n \<Longrightarrow> first_up f flag n s = 1"
  by (cases n; cases "n - 1") (auto simp: first_up_Suc)

lemma wait_flag_first:
  "wait_flag (\<lambda>s. Some (f s)) flag n s =
     Some (first_up f flag n s < n, (f ^^ first_up f flag n s) s)"
  by (induction n arbitrary: s) (auto simp: first_up_Suc funpow_swap1)

section \<open>The outcome of a command\<close>

text \<open>The state after the command is on the ring and the doorbell has rung.\<close>

definition command_sent :: "XHCI \<Rightarrow> u64 \<times> u32 \<times> u32 \<times> u32 \<Rightarrow> 'h \<Rightarrow> ('h, 'z) kernel_scheme \<Rightarrow> ('h, 'z) kernel_scheme" where
  "command_sent x r h s =
     (let (x, s) = cmd_put r (x, s\<lparr>completion_pending := False\<rparr>) in s\<lparr>outside := h, xhci_instance := Some x\<rparr>)"

lemma issue_command_outcome:
  assumes x: "xhci_instance s = Some x" and db: "doorbells_ok io (prep x)"
  shows "\<exists>h. issue_command io (\<lambda>s. Some (f s)) prep param ty slot_id s =
    (let s1 = command_sent (prep x) (param, 0, ty, slot_id) h s;
         n = first_up f completion_pending WAIT_LIMIT s1; s2 = (f ^^ n) s1
     in Some (if n = WAIT_LIMIT then Inl CompletionTimeout
              else if completion_code s2 = 1 then Inr () else Inl CommandFailed, s2))"
proof -
  let ?s = "s\<lparr>completion_pending := False\<rparr>"
  obtain x1 s1 where e: "enqueue_command param 0 ty slot_id (prep x, ?s) = (x1, s1)" by fastforce
  have "doorbells_ok io x1"
    using db e by (auto simp: doorbells_ok_def enqueue_command_def Let_def)
  then obtain h where h: "ring_doorbell io x1 0 0 s1 = Some (s1\<lparr>outside := h\<rparr>)"
    using ring_doorbell_ok by blast
  let ?t = "s1\<lparr>outside := h, xhci_instance := Some x1\<rparr>"
  have t: "command_sent (prep x) (param, 0, ty, slot_id) h s = ?t"
    by (simp add: command_sent_def cmd_put_def e)
  have le: "first_up f completion_pending WAIT_LIMIT ?t \<le> WAIT_LIMIT" by (rule first_up_le)
  have "issue_command io (\<lambda>s. Some (f s)) prep param ty slot_id s =
    (let n = first_up f completion_pending WAIT_LIMIT ?t; s2 = (f ^^ n) ?t
     in Some (if n = WAIT_LIMIT then Inl CompletionTimeout
              else if completion_code s2 = 1 then Inr () else Inl CommandFailed, s2))"
    using x h le
    by (simp add: issue_command_def with_xhci_def send_command_def e wait_flag_first Let_def nat_less_le)
  with t show ?thesis by (intro exI [of _ h]) (simp only: Let_def)
qed

text \<open>The same for a control transfer: all its TRBs are on the ring when the doorbell rings.\<close>

definition transfer_sent :: "XHCI \<Rightarrow> (u64 \<times> u32 \<times> u32) list \<Rightarrow> 'h \<Rightarrow> ('h, 'z) kernel_scheme \<Rightarrow> ('h, 'z) kernel_scheme" where
  "transfer_sent x trbs h s =
     (let (x, s) = fold ep0_put trbs (x, s\<lparr>transfer_completion_pending := False\<rparr>) in s\<lparr>outside := h, xhci_instance := Some x\<rparr>)"

lemma fold_ep0_put_base: "virt_base (fst (fold ep0_put trbs (x, s))) = virt_base x"
  by (induction trbs arbitrary: x s) (auto simp: ep0_put_eq)

lemma fold_ep0_put_frame: "\<exists>m. snd (fold ep0_put trbs (x, s)) = s\<lparr>ram := m\<rparr>"
proof (induction trbs arbitrary: x s)
  case Nil
  show ?case by (intro exI [of _ "ram s"]) simp
next
  case (Cons r trbs)
  obtain x1 m1 where "ep0_put r (x, s) = (x1, s\<lparr>ram := m1\<rparr>)" by (simp add: ep0_put_eq)
  then show ?case using Cons.IH [of x1 "s\<lparr>ram := m1\<rparr>"] by simp
qed

lemma transfer_sent_frame:
  "\<exists>m y. transfer_sent x trbs h s = s\<lparr>ram := m, transfer_completion_pending := False, outside := h, xhci_instance := Some y\<rparr>
     \<and> virt_base y = virt_base x"
proof -
  let ?s = "s\<lparr>transfer_completion_pending := False\<rparr>"
  obtain y t where e: "fold ep0_put trbs (x, ?s) = (y, t)" by fastforce
  obtain m where "t = ?s\<lparr>ram := m\<rparr>" using fold_ep0_put_frame [of trbs x ?s] e by auto
  moreover have "virt_base y = virt_base x" using fold_ep0_put_base [of trbs x ?s] e by simp
  ultimately show ?thesis
    by (intro exI [of _ m] exI [of _ y]) (simp add: transfer_sent_def e)
qed

lemma control_transfer_outcome:
  assumes x: "xhci_instance s = Some x" and db: "doorbells_ok io x"
  shows "\<exists>h. control_transfer io (\<lambda>s. Some (f s)) slot trbs s =
    (let s1 = transfer_sent x trbs h s;
         n = first_up f transfer_completion_pending WAIT_LIMIT s1; s2 = (f ^^ n) s1
     in Some (if n = WAIT_LIMIT then Inl CompletionTimeout else Inr (transfer_completion_code s2), s2))"
proof -
  let ?s = "s\<lparr>transfer_completion_pending := False\<rparr>"
  obtain x1 s1 where e: "fold ep0_put trbs (x, ?s) = (x1, s1)" by fastforce
  have "doorbells_ok io x1"
    using db e fold_ep0_put_base [of trbs x ?s] by (simp add: doorbells_ok_def)
  then obtain h where h: "ring_doorbell io x1 (ucast slot) 1 s1 = Some (s1\<lparr>outside := h\<rparr>)"
    using ring_doorbell_ok by blast
  let ?t = "s1\<lparr>outside := h, xhci_instance := Some x1\<rparr>"
  have t: "transfer_sent x trbs h s = ?t"
    by (simp add: transfer_sent_def e)
  have le: "first_up f transfer_completion_pending WAIT_LIMIT ?t \<le> WAIT_LIMIT" by (rule first_up_le)
  have "control_transfer io (\<lambda>s. Some (f s)) slot trbs s =
    (let n = first_up f transfer_completion_pending WAIT_LIMIT ?t; s2 = (f ^^ n) ?t
     in Some (if n = WAIT_LIMIT then Inl CompletionTimeout else Inr (transfer_completion_code s2), s2))"
    using x h le
    by (simp add: control_transfer_def with_xhci_def e wait_flag_first Let_def nat_less_le)
  with t show ?thesis by (intro exI [of _ h]) (simp only: Let_def)
qed

text \<open>
  \<open>enable_slot\<close> always returns when interrupts and devices do: it puts one Enable Slot command
  on the ring and takes the first completion within its limit of ten million looks. The slot is the one of
  that completion if its code says success, and any other code and the lack of a completion are errors.
\<close>

theorem enable_slot_outcome:
  assumes "xhci_instance s = Some x" and "doorbells_ok io x"
  shows "\<exists>h. enable_slot io (\<lambda>s. Some (f s)) s =
    (let s1 = command_sent x (0, 0, TRB_TYPE_ENABLE_SLOT, 0) h s;
         n = first_up f completion_pending WAIT_LIMIT s1; s2 = (f ^^ n) s1
     in Some (if n = WAIT_LIMIT then Inl CompletionTimeout
              else if completion_code s2 = 1 then Inr (completion_slot s2) else Inl CommandFailed, s2))"
proof -
  obtain h where "issue_command io (\<lambda>s. Some (f s)) id 0 TRB_TYPE_ENABLE_SLOT 0 s =
    (let s1 = command_sent x (0, 0, TRB_TYPE_ENABLE_SLOT, 0) h s;
         n = first_up f completion_pending WAIT_LIMIT s1; s2 = (f ^^ n) s1
     in Some (if n = WAIT_LIMIT then Inl CompletionTimeout
              else if completion_code s2 = 1 then Inr () else Inl CommandFailed, s2))"
    using issue_command_outcome [of s x io id f 0 TRB_TYPE_ENABLE_SLOT 0] assms by auto
  then show ?thesis
    by (intro exI [of _ h]) (simp add: enable_slot_def Let_def)
qed

text \<open>An example: the controller answers the command at the first look.\<close>

definition running_example :: "unit kernel" where
  "running_example = kernel_start pg_example () \<lparr>xhci_instance := Some xhci_example\<rparr>"

definition answer :: "u32 \<Rightarrow> u32 \<Rightarrow> unit kernel \<Rightarrow> unit kernel" where
  "answer code slot_id s = s\<lparr>completion_pending := True, completion_code := code, completion_slot := slot_id\<rparr>"

lemma command_sent_pending [simp]: "\<not> completion_pending (command_sent x r h s)"
  by (cases "cmd_put r (x, s\<lparr>completion_pending := False\<rparr>)") (auto simp: command_sent_def cmd_put_eq)

lemma answer_first: "first_up (answer code slot_id) completion_pending WAIT_LIMIT (command_sent x r h s) = 1"
  by (rule first_up_1) (simp_all add: answer_def WAIT_LIMIT_def)

lemma running_example_ok:
  "xhci_instance running_example = Some xhci_example" "doorbells_ok quiet_machine xhci_example"
  by (simp_all add: running_example_def doorbells_ok_def quiet_machine_def xhci_example_def)

theorem enable_slot_outcome_witness:
  "\<exists>s'. enable_slot quiet_machine (\<lambda>s. Some (answer 1 7 s)) running_example = Some (Inr 7, s')"
  using enable_slot_outcome [OF running_example_ok, of "answer 1 7"]
  by (auto simp: Let_def answer_first) (auto simp: answer_def WAIT_LIMIT_def)

text \<open>
  \<open>disable_slot\<close> clears the slot's entry of the device context array exactly when the controller
  confirms the command within the limit; after an error the entry stays as it was.
\<close>

theorem disable_slot_outcome:
  assumes "xhci_instance s = Some x" and "doorbells_ok io x" and "\<forall>s. xhci_instance (f s) = xhci_instance s"
  shows "\<exists>h. disable_slot io (\<lambda>s. Some (f s)) slot_id s =
    (let s1 = command_sent x (0, 0, TRB_TYPE_DISABLE_SLOT, slot_id) h s;
         n = first_up f completion_pending WAIT_LIMIT s1; s2 = (f ^^ n) s1
     in Some (if n = WAIT_LIMIT then (Inl CompletionTimeout, s2)
              else if completion_code s2 = 1 then (Inr (), s2\<lparr>ram := wr64 (ram s2) (dcbaa_entry x slot_id) 0\<rparr>)
              else (Inl CommandFailed, s2)))"
proof -
  let ?t = "\<lambda>h. command_sent x (0, 0, TRB_TYPE_DISABLE_SLOT, slot_id) h s"
  let ?n = "\<lambda>h. first_up f completion_pending WAIT_LIMIT (?t h)"
  obtain h where h: "issue_command io (\<lambda>s. Some (f s)) id 0 TRB_TYPE_DISABLE_SLOT slot_id s =
      (let s1 = ?t h; n = first_up f completion_pending WAIT_LIMIT s1; s2 = (f ^^ n) s1
       in Some (if n = WAIT_LIMIT then Inl CompletionTimeout
                else if completion_code s2 = 1 then Inr () else Inl CommandFailed, s2))"
    using issue_command_outcome [of s x io id f 0 TRB_TYPE_DISABLE_SLOT slot_id] assms(1,2) by auto
  have "xhci_instance ((f ^^ k) u) = xhci_instance u" for k u
    by (induction k) (simp_all add: assms(3))
  moreover obtain x1 where "xhci_instance (?t h) = Some x1" "dcbaa_virt x1 = dcbaa_virt x"
    by (simp add: command_sent_def cmd_put_eq split: if_splits)
  ultimately have "xhci_instance ((f ^^ ?n h) (?t h)) = Some x1" "dcbaa_entry x1 slot_id = dcbaa_entry x slot_id"
    by (simp_all add: dcbaa_entry_def)
  with h show ?thesis
    by (intro exI [of _ h]) (simp add: disable_slot_def Let_def)
qed

theorem disable_slot_outcome_witness:
  "\<exists>s'. disable_slot quiet_machine (\<lambda>s. Some (answer 1 7 s)) 7 running_example = Some (Inr (), s')
      \<and> rd64 (ram s') (dcbaa_entry xhci_example 7) = 0"
proof -
  have "\<forall>s. xhci_instance (answer 1 7 s) = xhci_instance s" by (simp add: answer_def)
  from disable_slot_outcome [OF running_example_ok this, of 7] show ?thesis
    by (auto simp: Let_def answer_first) (auto simp: answer_def WAIT_LIMIT_def rd64_wr64_same)
qed

section \<open>The contexts in memory\<close>

text \<open>
  The words of an input context, as a list of writes; \<open>c32\<close> gives what is read after them.
\<close>

lemma wr32s: "fold (\<lambda>(a, v) m. wr32 m a v) [] m = m"
  "fold (\<lambda>(a, v) m. wr32 m a v) ((b, v) # ws) m = fold (\<lambda>(a, v) m. wr32 m a v) ws (wr32 m b v)"
  by simp_all

lemma words_apart:
  assumes "unat x + 4 \<le> unat y \<or> unat y + 4 \<le> unat x" and "unat x + 4 < 2 ^ 63" and "unat y + 4 < 2 ^ 63"
  shows "disj (a + x) 4 (a + y) 4"
proof -
  have "x \<noteq> y" using assms(1) by auto
  then have "unat (y - x) + unat (x - y) = 2 ^ 64" using unat_diff_both [of x y] by simp
  moreover have "unat (y - x) = (if x \<le> y then unat y - unat x else 2 ^ 64 + unat y - unat x)"
    using unat_sub_if' [of y x] by (auto simp: word_le_nat_alt)
  ultimately have "4 \<le> unat (y - x) \<and> 4 \<le> unat (x - y)"
    using assms by (auto simp: word_le_nat_alt split: if_splits)
  then show ?thesis by (simp add: disj_def)
qed

lemma wr32_list_read:
  assumes "(x, v) \<in> set ws" and "distinct (map fst ws)"
    and "\<forall>x \<in> fst ` set ws. \<forall>y \<in> fst ` set ws. x \<noteq> y \<longrightarrow> unat x + 4 \<le> unat y \<or> unat y + 4 \<le> unat x"
    and "\<forall>x \<in> fst ` set ws. unat x + 4 < 2 ^ 63"
  shows "rd32 (fold (\<lambda>(b, v) m. wr32 m b v) (map (\<lambda>(x, v). (a + x, v)) ws) m) (a + x) = v"
proof (rule c32.rd_writes_hit)
  show "(a + x, v) \<in> set (map (\<lambda>(x, v). (a + x, v)) ws)"
    using assms(1) by force
  have "map fst (map (\<lambda>(x, v). (a + x, v)) ws) = map ((+) a) (map fst ws)" by auto
  then show "distinct (map fst (map (\<lambda>(x, v). (a + x, v)) ws))"
    using assms(2) by (simp only: distinct_map) (auto simp: inj_on_def)
  fix p q assume "p \<in> fst ` set (map (\<lambda>(x, v). (a + x, v)) ws)" "q \<in> fst ` set (map (\<lambda>(x, v). (a + x, v)) ws)" "p \<noteq> q"
  then obtain x y where "x \<in> fst ` set ws" "y \<in> fst ` set ws" "p = a + x" "q = a + y" "x \<noteq> y" by force
  moreover have "unat x + 4 < 2 ^ 63" "unat y + 4 < 2 ^ 63"
    using assms(4) \<open>x \<in> fst ` set ws\<close> \<open>y \<in> fst ` set ws\<close> by (simp_all only: Ball_def)
  moreover have "unat x + 4 \<le> unat y \<or> unat y + 4 \<le> unat x"
    using assms(3) \<open>x \<in> fst ` set ws\<close> \<open>y \<in> fst ` set ws\<close> \<open>x \<noteq> y\<close> by blast
  ultimately show "disj p 4 q 4" using words_apart [of x y a] by blast
qed

text \<open>The words \<open>address_device\<close> writes, by their offset in the input context.\<close>

definition input_words :: "u64 \<Rightarrow> u8 \<Rightarrow> u8 \<Rightarrow> (u64 \<times> u32) list" where
  "input_words ring_phys root_port speed =
     [(4, 3), (32, push_bit 27 1 OR push_bit 20 (ucast speed)), (36, push_bit 16 (ucast root_port)),
      (68, push_bit 3 4 OR push_bit 1 3 OR push_bit 16 (max_packet_size_of speed)), (72, addr_low ring_phys),
      (76, addr_high ring_phys), (80, 8)]"

lemma write_input_context_words:
  "write_input_context a ring_phys root_port speed m =
     fold (\<lambda>(b, v) m. wr32 m b v) (map (\<lambda>(x, v). (a + x, v)) (input_words ring_phys root_port speed)) m"
  by (simp add: write_input_context_def input_words_def Let_def)

lemma read_input_context:
  assumes "(x, v) \<in> set (input_words ring_phys root_port speed)"
  shows "rd32 (write_input_context a ring_phys root_port speed m) (a + x) = v"
  unfolding write_input_context_words
  by (rule wr32_list_read [OF assms]) (simp_all add: input_words_def)

lemma addr_low_high:
  assumes "ring_phys AND 0xF = 0"
  shows "push_bit 32 (ucast (addr_high ring_phys)) OR ucast (addr_low ring_phys AND NOT 0xF) = ring_phys" "bit (addr_low ring_phys) 0"
proof -
  have m: "(0xF :: u64) = mask 4" "(0xF :: u32) = mask 4" by (simp_all add: mask_eq_exp_minus_1)
  have low: "\<not> bit ring_phys n" if "n < 4" for n
  proof -
    have "\<not> bit (ring_phys AND mask 4) n" using assms by (simp add: m)
    then show ?thesis using that by (simp add: bit_and_iff bit_mask_iff)
  qed
  show "bit (addr_low ring_phys) 0" by (simp add: addr_low_def bit_or_iff)
  show "push_bit 32 (ucast (addr_high ring_phys)) OR ucast (addr_low ring_phys AND NOT 0xF) = ring_phys"
    unfolding addr_high_def addr_low_def m
  proof (rule bit_word_eqI)
    fix n assume "n < LENGTH(64)"
    then show "bit (push_bit 32 (ucast (ucast (drop_bit 32 ring_phys) :: u32)) OR
        ucast (((ucast ring_phys :: u32) AND NOT (mask 4) OR 1) AND NOT (mask 4)) :: u64) n = bit ring_phys n"
      by (cases "n < 32"; cases "n < 4") (auto simp add: bit_simps low)
  qed
qed

lemma max_packet_size_below: "max_packet_size_of speed < 2 ^ 16"
  by (simp add: max_packet_size_of_def)



end
