(* ===== verification/Descriptors.thy ===== *)
theory Descriptors
  imports Xhci_Device
begin

text \<open>
  The configuration-descriptor parser of \<^verbatim>\<open>kernel/src/usb/xhci.rs\<close> against the format it parses: descriptors as
  a datatype, their encoding in bytes as the USB specification lays it out, and the endpoints a list of
  descriptors holds.
\<close>

section \<open>Descriptors and their encoding\<close>

datatype descriptor =
    InterfaceD u8 u8 u8 u8 u8 u8 u8 "u8 list"
  | EndpointD u8 u8 u16 u8 "u8 list"
  | OtherD u8 "u8 list"

fun encode :: "descriptor \<Rightarrow> u8 list" where
  "encode (InterfaceD num alt eps cls sub prot str extra) =
     of_nat (9 + length extra) # USB_DESC_TYPE_INTERFACE # [num, alt, eps, cls, sub, prot, str] @ extra"
| "encode (EndpointD addr attr mps interval extra) =
     of_nat (7 + length extra) # USB_DESC_TYPE_ENDPOINT # [addr, attr, ucast mps, ucast (drop_bit 8 mps), interval] @ extra"
| "encode (OtherD ty body) = of_nat (2 + length body) # ty # body"

text \<open>The length of a descriptor fits its length byte, and no other descriptor carries one of the two types.\<close>

definition encodable :: "descriptor \<Rightarrow> bool" where
  "encodable d \<longleftrightarrow> length (encode d) < 256
     \<and> (\<forall>ty body. d = OtherD ty body \<longrightarrow> ty \<noteq> USB_DESC_TYPE_INTERFACE \<and> ty \<noteq> USB_DESC_TYPE_ENDPOINT)"

fun interrupt_ins :: "descriptor list \<Rightarrow> u8 \<Rightarrow> u8 \<Rightarrow> u8 \<Rightarrow> EndpointInfo list" where
  "interrupt_ins [] iface cls prot = []"
| "interrupt_ins (InterfaceD num alt eps c sub p str extra # ds) iface cls prot = interrupt_ins ds num c p"
| "interrupt_ins (EndpointD addr attr mps interval extra # ds) iface cls prot =
     (if bit addr 7 \<and> bit attr 0 \<and> bit attr 1
      then \<lparr>ep_address = addr, ep_attributes = attr, ep_max_packet_size = mps, ep_interval = interval,
            inteface_number = iface, interface_class = cls, interface_protocol = prot\<rparr> # interrupt_ins ds iface cls prot
      else interrupt_ins ds iface cls prot)"
| "interrupt_ins (OtherD ty body # ds) iface cls prot = interrupt_ins ds iface cls prot"

text \<open>What may follow the last whole descriptor: less than a header, a length of zero, or a descriptor cut short.\<close>

definition cut_off :: "u8 list \<Rightarrow> bool" where
  "cut_off tail \<longleftrightarrow> length tail < 2 \<or> hd tail = 0 \<or> length tail < unat (hd tail)"

section \<open>One step of the parser\<close>

lemma unat_len: "n < 256 \<Longrightarrow> unat (of_nat n :: u8) = n"
  by (simp add: unat_of_nat)

lemma index_append [simp]: "index (xs @ ys) (length xs + k) = index ys k"
  by (simp add: index_def nth_append)

lemma index_Cons [simp]: "index (x # xs) 0 = Some x" "index (x # xs) (Suc n) = index xs n" "index [] n = None"
  by (simp_all add: index_def)

lemma index_Cons_numeral [simp]: "index (x # xs) (numeral k) = index xs (pred_numeral k)"
  by (simp add: numeral_eq_Suc)

lemma index_after_header:
  "index (pre @ a # b # zs) (Suc (Suc (length pre))) = index zs 0"
  "index (pre @ a # b # zs) (Suc (Suc (Suc (length pre)))) = index zs (Suc 0)"
  "index (pre @ a # b # zs) (Suc (Suc (Suc (Suc (length pre))))) = index zs (Suc (Suc 0))"
  "index (pre @ a # b # zs) (Suc (Suc (Suc (Suc (Suc (length pre)))))) = index zs (Suc (Suc (Suc 0)))"
  "index (pre @ a # b # zs) (Suc (Suc (Suc (Suc (Suc (Suc (length pre))))))) = index zs (Suc (Suc (Suc (Suc 0))))"
  "index (pre @ a # b # zs) (Suc (Suc (Suc (Suc (Suc (Suc (Suc (length pre)))))))) = index zs (Suc (Suc (Suc (Suc (Suc 0)))))"
  by (simp_all add: index_def nth_append numeral_eq_Suc)

lemma interrupt_in_bits:
  "a AND 0x80 \<noteq> 0 \<longleftrightarrow> bit a 7" "a AND 0x3 = 0x3 \<longleftrightarrow> bit a 0 \<and> bit a 1" for a :: u8
proof -
  show "a AND 0x80 \<noteq> 0 \<longleftrightarrow> bit a 7"
    using and_exp_eq_0_iff_not_bit [of a 7] by simp
  have m: "(0x3 :: u8) = mask 2" by (simp add: mask_eq_exp_minus_1)
  show "a AND 0x3 = 0x3 \<longleftrightarrow> bit a 0 \<and> bit a 1"
  proof
    assume e: "a AND 0x3 = 0x3"
    have "bit (a AND 0x3) 0" "bit (a AND 0x3) 1" unfolding e by simp_all
    then show "bit a 0 \<and> bit a 1" by (simp add: bit_and_iff)
  next
    assume b: "bit a 0 \<and> bit a 1"
    show "a AND 0x3 = 0x3"
      unfolding m by (rule bit_word_eqI) (use b in \<open>auto simp add: bit_and_iff bit_mask_iff less_2_cases_iff\<close>)
  qed
qed

lemma split_u16: "ucast (ucast w :: u8) OR push_bit 8 (ucast (ucast (drop_bit 8 w) :: u8)) = w" for w :: u16
  by (rule bit_word_eqI) (auto simp add: bit_simps)

lemma parse_stop:
  assumes "cut_off tail"
  shows "parse_descriptors (pre @ tail) (length pre) iface cls prot = Some []"
proof (cases "length tail < 2")
  case True
  then show ?thesis by (subst parse_descriptors.simps) simp
next
  case False
  then obtain a b bs where "tail = a # b # bs" by (cases tail; cases "tl tail") auto
  with assms show ?thesis
    by (subst parse_descriptors.simps) (auto simp: cut_off_def unat_eq_zero nth_append)
qed

lemma parse_header:
  assumes "unat n = 2 + length body"
  shows "parse_descriptors (pre @ (n # ty # body) @ post) (length pre) iface cls prot =
    (let bs = body @ post; next = parse_descriptors ((pre @ n # ty # body) @ post) (length (pre @ n # ty # body)) in
     if ty = USB_DESC_TYPE_INTERFACE then do {
       iface \<leftarrow> index bs 0; cls \<leftarrow> index bs 3; prot \<leftarrow> index bs 5; next iface cls prot }
     else if ty = USB_DESC_TYPE_ENDPOINT then do {
       addr \<leftarrow> index bs 0; attr \<leftarrow> index bs 1; lo \<leftarrow> index bs 2; hi \<leftarrow> index bs 3; interval \<leftarrow> index bs 4;
       rest \<leftarrow> next iface cls prot;
       Some ((if bit addr 7 \<and> bit attr 0 \<and> bit attr 1
         then [\<lparr>ep_address = addr, ep_attributes = attr, ep_max_packet_size = ucast lo OR push_bit 8 (ucast hi),
                ep_interval = interval, inteface_number = iface, interface_class = cls, interface_protocol = prot\<rparr>]
         else []) @ rest) }
     else next iface cls prot)"
proof -
  have "(pre @ n # ty # body @ post) ! length pre = n" "(pre @ n # ty # body @ post) ! Suc (length pre) = ty"
    by (simp_all add: nth_append)
  then show ?thesis
    using assms by (subst parse_descriptors.simps) (simp add: Let_def interrupt_in_bits numeral_eq_Suc add.assoc index_after_header)
qed

text \<open>The current interface after a descriptor.\<close>

fun current :: "descriptor \<Rightarrow> u8 \<times> u8 \<times> u8 \<Rightarrow> u8 \<times> u8 \<times> u8" where
  "current (InterfaceD num alt eps c sub p str extra) st = (num, c, p)"
| "current (EndpointD addr attr mps interval extra) st = st"
| "current (OtherD ty body) st = st"

lemma interrupt_ins_step:
  "interrupt_ins (d # ds) i c p = interrupt_ins [d] i c p
     @ (case current d (i, c, p) of (i, c, p) \<Rightarrow> interrupt_ins ds i c p)"
  by (cases d) simp_all

lemma parse_one:
  assumes "encodable d"
  shows "parse_descriptors (pre @ encode d @ post) (length pre) iface cls prot =
    (case current d (iface, cls, prot) of (i, c, p) \<Rightarrow>
       map_option (\<lambda>rest. interrupt_ins [d] iface cls prot @ rest)
         (parse_descriptors ((pre @ encode d) @ post) (length (pre @ encode d)) i c p))"
proof (cases d)
  case (InterfaceD num alt eps c sub p str extra)
  then have "unat (of_nat (9 + length extra) :: u8) = 2 + length ([num, alt, eps, c, sub, p, str] @ extra)"
    using assms by (subst unat_len) (simp_all add: encodable_def)
  from parse_header [OF this, of pre USB_DESC_TYPE_INTERFACE post iface cls prot] show ?thesis
    by (simp add: InterfaceD option.map_id0 [unfolded id_def] option.map_ident)
next
  case (EndpointD addr attr mps interval extra)
  then have "unat (of_nat (7 + length extra) :: u8)
      = 2 + length ([addr, attr, ucast mps, ucast (drop_bit 8 mps), interval] @ extra)"
    using assms by (subst unat_len) (simp_all add: encodable_def)
  from parse_header [OF this, of pre USB_DESC_TYPE_ENDPOINT post iface cls prot] show ?thesis
    by (simp add: EndpointD USB_DESC_TYPE_ENDPOINT_def USB_DESC_TYPE_INTERFACE_def split_u16 [simplified]
        map_conv_bind_option comp_def)
next
  case (OtherD ty body)
  then have "unat (of_nat (2 + length body) :: u8) = 2 + length body"
    using assms by (subst unat_len) (simp_all add: encodable_def)
  from parse_header [OF this, of pre ty post iface cls prot] show ?thesis
    using assms by (simp add: OtherD encodable_def option.map_ident)
qed

lemma parse_encoded:
  assumes "\<forall>d \<in> set ds. encodable d"
  shows "parse_descriptors (pre @ concat (map encode ds) @ tail) (length pre) iface cls prot =
    (case fold current ds (iface, cls, prot) of (i, c, p) \<Rightarrow>
       map_option (\<lambda>rest. interrupt_ins ds iface cls prot @ rest)
         (parse_descriptors ((pre @ concat (map encode ds)) @ tail) (length (pre @ concat (map encode ds))) i c p))"
  using assms
proof (induction ds arbitrary: pre iface cls prot)
  case Nil
  then show ?case by (simp add: option.map_ident)
next
  case (Cons d ds)
  have d: "encodable d" using Cons.prems by simp
  obtain i c p where st: "current d (iface, cls, prot) = (i, c, p)" by (cases "current d (iface, cls, prot)") auto
  obtain i' c' p' where st': "fold current ds (i, c, p) = (i', c', p')" by (cases "fold current ds (i, c, p)") auto
  from parse_one [OF d, of pre "concat (map encode ds) @ tail" iface cls prot]
    Cons.IH [of "pre @ encode d" i c p] Cons.prems
  moreover have "(@) (xs @ ys) = (\<lambda>zs. xs @ ys @ zs)" for xs ys :: "EndpointInfo list"
    by (simp add: fun_eq_iff)
  ultimately show ?case
    by (subst interrupt_ins_step) (simp add: st st' option.map_comp comp_def)
qed

section \<open>What the parser returns\<close>

lemma parse_descriptors_encoded:
  assumes "\<forall>d \<in> set ds. encodable d" and "cut_off tail"
  shows "parse_descriptors (concat (map encode ds) @ tail) 0 0 0 0 = Some (interrupt_ins ds 0 0 0)"
proof -
  obtain i c p where "fold current ds (0, 0, 0) = (i, c, p)" by (cases "fold current ds (0, 0, 0)") auto
  moreover have "parse_descriptors (concat (map encode ds) @ tail) (length (concat (map encode ds))) i c p = Some []"
    by (rule parse_stop [OF assms(2)])
  ultimately show ?thesis
    using parse_encoded [OF assms(1), of "[]" tail 0 0 0] by simp
qed

text \<open>
  Property C9. The parser reads back what the format encodes: on the encoding of any list of descriptors,
  whatever interfaces, endpoints, class-specific descriptors and extra bytes they have, also when the
  buffer ends in a descriptor cut short, it returns the interrupt IN endpoints in order, each with its
  fields and with the number, class and protocol of the interface before it.
\<close>

theorem parse_descriptors_exact:
  assumes "\<forall>d \<in> set ds. encodable d" and "cut_off tail"
  shows "parse_descriptors (concat (map encode ds) @ tail) 0 0 0 0 = Some (interrupt_ins ds 0 0 0)"
  by (rule parse_descriptors_encoded [OF assms])

definition composite_device :: "descriptor list" where
  "composite_device =
     [OtherD 2 [59, 0, 2, 1, 0, 0xA0, 50], InterfaceD 0 0 1 3 1 1 0 [], OtherD 0x21 [0x11, 1, 0, 1, 0x22, 65, 0],
      EndpointD 0x81 3 8 10 [], InterfaceD 1 0 2 3 1 2 0 [], EndpointD 0x82 3 0x104 4 [], EndpointD 0x02 3 8 10 []]"

theorem parse_descriptors_exact_witness:
  "parse_descriptors (concat (map encode composite_device) @ [9, 4, 2]) 0 0 0 0 =
     Some [\<lparr>ep_address = 0x81, ep_attributes = 3, ep_max_packet_size = 8, ep_interval = 10, inteface_number = 0,
            interface_class = 3, interface_protocol = 1\<rparr>,
           \<lparr>ep_address = 0x82, ep_attributes = 3, ep_max_packet_size = 0x104, ep_interval = 4, inteface_number = 1,
            interface_class = 3, interface_protocol = 2\<rparr>]"
  by (subst parse_descriptors_exact)
    (auto simp: composite_device_def encodable_def cut_off_def USB_DESC_TYPE_INTERFACE_def USB_DESC_TYPE_ENDPOINT_def
      bit_numeral_rec)

text \<open>
  Property C40. A descriptor that says it is an interface or an endpoint but is too short for one makes the
  parser index past the end of the buffer when nothing follows it: the kernel panics on what a device sends.
\<close>

theorem short_descriptor_panics:
  assumes "\<forall>d \<in> set ds. encodable d"
    and "ty = USB_DESC_TYPE_INTERFACE \<and> length body < 6 \<or> ty = USB_DESC_TYPE_ENDPOINT \<and> length body < 5"
  shows "parse_descriptors (concat (map encode ds) @ of_nat (2 + length body) # ty # body) 0 0 0 0 = None"
proof -
  obtain i c p where st: "fold current ds (0, 0, 0) = (i, c, p)" by (cases "fold current ds (0, 0, 0)") auto
  let ?pre = "concat (map encode ds)"
  have n: "unat (of_nat (2 + length body) :: u8) = 2 + length body"
    using assms(2) by (intro unat_len) auto
  have "parse_descriptors (?pre @ (of_nat (2 + length body) # ty # body) @ []) (length ?pre) i c p = None"
    using assms(2)
    by (subst parse_header [OF n])
      (auto simp: index_def Let_def USB_DESC_TYPE_INTERFACE_def USB_DESC_TYPE_ENDPOINT_def bind_eq_None_conv
        simp del: of_nat_add)
  then show ?thesis
    using parse_encoded [OF assms(1), of "[]" "of_nat (2 + length body) # ty # body" 0 0 0] st by simp
qed

theorem short_descriptor_panics_witness:
  "parse_descriptors (concat (map encode composite_device) @ [4, 4, 0, 0]) 0 0 0 0 = None"
  using short_descriptor_panics [of composite_device USB_DESC_TYPE_INTERFACE "[0, 0]"]
  by (auto simp: composite_device_def encodable_def USB_DESC_TYPE_INTERFACE_def USB_DESC_TYPE_ENDPOINT_def)

end
