(* ===== verification/Hid.thy ===== *)
theory Hid
  imports Slot_Commands Descriptors
begin

text \<open>
  The state the USB device-class drivers share, and the contract both of them keep towards the transport: a
  report is asked for by putting one Normal TRB on the driver's transfer ring. \<^verbatim>\<open>KBD_STATE\<close>,
  \<^verbatim>\<open>MOUSE_STATE\<close> and \<^verbatim>\<open>ACTIVE_PORTS\<close> of \<^verbatim>\<open>kernel/src/usb\<close> are fields of \<open>usb\<close>; \<open>console\<close> is what the
  drivers print, in order.
\<close>

record KeyboardState =
  k_slot_id :: u32
  k_ring_virt :: u64
  k_ring_phys :: u64
  k_enqueue_index :: nat
  k_cycle_state :: bool
  k_dci :: u32
  k_report_buf_virt :: u64
  k_report_buf_phys :: u64
  last_keycodes :: "u8 list"

text \<open>Positions and deltas are \<open>i32\<close> and \<open>i8\<close> in the source; the bounds of \<open>i32\<close> are checked where they are added.\<close>

record MouseState =
  m_slot_id :: u32
  m_ring_virt :: u64
  m_ring_phys :: u64
  m_enqueue_index :: nat
  m_cycle_state :: bool
  m_dci :: u32
  m_report_buf_virt :: u64
  m_report_buf_phys :: u64
  last_buttons :: u8
  pos_x :: int
  pos_y :: int

record ActivePort =
  ap_root_port :: u8
  ap_slot_id :: u32
  ap_has_keyboard :: bool
  ap_has_mouse :: bool

datatype mouse_button = LeftButton | RightButton | MiddleButton

datatype console_event =
    Typed char
  | MouseButton mouse_button bool int int
  | MouseMove int int int int

record 'h usb = "'h kernel" +
  kbd_state :: "KeyboardState option"
  mouse_state :: "MouseState option"
  active_ports :: "ActivePort list"
  console :: "console_event list"

definition usb_start :: "pgstate \<Rightarrow> 'h \<Rightarrow> 'h usb" where
  "usb_start p h = kernel.extend (kernel_start p h) \<lparr>kbd_state = None, mouse_state = None, active_ports = [], console = []\<rparr>"

text \<open>\<open>Box::new([0u8; N])\<close> and \<open>Box::from_raw\<close> followed by a drop.\<close>

definition box_drop :: "('h, 'e) machine_scheme \<Rightarrow> u64 \<Rightarrow> ('h, 'z) kernel_scheme \<Rightarrow> ('h, 'z) kernel_scheme" where
  "box_drop io a s = s\<lparr>outside := heap_free io a (outside s)\<rparr>"

lemma ring_doorbell_frame: "ring_doorbell io x slot v s = Some s' \<Longrightarrow> \<exists>h. s' = s\<lparr>outside := h\<rparr>"
proof -
  assume e: "ring_doorbell io x slot v s = Some s'"
  obtain w h where w: "mrd32 io (virt_base x + 0x14) (outside s) = (w, h)" by fastforce
  from e obtain p where "s' = s\<lparr>outside := mwr32 io p v h\<rparr>"
    by (auto simp: ring_doorbell_def dboff_def mmio_read32_def mmio_write32_def w bind_eq_Some_conv)
  then show "\<exists>h. s' = s\<lparr>outside := h\<rparr>" by blast
qed

lemma enqueue_normal_frame:
  assumes "enqueue_normal_trb_and_ring io x rv rp i c sz slot dci buf len s = Some (i', c', s')"
  shows "\<exists>m h. s' = s\<lparr>ram := m, outside := h\<rparr>"
proof -
  obtain j d m where "enqueue_normal_trb rv rp sz buf len (i, c, ram s) = (j, d, m)" by (metis prod_cases3)
  with assms have "ring_doorbell io x (ucast slot) dci (s\<lparr>ram := m\<rparr>) = Some s'"
    by (auto simp: enqueue_normal_trb_and_ring_def bind_eq_Some_conv)
  from ring_doorbell_frame [OF this] show ?thesis by auto
qed

section \<open>The contract of a report driver\<close>

text \<open>
  \<open>ring_of\<close> is the driver's ring (enqueue index, cycle state, memory), \<open>arm\<close> asks for the next report into the
  driver's buffer. Whatever else happens in between must leave the ring alone; a run of \<open>n\<close> requests is
  \<open>arm_times n\<close>.
\<close>

locale report_driver =
  fixes ring_of :: "'s \<Rightarrow> (nat \<times> bool \<times> mem) option" and arm :: "'s \<Rightarrow> 's option"
    and rv rp buf :: u64 and len :: u32 and ok :: "'s \<Rightarrow> bool"
  assumes arm_puts: "ok s \<Longrightarrow> ring_of s = Some r \<Longrightarrow>
      \<exists>s'. arm s = Some s' \<and> ok s' \<and> ring_of s' = Some (normal_put rv rp (buf, len) r)"
begin

fun arm_times :: "nat \<Rightarrow> 's \<Rightarrow> 's option" where
  "arm_times 0 s = Some s"
| "arm_times (Suc n) s = do { s \<leftarrow> arm s; arm_times n s }"

lemma arm_times_ring:
  "ok s \<Longrightarrow> ring_of s = Some r \<Longrightarrow>
     \<exists>s'. arm_times n s = Some s' \<and> ok s' \<and> ring_of s' = Some ((normal_put rv rp (buf, len) ^^ n) r)"
proof (induction n arbitrary: s r)
  case (Suc n)
  from arm_puts [OF Suc.prems] obtain s1
    where s1: "arm s = Some s1" "ok s1" "ring_of s1 = Some (normal_put rv rp (buf, len) r)" by blast
  from Suc.IH [OF s1(2,3)] s1(1) show ?case by (simp add: funpow_swap1)
qed simp

text \<open>Every request reaches the controller, from a ring as \<open>configure_endpoint\<close> left it.\<close>

lemma requests_delivered:
  assumes "ok s" and "ring_of s = Some (new_hid_ring rv rp m)"
  shows "(\<exists>s'. arm_times n s = Some s')
    \<and> list_all2 (\<lambda>r t. \<exists>c. t = Some (normal_trb r c)) (replicate n (buf, len))
        (exchange (normal_put rv rp) (normal_slot rv) (replicate n (buf, len)) (new_hid_ring rv rp m) (0, True))"
proof -
  have "list_all2 (\<lambda>r t. \<exists>c. t = Some (normal_trb r c)) (replicate n (buf, len))
        (exchange (normal_put rv rp) (normal_slot rv) (replicate n (buf, len)) (new_hid_ring rv rp m) (0, True))"
    using hid.exchange_all [of rv "new_hid_ring rv rp m" "replicate n (buf, len)" "(0, True)"] new_hid_ring_fresh [of rv rp m]
    by (simp add: new_hid_ring_def)
  with arm_times_ring [OF assms, of n] show ?thesis by blast
qed

end

end
