(* ===== verification/Keyboard.thy ===== *)
theory Keyboard
  imports Hid
begin

text \<open>
  \<^verbatim>\<open>kernel/src/usb/keyboard_usb.rs\<close>: the HID boot keyboard. A report is eight bytes in the driver's buffer: the
  modifier bits, a reserved byte and six key codes.
\<close>

definition REPORT_LEN :: nat where "REPORT_LEN = 8"
definition KBD_RING_SIZE :: nat where "KBD_RING_SIZE = 16"
definition HID_SET_PROTOCOL :: u8 where "HID_SET_PROTOCOL = 0x0B"
definition HID_BOOT_PROTOCOL :: u16 where "HID_BOOT_PROTOCOL = 0"

record KeyboardReport =
  modifier :: u8
  reserved :: u8
  keycodes :: "u8 list"

definition read_keyboard_report :: "mem \<Rightarrow> u64 \<Rightarrow> KeyboardReport" where
  "read_keyboard_report m a = \<lparr>modifier = m a, reserved = m (a + 1), keycodes = mem_read m (a + 2) 6\<rparr>"

definition to_ascii_uppercase :: "u8 \<Rightarrow> u8" where
  "to_ascii_uppercase b = (if 97 \<le> b \<and> b \<le> 122 then b - 32 else b)"

definition u8_char :: "u8 \<Rightarrow> char" where
  "u8_char b = char_of (unat b)"

definition hid_keycode_to_ascii :: "u8 \<Rightarrow> u8 \<Rightarrow> char option" where
  "hid_keycode_to_ascii keycode modi =
     (let shift = (modi AND 0x22 \<noteq> 0) in
      if 0x04 \<le> keycode \<and> keycode \<le> 0x1D then
        let base = 97 + (keycode - 0x04); c = (if shift then to_ascii_uppercase base else base)
        in Some (u8_char c)
      else if 0x1E \<le> keycode \<and> keycode \<le> 0x27 then
        let idx = unat (keycode - 0x1E)
        in Some (if shift then ''!@#$%^&*()'' ! idx else ''1234567890'' ! idx)
      else if keycode = 0x2C then Some CHR '' ''
      else if keycode = 0x28 then Some CHR 0x0A
      else if keycode = 0x2A then Some CHR 0x08
      else if keycode = 0x2B then Some CHR 0x09
      else None)"

text \<open>The loop of \<open>handle_report\<close>: what the key codes type, given those of the report before.\<close>

fun typed :: "u8 list \<Rightarrow> u8 \<Rightarrow> u8 list \<Rightarrow> char list" where
  "typed prev modi [] = []"
| "typed prev modi (kc # kcs) =
     (if kc = 0 then typed prev modi kcs
      else if kc \<in> set prev then typed prev modi kcs
      else case hid_keycode_to_ascii kc modi of
          Some ch \<Rightarrow> ch # typed prev modi kcs
        | None \<Rightarrow> typed prev modi kcs)"

definition keyboard_handle_report :: "KeyboardReport \<Rightarrow> ('h, 'z) usb_scheme \<Rightarrow> ('h, 'z) usb_scheme" where
  "keyboard_handle_report r s =
     (case kbd_state s of
        None \<Rightarrow> s
      | Some st \<Rightarrow> s\<lparr>console := console s @ map Typed (typed (last_keycodes st) (modifier r) (keycodes r)),
                     kbd_state := Some (st\<lparr>last_keycodes := keycodes r\<rparr>)\<rparr>)"

definition keyboard_arm_next_report :: "('h, 'e) machine_scheme \<Rightarrow> ('h, 'z) usb_scheme \<Rightarrow> ('h, 'z) usb_scheme option" where
  "keyboard_arm_next_report io s =
     (case kbd_state s of
        None \<Rightarrow> Some s
      | Some st \<Rightarrow> do {
          x \<leftarrow> xhci_instance s;
          (i, c, s) \<leftarrow> enqueue_normal_trb_and_ring io x (k_ring_virt st) (k_ring_phys st) (k_enqueue_index st)
                        (k_cycle_state st) KBD_RING_SIZE (k_slot_id st) (k_dci st) (k_report_buf_phys st)
                        (of_nat REPORT_LEN) s;
          Some (s\<lparr>kbd_state := Some (st\<lparr>k_enqueue_index := i, k_cycle_state := c\<rparr>)\<rparr>)
        })"

definition init_keyboard :: "('h, 'e) machine_scheme \<Rightarrow> (('h, 'z) usb_scheme \<Rightarrow> ('h, 'z) usb_scheme option) \<Rightarrow> u32
    \<Rightarrow> EndpointHandle \<Rightarrow> u8 \<Rightarrow> ('h, 'z) usb_scheme \<Rightarrow> ('h, 'z) usb_scheme option" where
  "init_keyboard io tick slot ep interface_number s = do {
     (r, s) \<leftarrow> control_transfer_no_data io tick slot 0x21 HID_SET_PROTOCOL HID_BOOT_PROTOCOL (ucast interface_number) s;
     (virt, s) \<leftarrow> box_zeroed io REPORT_LEN 1 s;
     phys \<leftarrow> phys_unwrap virt s;
     let s = s\<lparr>kbd_dci := eh_dci ep, kbd_slot_id := slot\<rparr>;
     let s = s\<lparr>kbd_state := Some
       \<lparr>k_slot_id = slot, k_ring_virt = eh_ring_virt ep, k_ring_phys = eh_ring_phys ep, k_enqueue_index = 0,
        k_cycle_state = True, k_dci = eh_dci ep, k_report_buf_virt = virt, k_report_buf_phys = phys,
        last_keycodes = [0, 0, 0, 0, 0, 0]\<rparr>\<rparr>;
     keyboard_arm_next_report io s
   }"

definition shutdown_keyboard :: "('h, 'e) machine_scheme \<Rightarrow> u32 \<Rightarrow> ('h, 'z) usb_scheme \<Rightarrow> ('h, 'z) usb_scheme" where
  "shutdown_keyboard io slot s =
     (case kbd_state s of
        None \<Rightarrow> s
      | Some st \<Rightarrow>
          if k_slot_id st \<noteq> slot then s
          else
            let s = box_drop io (k_report_buf_virt st) (s\<lparr>kbd_state := None\<rparr>)
            in s\<lparr>kbd_dci := 0, kbd_slot_id := 0, kbd_report_pending := False\<rparr>)"

definition poll_keyboard :: "('h, 'e) machine_scheme \<Rightarrow> ('h, 'z) usb_scheme \<Rightarrow> ('h, 'z) usb_scheme option" where
  "poll_keyboard io s =
     (if \<not> kbd_report_pending s then Some s
      else
        let s = s\<lparr>kbd_report_pending := False\<rparr> in
        case kbd_state s of
          None \<Rightarrow> Some s
        | Some st \<Rightarrow>
            let report = read_keyboard_report (ram s) (k_report_buf_virt st);
                s = keyboard_handle_report report s
            in keyboard_arm_next_report io s)"

section \<open>The driver keeps the contract of a report driver\<close>

definition kbd_ring :: "('h, 'z) usb_scheme \<Rightarrow> (nat \<times> bool \<times> mem) option" where
  "kbd_ring s = map_option (\<lambda>st. (k_enqueue_index st, k_cycle_state st, ram s)) (kbd_state s)"

definition kbd_ready :: "('h, 'e) machine_scheme \<Rightarrow> u64 \<Rightarrow> u64 \<Rightarrow> u64 \<Rightarrow> ('h, 'z) usb_scheme \<Rightarrow> bool" where
  "kbd_ready io rv rp buf s \<longleftrightarrow> (\<exists>x. xhci_instance s = Some x \<and> doorbells_ok io x)
     \<and> (\<forall>st. kbd_state s = Some st \<longrightarrow> k_ring_virt st = rv \<and> k_ring_phys st = rp \<and> k_report_buf_phys st = buf)"

lemma keyboard_arm_eq:
  assumes "kbd_ready io rv rp buf s" and "kbd_state s = Some st"
  shows "\<exists>h. keyboard_arm_next_report io s =
    (case normal_put rv rp (buf, 8) (k_enqueue_index st, k_cycle_state st, ram s) of (i, c, m) \<Rightarrow>
       Some (s\<lparr>ram := m, outside := h, kbd_state := Some (st\<lparr>k_enqueue_index := i, k_cycle_state := c\<rparr>)\<rparr>))"
proof -
  obtain x where x: "xhci_instance s = Some x" "doorbells_ok io x" using assms(1) by (auto simp: kbd_ready_def)
  obtain i c m where e: "enqueue_normal_trb rv rp 16 buf 8 (k_enqueue_index st, k_cycle_state st, ram s) = (i, c, m)"
    by (metis prod_cases3)
  obtain h where "ring_doorbell io x (ucast (k_slot_id st)) (k_dci st) (s\<lparr>ram := m\<rparr>) = Some (s\<lparr>ram := m, outside := h\<rparr>)"
    using ring_doorbell_ok [OF x(2), of "ucast (k_slot_id st)" "k_dci st" "s\<lparr>ram := m\<rparr>"] by auto
  with e x(1) assms show ?thesis
    by (intro exI [of _ h])
      (simp add: keyboard_arm_next_report_def enqueue_normal_trb_and_ring_def normal_put_def kbd_ready_def
        KBD_RING_SIZE_def REPORT_LEN_def)
qed

interpretation kbd: report_driver kbd_ring "keyboard_arm_next_report io" rv rp buf 8 "kbd_ready io rv rp buf"
  for io :: "('h, 'e) machine_scheme" and rv rp buf :: u64
proof unfold_locales
  fix s :: "('h, 'z) usb_scheme" and r
  assume ok: "kbd_ready io rv rp buf s" and r: "kbd_ring s = Some r"
  obtain st where st: "kbd_state s = Some st" "r = (k_enqueue_index st, k_cycle_state st, ram s)"
    using r by (auto simp: kbd_ring_def)
  obtain i c m where p: "normal_put rv rp (buf, 8) r = (i, c, m)" by (metis prod_cases3)
  obtain h where "keyboard_arm_next_report io s =
      Some (s\<lparr>ram := m, outside := h, kbd_state := Some (st\<lparr>k_enqueue_index := i, k_cycle_state := c\<rparr>)\<rparr>)"
    using keyboard_arm_eq [OF ok st(1)] p st(2) by auto
  with ok st p show "\<exists>s'. keyboard_arm_next_report io s = Some s' \<and> kbd_ready io rv rp buf s'
      \<and> kbd_ring s' = Some (normal_put rv rp (buf, 8) r)"
    by (auto simp: kbd_ready_def kbd_ring_def)
qed

section \<open>What the driver does with a report\<close>

text \<open>The answers of the key map on every key code, without and with Shift.\<close>

definition key_table :: "((u8 \<times> bool) \<times> char) list" where
  "key_table = List.map_filter (\<lambda>(k, sh).
     map_option (\<lambda>c. ((of_nat k, sh \<and> k < 0x28), c)) (hid_keycode_to_ascii (of_nat k) (if sh then 0x22 else 0)))
     (List.product [0..<0x2D] [False] @ List.product [0..<0x28] [True])"

lemma key_table_distinct: "distinct (map snd key_table)"
  by code_simp

lemma hid_keycode_shift:
  "hid_keycode_to_ascii k m = hid_keycode_to_ascii k (if m AND 0x22 \<noteq> 0 then 0x22 else 0)"
  by (simp add: hid_keycode_to_ascii_def)

lemma in_map_filter: "x \<in> set xs \<Longrightarrow> f x = Some y \<Longrightarrow> y \<in> set (List.map_filter f xs)"
  by (induction xs) (auto simp: List.map_filter_simps split: option.splits)

lemma key_in_table:
  assumes "hid_keycode_to_ascii k m = Some c"
  shows "((k, m AND 0x22 \<noteq> 0 \<and> k < 0x28), c) \<in> set key_table"
proof -
  let ?sh = "m AND 0x22 \<noteq> 0"
  have "k \<le> 0x1D \<or> k \<le> 0x27 \<or> k = 0x2C \<or> k = 0x28 \<or> k = 0x2A \<or> k = 0x2B"
    using assms by (auto simp: hid_keycode_to_ascii_def Let_def split: if_splits)
  then have k: "k \<le> 0x2C" by (auto simp: word_le_nat_alt)
  then have u: "unat k < 0x2D" "k = of_nat (unat k)" by (simp_all add: word_le_nat_alt)
  have lt: "k < 0x28 \<longleftrightarrow> unat k < 0x28" by (simp add: word_less_nat_alt)
  have c: "hid_keycode_to_ascii (of_nat (unat k)) (if ?sh then 0x22 else 0) = Some c"
    using assms hid_keycode_shift [of k m] by simp
  have same: "hid_keycode_to_ascii k 0 = hid_keycode_to_ascii k 0x22" if "\<not> k < 0x28"
    using that by (simp add: hid_keycode_to_ascii_def word_le_nat_alt word_less_nat_alt)
  let ?f = "\<lambda>(k, sh). map_option (\<lambda>c. ((of_nat k, sh \<and> k < 0x28), c))
      (hid_keycode_to_ascii (of_nat k) (if sh then 0x22 else 0))"
  have in_table: "e \<in> set key_table"
    if "p \<in> set (List.product [0..<0x2D] [False] @ List.product [0..<0x28] [True])" "?f p = Some e" for p e
    unfolding key_table_def by (rule in_map_filter [where f = ?f, OF that])
  show ?thesis
  proof (cases "?sh \<and> k < 0x28")
    case True
    show ?thesis
      by (rule in_table [of "(unat k, True)"]) (use True c lt in simp_all)
  next
    case False
    then have "hid_keycode_to_ascii k 0 = Some c" using c same by (auto split: if_splits)
    with False u(1) show ?thesis
      by (intro in_table [of "(unat k, False)"]) simp_all
  qed
qed

text \<open>
  The key map is unambiguous: no two keys type the same character, and a letter or digit also
  tells whether Shift was held.
\<close>

theorem keycode_injective:
  assumes "hid_keycode_to_ascii k m = Some c" and "hid_keycode_to_ascii k' m' = Some c"
  shows "k = k' \<and> (k < 0x28 \<longrightarrow> (m AND 0x22 \<noteq> 0 \<longleftrightarrow> m' AND 0x22 \<noteq> 0))"
proof -
  have "inj_on snd (set key_table)" using key_table_distinct by (simp only: distinct_map)
  from inj_onD [OF this _ key_in_table [OF assms(1)] key_in_table [OF assms(2)]]
  have "((k, m AND 0x22 \<noteq> 0 \<and> k < 0x28), c) = ((k', m' AND 0x22 \<noteq> 0 \<and> k' < 0x28), c)"
    by (simp only: snd_conv)
  then have "k = k'" "(m AND 0x22 \<noteq> 0 \<and> k < 0x28) = (m' AND 0x22 \<noteq> 0 \<and> k' < 0x28)"
    unfolding prod.inject by blast+
  then show ?thesis by blast
qed

theorem keycode_injective_witness:
  "hid_keycode_to_ascii 0x1F 0x02 = Some CHR ''@'' \<and> hid_keycode_to_ascii 0x1F 0x20 = Some CHR ''@''
     \<and> ((0x02 :: u8) AND 0x22 \<noteq> 0 \<longleftrightarrow> (0x20 :: u8) AND 0x22 \<noteq> 0)"
proof -
  have *: "hid_keycode_to_ascii 0x1F 0x02 = Some CHR ''@''" "hid_keycode_to_ascii 0x1F 0x20 = Some CHR ''@''"
    by (simp_all add: hid_keycode_to_ascii_def)
  from keycode_injective [OF *] * show ?thesis by simp
qed

lemma poll_keyboard_step:
  assumes "kbd_report_pending s" and "kbd_state s = Some st"
    and "xhci_instance s = Some x" and "doorbells_ok io x"
  shows "\<exists>h. poll_keyboard io s =
    (let r = read_keyboard_report (ram s) (k_report_buf_virt st);
         (i, c, m) = normal_put (k_ring_virt st) (k_ring_phys st) (k_report_buf_phys st, 8)
                       (k_enqueue_index st, k_cycle_state st, ram s)
     in Some (s\<lparr>ram := m, outside := h, kbd_report_pending := False,
               console := console s @ map Typed (typed (last_keycodes st) (modifier r) (keycodes r)),
               kbd_state := Some (st\<lparr>k_enqueue_index := i, k_cycle_state := c, last_keycodes := keycodes r\<rparr>)\<rparr>))"
proof -
  let ?r = "read_keyboard_report (ram s) (k_report_buf_virt st)"
  let ?s = "keyboard_handle_report ?r (s\<lparr>kbd_report_pending := False\<rparr>)"
  let ?st = "st\<lparr>last_keycodes := keycodes ?r\<rparr>"
  have st: "kbd_state ?s = Some ?st" "ram ?s = ram s" "xhci_instance ?s = Some x"
    using assms by (simp_all add: keyboard_handle_report_def)
  then have "kbd_ready io (k_ring_virt st) (k_ring_phys st) (k_report_buf_phys st) ?s"
    using assms by (simp add: kbd_ready_def)
  from keyboard_arm_eq [OF this st(1)] obtain h where h: "keyboard_arm_next_report io ?s =
    (case normal_put (k_ring_virt st) (k_ring_phys st) (k_report_buf_phys st, 8)
            (k_enqueue_index ?st, k_cycle_state ?st, ram ?s) of (i, c, m) \<Rightarrow>
       Some (?s\<lparr>ram := m, outside := h, kbd_state := Some (?st\<lparr>k_enqueue_index := i, k_cycle_state := c\<rparr>)\<rparr>))" by blast
  have "poll_keyboard io s = keyboard_arm_next_report io ?s"
    using assms by (simp add: poll_keyboard_def Let_def)
  with h assms(2) show ?thesis
    by (intro exI [of _ h])
      (simp add: st(2) keyboard_handle_report_def Let_def split: prod.splits)
qed

lemma typed_eq: "typed prev modi ks =
    List.map_filter (\<lambda>k. if k = 0 \<or> k \<in> set prev then None else hid_keycode_to_ascii k modi) ks"
  by (induction ks) (auto simp: List.map_filter_simps split: option.splits)

text \<open>
  Property C28. One report, from the interrupt to the next request: when a report is announced, \<open>poll_keyboard\<close>
  types the keys that are new in it and no other, takes the announcement back, remembers the key codes, and
  asks for the next report with exactly one TRB on its ring.
\<close>

theorem poll_keyboard_report:
  assumes "kbd_report_pending s" and "kbd_state s = Some st"
    and "xhci_instance s = Some x" and "doorbells_ok io x"
  shows "\<exists>h. poll_keyboard io s =
    (let r = read_keyboard_report (ram s) (k_report_buf_virt st);
         (i, c, m) = normal_put (k_ring_virt st) (k_ring_phys st) (k_report_buf_phys st, 8)
                       (k_enqueue_index st, k_cycle_state st, ram s)
     in Some (s\<lparr>ram := m, outside := h, kbd_report_pending := False,
               console := console s @ map Typed (List.map_filter
                 (\<lambda>k. if k = 0 \<or> k \<in> set (last_keycodes st) then None else hid_keycode_to_ascii k (modifier r)) (keycodes r)),
               kbd_state := Some (st\<lparr>k_enqueue_index := i, k_cycle_state := c, last_keycodes := keycodes r\<rparr>)\<rparr>))"
  using poll_keyboard_step [OF assms] by (simp only: typed_eq)

definition kbd_example :: "unit usb" where
  "kbd_example = (usb_start pg_example ())
     \<lparr>ram := mem_write (\<lambda>_. 0) 0x5000 [2, 0, 4, 5, 0, 0, 0, 0], xhci_instance := Some xhci_example,
      kbd_report_pending := True,
      kbd_state := Some \<lparr>k_slot_id = 1, k_ring_virt = 0x6000, k_ring_phys = 0x6000, k_enqueue_index = 14,
        k_cycle_state = True, k_dci = 3, k_report_buf_virt = 0x5000, k_report_buf_phys = 0x5000,
        last_keycodes = [5, 0, 0, 0, 0, 0]\<rparr>\<rparr>"

theorem poll_keyboard_report_witness:
  "\<exists>s'. poll_keyboard quiet_machine kbd_example = Some s' \<and> console s' = [Typed CHR ''A''] \<and> \<not> kbd_report_pending s'"
proof -
  let ?st = "the (kbd_state kbd_example)"
  have ex: "kbd_report_pending kbd_example" "kbd_state kbd_example = Some ?st" "xhci_instance kbd_example = Some xhci_example"
    by (simp_all add: kbd_example_def)
  have "keycodes (read_keyboard_report (ram kbd_example) (k_report_buf_virt ?st)) = [4, 5, 0, 0, 0, 0]"
    "modifier (read_keyboard_report (ram kbd_example) (k_report_buf_virt ?st)) = 2"
    by (simp_all add: kbd_example_def read_keyboard_report_def mem_read_def mem_write_def upt_rec)
  moreover have "console kbd_example = []" "last_keycodes ?st = [5, 0, 0, 0, 0, 0]"
    by (simp_all add: kbd_example_def usb_start_def kernel.extend_def)
  moreover have "hid_keycode_to_ascii 4 2 = Some CHR ''A''"
    by code_simp
  ultimately show ?thesis
    using poll_keyboard_report [OF ex running_example_ok(2)]
    by (auto simp: Let_def List.map_filter_simps split: prod.splits)
qed

text \<open>
  After a report of six codes 1 (the keyboard says that it cannot tell which keys are down) the
  keys that were held all along are typed a second time: without that report the same keys type nothing.
\<close>

theorem rollover_retypes:
  assumes "kbd_state s = Some st" and "set ks \<subseteq> set (last_keycodes st)" and "1 \<notin> set ks"
  shows "console (keyboard_handle_report \<lparr>modifier = m, reserved = 0, keycodes = ks\<rparr> s) = console s
    \<and> console (keyboard_handle_report \<lparr>modifier = m, reserved = 0, keycodes = ks\<rparr>
         (keyboard_handle_report \<lparr>modifier = m, reserved = 0, keycodes = [1, 1, 1, 1, 1, 1]\<rparr> s))
      = console s @ map Typed (List.map_filter (\<lambda>k. if k = 0 then None else hid_keycode_to_ascii k m) ks)"
proof -
  have held: "set ks \<subseteq> set prev \<Longrightarrow> typed prev m ks = []" for prev
    by (induction ks) auto
  have fresh: "typed [1, 1, 1, 1, 1, 1] m ks = List.map_filter (\<lambda>k. if k = 0 then None else hid_keycode_to_ascii k m) ks"
    using assms(3) by (induction ks) (auto simp: List.map_filter_simps split: option.splits)
  have none: "hid_keycode_to_ascii 1 m = None"
    by (simp add: hid_keycode_to_ascii_def Let_def word_le_nat_alt)
  show ?thesis
    using assms(1,2) by (simp add: keyboard_handle_report_def held fresh none)
qed

theorem rollover_retypes_witness:
  "console (keyboard_handle_report \<lparr>modifier = 0, reserved = 0, keycodes = [5]\<rparr>
     (keyboard_handle_report \<lparr>modifier = 0, reserved = 0, keycodes = [1, 1, 1, 1, 1, 1]\<rparr> kbd_example)) = [Typed CHR ''b'']"
proof -
  let ?st = "the (kbd_state kbd_example)"
  have ex: "kbd_state kbd_example = Some ?st" "console kbd_example = []" "set [5] \<subseteq> set (last_keycodes ?st)"
    by (simp_all add: kbd_example_def usb_start_def kernel.extend_def)
  have "hid_keycode_to_ascii 5 0 = Some CHR ''b''"
    by code_simp
  with rollover_retypes [OF ex(1,3), of 0] ex(2) show ?thesis
    by (simp add: List.map_filter_simps)
qed

end
