(* ===== verification/Mouse.thy ===== *)
theory Mouse
  imports Hid
begin

text \<open>
  \<^verbatim>\<open>kernel/src/usb/mouse_usb.rs\<close>: the HID boot mouse. A report is the button bits and three signed bytes.
\<close>

definition REPORT_BUF_LEN :: nat where "REPORT_BUF_LEN = 8"
definition MOUSE_RING_SIZE :: nat where "MOUSE_RING_SIZE = 16"
definition MOUSE_SET_PROTOCOL :: u8 where "MOUSE_SET_PROTOCOL = 0x0B"
definition MOUSE_BOOT_PROTOCOL :: u16 where "MOUSE_BOOT_PROTOCOL = 0"

record MouseReport =
  buttons :: u8
  dx :: int
  dy :: int
  wheel :: int

definition read_mouse_report :: "mem \<Rightarrow> u64 \<Rightarrow> MouseReport" where
  "read_mouse_report m a = \<lparr>buttons = m a, dx = sint (m (a + 1)), dy = sint (m (a + 2)), wheel = sint (m (a + 3))\<rparr>"

text \<open>The checked addition of \<open>i32\<close>.\<close>

definition i32_add :: "int \<Rightarrow> int \<Rightarrow> int option" where
  "i32_add a b = (if - (2 ^ 31) \<le> a + b \<and> a + b < 2 ^ 31 then Some (a + b) else None)"

definition button_bits :: "(nat \<times> mouse_button) list" where
  "button_bits = [(0, LeftButton), (1, RightButton), (2, MiddleButton)]"

text \<open>The loop over the three buttons: one message for each whose bit changed.\<close>

fun button_events :: "(nat \<times> mouse_button) list \<Rightarrow> u8 \<Rightarrow> u8 \<Rightarrow> int \<Rightarrow> int \<Rightarrow> console_event list" where
  "button_events [] changed now x y = []"
| "button_events ((b, name) # bs) changed now x y =
     (if changed AND push_bit b 1 \<noteq> 0
      then MouseButton name (now AND push_bit b 1 \<noteq> 0) x y # button_events bs changed now x y
      else button_events bs changed now x y)"

definition mouse_handle_report :: "MouseReport \<Rightarrow> ('h, 'z) usb_scheme \<Rightarrow> ('h, 'z) usb_scheme option" where
  "mouse_handle_report r s =
     (case mouse_state s of
        None \<Rightarrow> Some s
      | Some st \<Rightarrow> do {
          x \<leftarrow> i32_add (pos_x st) (dx r);
          y \<leftarrow> i32_add (pos_y st) (dy r);
          let changed = buttons r XOR last_buttons st;
          let clicks = (if changed \<noteq> 0 then button_events button_bits changed (buttons r) x y else []);
          let moves = (if dx r \<noteq> 0 \<or> dy r \<noteq> 0 then [MouseMove (dx r) (dy r) x y] else []);
          Some (s\<lparr>console := console s @ clicks @ moves,
                  mouse_state := Some (st\<lparr>pos_x := x, pos_y := y, last_buttons := buttons r\<rparr>)\<rparr>)
        })"

definition mouse_arm_next_report :: "('h, 'e) machine_scheme \<Rightarrow> ('h, 'z) usb_scheme \<Rightarrow> ('h, 'z) usb_scheme option" where
  "mouse_arm_next_report io s =
     (case mouse_state s of
        None \<Rightarrow> Some s
      | Some st \<Rightarrow> do {
          x \<leftarrow> xhci_instance s;
          (i, c, s) \<leftarrow> enqueue_normal_trb_and_ring io x (m_ring_virt st) (m_ring_phys st) (m_enqueue_index st)
                        (m_cycle_state st) MOUSE_RING_SIZE (m_slot_id st) (m_dci st) (m_report_buf_phys st)
                        (of_nat REPORT_BUF_LEN) s;
          Some (s\<lparr>mouse_state := Some (st\<lparr>m_enqueue_index := i, m_cycle_state := c\<rparr>)\<rparr>)
        })"

definition init_mouse :: "('h, 'e) machine_scheme \<Rightarrow> (('h, 'z) usb_scheme \<Rightarrow> ('h, 'z) usb_scheme option) \<Rightarrow> u32
    \<Rightarrow> EndpointHandle \<Rightarrow> u8 \<Rightarrow> ('h, 'z) usb_scheme \<Rightarrow> ('h, 'z) usb_scheme option" where
  "init_mouse io tick slot ep interface_number s = do {
     (r, s) \<leftarrow> control_transfer_no_data io tick slot 0x21 MOUSE_SET_PROTOCOL MOUSE_BOOT_PROTOCOL (ucast interface_number) s;
     (virt, s) \<leftarrow> box_zeroed io REPORT_BUF_LEN 1 s;
     phys \<leftarrow> phys_unwrap virt s;
     let s = s\<lparr>mouse_dci := eh_dci ep, mouse_slot_id := slot\<rparr>;
     let s = s\<lparr>mouse_state := Some
       \<lparr>m_slot_id = slot, m_ring_virt = eh_ring_virt ep, m_ring_phys = eh_ring_phys ep, m_enqueue_index = 0,
        m_cycle_state = True, m_dci = eh_dci ep, m_report_buf_virt = virt, m_report_buf_phys = phys,
        last_buttons = 0, pos_x = 0, pos_y = 0\<rparr>\<rparr>;
     mouse_arm_next_report io s
   }"

definition shutdown_mouse :: "('h, 'e) machine_scheme \<Rightarrow> u32 \<Rightarrow> ('h, 'z) usb_scheme \<Rightarrow> ('h, 'z) usb_scheme" where
  "shutdown_mouse io slot s =
     (case mouse_state s of
        None \<Rightarrow> s
      | Some st \<Rightarrow>
          if m_slot_id st \<noteq> slot then s
          else
            let s = box_drop io (m_report_buf_virt st) (s\<lparr>mouse_state := None\<rparr>)
            in s\<lparr>mouse_dci := 0, mouse_slot_id := 0, mouse_report_pending := False\<rparr>)"

definition poll_mouse :: "('h, 'e) machine_scheme \<Rightarrow> ('h, 'z) usb_scheme \<Rightarrow> ('h, 'z) usb_scheme option" where
  "poll_mouse io s =
     (if \<not> mouse_report_pending s then Some s
      else
        let s = s\<lparr>mouse_report_pending := False\<rparr> in
        case mouse_state s of
          None \<Rightarrow> Some s
        | Some st \<Rightarrow> do {
            let report = read_mouse_report (ram s) (m_report_buf_virt st);
            s \<leftarrow> mouse_handle_report report s;
            mouse_arm_next_report io s
          })"

section \<open>The driver keeps the contract of a report driver\<close>

definition mouse_ring :: "('h, 'z) usb_scheme \<Rightarrow> (nat \<times> bool \<times> mem) option" where
  "mouse_ring s = map_option (\<lambda>st. (m_enqueue_index st, m_cycle_state st, ram s)) (mouse_state s)"

definition mouse_ready :: "('h, 'e) machine_scheme \<Rightarrow> u64 \<Rightarrow> u64 \<Rightarrow> u64 \<Rightarrow> ('h, 'z) usb_scheme \<Rightarrow> bool" where
  "mouse_ready io rv rp buf s \<longleftrightarrow> (\<exists>x. xhci_instance s = Some x \<and> doorbells_ok io x)
     \<and> (\<forall>st. mouse_state s = Some st \<longrightarrow> m_ring_virt st = rv \<and> m_ring_phys st = rp \<and> m_report_buf_phys st = buf)"

lemma mouse_arm_eq:
  assumes "mouse_ready io rv rp buf s" and "mouse_state s = Some st"
  shows "\<exists>h. mouse_arm_next_report io s =
    (case normal_put rv rp (buf, 8) (m_enqueue_index st, m_cycle_state st, ram s) of (i, c, m) \<Rightarrow>
       Some (s\<lparr>ram := m, outside := h, mouse_state := Some (st\<lparr>m_enqueue_index := i, m_cycle_state := c\<rparr>)\<rparr>))"
proof -
  obtain x where x: "xhci_instance s = Some x" "doorbells_ok io x" using assms(1) by (auto simp: mouse_ready_def)
  obtain i c m where e: "enqueue_normal_trb rv rp 16 buf 8 (m_enqueue_index st, m_cycle_state st, ram s) = (i, c, m)"
    by (metis prod_cases3)
  obtain h where "ring_doorbell io x (ucast (m_slot_id st)) (m_dci st) (s\<lparr>ram := m\<rparr>) = Some (s\<lparr>ram := m, outside := h\<rparr>)"
    using ring_doorbell_ok [OF x(2), of "ucast (m_slot_id st)" "m_dci st" "s\<lparr>ram := m\<rparr>"] by auto
  with e x(1) assms show ?thesis
    by (intro exI [of _ h])
      (simp add: mouse_arm_next_report_def enqueue_normal_trb_and_ring_def normal_put_def mouse_ready_def
        MOUSE_RING_SIZE_def REPORT_BUF_LEN_def)
qed

interpretation mouse: report_driver mouse_ring "mouse_arm_next_report io" rv rp buf 8 "mouse_ready io rv rp buf"
  for io :: "('h, 'e) machine_scheme" and rv rp buf :: u64
proof unfold_locales
  fix s :: "('h, 'z) usb_scheme" and r
  assume ok: "mouse_ready io rv rp buf s" and r: "mouse_ring s = Some r"
  obtain st where st: "mouse_state s = Some st" "r = (m_enqueue_index st, m_cycle_state st, ram s)"
    using r by (auto simp: mouse_ring_def)
  obtain i c m where p: "normal_put rv rp (buf, 8) r = (i, c, m)" by (metis prod_cases3)
  obtain h where "mouse_arm_next_report io s =
      Some (s\<lparr>ram := m, outside := h, mouse_state := Some (st\<lparr>m_enqueue_index := i, m_cycle_state := c\<rparr>)\<rparr>)"
    using mouse_arm_eq [OF ok st(1)] p st(2) by auto
  with ok st p show "\<exists>s'. mouse_arm_next_report io s = Some s' \<and> mouse_ready io rv rp buf s'
      \<and> mouse_ring s' = Some (normal_put rv rp (buf, 8) r)"
    by (auto simp: mouse_ready_def mouse_ring_def)
qed

section \<open>The position\<close>

text \<open>A run of reports, one after the other.\<close>

fun mouse_reports :: "MouseReport list \<Rightarrow> ('h, 'z) usb_scheme \<Rightarrow> ('h, 'z) usb_scheme option" where
  "mouse_reports [] s = Some s"
| "mouse_reports (r # rs) s = do { s \<leftarrow> mouse_handle_report r s; mouse_reports rs s }"

definition in_i32 :: "int \<Rightarrow> bool" where
  "in_i32 a \<longleftrightarrow> - (2 ^ 31) \<le> a \<and> a < 2 ^ 31"

text \<open>
  Property C29. The position is the sum of the movements reported since the driver started, and the kernel
  panics exactly when that sum leaves the range of \<open>i32\<close> on the way: after any list of reports the driver
  has the exact sums and the last button state if every partial sum is in range, and has not returned
  otherwise.
\<close>

theorem mouse_position_exact:
  assumes "mouse_state s = Some st"
  shows "case mouse_reports rs s of
      None \<Rightarrow> \<exists>n \<le> length rs. \<not> in_i32 (pos_x st + sum_list (map dx (take n rs)))
                \<or> \<not> in_i32 (pos_y st + sum_list (map dy (take n rs)))
    | Some s' \<Rightarrow> (\<forall>n. 0 < n \<and> n \<le> length rs \<longrightarrow> in_i32 (pos_x st + sum_list (map dx (take n rs)))
                \<and> in_i32 (pos_y st + sum_list (map dy (take n rs))))
        \<and> mouse_state s' = Some (st\<lparr>pos_x := pos_x st + sum_list (map dx rs), pos_y := pos_y st + sum_list (map dy rs),
              last_buttons := (if rs = [] then last_buttons st else buttons (last rs))\<rparr>)"
  using assms
proof (induction rs arbitrary: s st)
  case Nil
  then show ?case by simp
next
  case (Cons r rs)
  show ?case
  proof (cases "in_i32 (pos_x st + dx r) \<and> in_i32 (pos_y st + dy r)")
    case False
    then have "mouse_handle_report r s = None"
      using Cons.prems by (auto simp: mouse_handle_report_def i32_add_def in_i32_def bind_eq_None_conv)
    moreover have "\<exists>n \<le> length (r # rs). \<not> in_i32 (pos_x st + sum_list (map dx (take n (r # rs))))
        \<or> \<not> in_i32 (pos_y st + sum_list (map dy (take n (r # rs))))"
      using False by (intro exI [of _ 1]) simp
    ultimately show ?thesis by simp
  next
    case True
    let ?st = "st\<lparr>pos_x := pos_x st + dx r, pos_y := pos_y st + dy r, last_buttons := buttons r\<rparr>"
    obtain s1 where s1: "mouse_handle_report r s = Some s1" "mouse_state s1 = Some ?st"
      using True Cons.prems by (simp add: mouse_handle_report_def i32_add_def in_i32_def Let_def)
    note IH = Cons.IH [OF s1(2)]
    show ?thesis
    proof (cases "mouse_reports rs s1")
      case None
      with IH obtain n where "n \<le> length rs" "\<not> in_i32 (pos_x st + dx r + sum_list (map dx (take n rs)))
          \<or> \<not> in_i32 (pos_y st + dy r + sum_list (map dy (take n rs)))" by auto
      then have "\<exists>n \<le> length (r # rs). \<not> in_i32 (pos_x st + sum_list (map dx (take n (r # rs))))
          \<or> \<not> in_i32 (pos_y st + sum_list (map dy (take n (r # rs))))"
        by (intro exI [of _ "Suc n"]) (simp add: add.assoc)
      then show ?thesis by (simp add: s1(1) None)
    next
      case (Some s')
      with IH have a: "\<forall>n. 0 < n \<and> n \<le> length rs \<longrightarrow> in_i32 (pos_x st + dx r + sum_list (map dx (take n rs)))
          \<and> in_i32 (pos_y st + dy r + sum_list (map dy (take n rs)))"
        and b: "mouse_state s' = Some (?st\<lparr>pos_x := pos_x ?st + sum_list (map dx rs), pos_y := pos_y ?st + sum_list (map dy rs),
              last_buttons := (if rs = [] then last_buttons ?st else buttons (last rs))\<rparr>)" by simp_all
      have "in_i32 (pos_x st + sum_list (map dx (take n (r # rs))))
          \<and> in_i32 (pos_y st + sum_list (map dy (take n (r # rs))))" if "0 < n" "n \<le> length (r # rs)" for n
      proof -
        from that(1) obtain k where k: "n = Suc k" by (cases n) auto
        show ?thesis
          using a [rule_format, of k] True that(2) by (cases "k = 0") (simp_all add: k add.assoc)
      qed
      with b show ?thesis by (simp add: s1(1) Some add.assoc)
    qed
  qed
qed

definition mouse_example :: "int \<Rightarrow> unit usb" where
  "mouse_example x = (usb_start pg_example ())
     \<lparr>mouse_state := Some \<lparr>m_slot_id = 2, m_ring_virt = 0x6000, m_ring_phys = 0x6000, m_enqueue_index = 0,
        m_cycle_state = True, m_dci = 3, m_report_buf_virt = 0x5000, m_report_buf_phys = 0x5000,
        last_buttons = 0, pos_x = x, pos_y = 0\<rparr>\<rparr>"

theorem mouse_position_exact_witness:
  "mouse_reports [\<lparr>buttons = 1, dx = 100, dy = -5, wheel = 0\<rparr>, \<lparr>buttons = 0, dx = 27, dy = 0, wheel = 0\<rparr>]
     (mouse_example (2 ^ 31 - 120)) = None
   \<and> \<not> in_i32 (2 ^ 31 - 120 + sum_list [100, 27])"
proof -
  let ?rs = "[\<lparr>buttons = 1, dx = 100, dy = -5, wheel = 0\<rparr>, \<lparr>buttons = 0, dx = 27, dy = 0, wheel = 0\<rparr>]"
  have ex: "mouse_state (mouse_example (2 ^ 31 - 120)) = Some (the (mouse_state (mouse_example (2 ^ 31 - 120))))"
    "pos_x (the (mouse_state (mouse_example (2 ^ 31 - 120)))) = 2 ^ 31 - 120"
    by (simp_all add: mouse_example_def)
  have "mouse_reports ?rs (mouse_example (2 ^ 31 - 120)) = None"
  proof (rule ccontr)
    assume "mouse_reports ?rs (mouse_example (2 ^ 31 - 120)) \<noteq> None"
    then obtain s' where "mouse_reports ?rs (mouse_example (2 ^ 31 - 120)) = Some s'" by blast
    with mouse_position_exact [OF ex(1), of ?rs]
    have "\<forall>n. 0 < n \<and> n \<le> 2 \<longrightarrow> in_i32 (2 ^ 31 - 120 + sum_list (map dx (take n ?rs)))"
      using ex(2) by simp
    from this [rule_format, of 2] show False by (simp add: in_i32_def)
  qed
  then show ?thesis by (simp add: in_i32_def)
qed

end
