(* ===== verification/Usb.thy ===== *)
theory Usb
  imports Keyboard Mouse
begin

text \<open>
  \<^verbatim>\<open>kernel/src/usb/mod.rs\<close>: from the controllers on the PCI bus to the device-class drivers, and hotplug by
  comparing the registry \<open>ACTIVE_PORTS\<close> with the ports that are connected now. The registry is locked
  for the whole of \<open>discover_and_init_hid_devices\<close>, so it is threaded as a list and stored at the end.
\<close>

datatype DeviceKind = Keyboard | Mouse

definition dispatch_endpoint :: "('h, 'e) machine_scheme \<Rightarrow> (('h, 'z) usb_scheme \<Rightarrow> ('h, 'z) usb_scheme option) \<Rightarrow> u32 \<Rightarrow> u8
    \<Rightarrow> EndpointInfo \<Rightarrow> ('h, 'z) usb_scheme \<Rightarrow> (DeviceKind option \<times> ('h, 'z) usb_scheme) option" where
  "dispatch_endpoint io tick slot port ep s =
     (if interface_class ep \<noteq> 3 then Some (None, s)
      else do {
        (r, s) \<leftarrow> configure_endpoint io tick slot port ep s;
        case r of
          Inl e \<Rightarrow> Some (None, s)
        | Inr handle \<Rightarrow>
            if interface_protocol ep = 1 then do {
              s \<leftarrow> init_keyboard io tick slot handle (inteface_number ep) s; Some (Some Keyboard, s) }
            else if interface_protocol ep = 2 then do {
              s \<leftarrow> init_mouse io tick slot handle (inteface_number ep) s; Some (Some Mouse, s) }
            else Some (None, s)
      })"

fun dispatch_endpoints :: "('h, 'e) machine_scheme \<Rightarrow> (('h, 'z) usb_scheme \<Rightarrow> ('h, 'z) usb_scheme option) \<Rightarrow> u32 \<Rightarrow> u8
    \<Rightarrow> EndpointInfo list \<Rightarrow> bool \<Rightarrow> bool \<Rightarrow> ('h, 'z) usb_scheme \<Rightarrow> (bool \<times> bool \<times> ('h, 'z) usb_scheme) option" where
  "dispatch_endpoints io tick slot port [] has_kbd has_mouse s = Some (has_kbd, has_mouse, s)"
| "dispatch_endpoints io tick slot port (ep # eps) has_kbd has_mouse s = do {
     (kind, s) \<leftarrow> dispatch_endpoint io tick slot port ep s;
     case kind of
       Some Keyboard \<Rightarrow> dispatch_endpoints io tick slot port eps True has_mouse s
     | Some Mouse \<Rightarrow> dispatch_endpoints io tick slot port eps has_kbd True s
     | None \<Rightarrow> dispatch_endpoints io tick slot port eps has_kbd has_mouse s
   }"

definition init_one_device :: "('h, 'e) machine_scheme \<Rightarrow> (('h, 'z) usb_scheme \<Rightarrow> ('h, 'z) usb_scheme option) \<Rightarrow> u8 \<Rightarrow> u8
    \<Rightarrow> ('h, 'z) usb_scheme \<Rightarrow> (ActivePort option \<times> ('h, 'z) usb_scheme) option" where
  "init_one_device io tick port speed s = do {
     (r, s) \<leftarrow> enable_slot io tick s;
     case r of Inl e \<Rightarrow> Some (None, s) | Inr slot \<Rightarrow> do {
     (r, s) \<leftarrow> address_device io tick slot port speed s;
     case r of Inl e \<Rightarrow> Some (None, s) | Inr _ \<Rightarrow> do {
     let no_hid = \<lparr>ap_root_port = port, ap_slot_id = slot, ap_has_keyboard = False, ap_has_mouse = False\<rparr>;
     (r, s) \<leftarrow> get_device_descriptor io tick slot s;
     case r of Inl e \<Rightarrow> Some (Some no_hid, s) | Inr _ \<Rightarrow> do {
     (r, s) \<leftarrow> get_configuration_descriptor_and_find_interrupt_endpoints io tick slot s;
     case r of Inl e \<Rightarrow> Some (Some no_hid, s) | Inr endpoints \<Rightarrow> do {
     (r, s) \<leftarrow> control_transfer_no_data io tick slot 0x00 0x09 1 0 s;
     case r of Inl e \<Rightarrow> Some (Some no_hid, s) | Inr _ \<Rightarrow> do {
     (has_kbd, has_mouse, s) \<leftarrow> dispatch_endpoints io tick slot port endpoints False False s;
     Some (Some \<lparr>ap_root_port = port, ap_slot_id = slot, ap_has_keyboard = has_kbd, ap_has_mouse = has_mouse\<rparr>, s)
   }}}}}}"

definition shutdown_device :: "('h, 'e) machine_scheme \<Rightarrow> (('h, 'z) usb_scheme \<Rightarrow> ('h, 'z) usb_scheme option) \<Rightarrow> ActivePort
    \<Rightarrow> ('h, 'z) usb_scheme \<Rightarrow> ('h, 'z) usb_scheme option" where
  "shutdown_device io tick entry s = do {
     let s = (if ap_has_keyboard entry then shutdown_keyboard io (ap_slot_id entry) s else s);
     let s = (if ap_has_mouse entry then shutdown_mouse io (ap_slot_id entry) s else s);
     (r, s) \<leftarrow> disable_slot io tick (ap_slot_id entry) s;
     Some s
   }"

text \<open>The ports are those of \<open>scan_ports\<close>: pairs of the port index (from 0) and the speed.\<close>

fun still_connected :: "(u8 \<times> u8) list \<Rightarrow> u8 \<Rightarrow> bool option" where
  "still_connected [] port = Some False"
| "still_connected ((i, speed) # ps) port = do {
     p \<leftarrow> checked_add i 1;
     if p = port then Some True else still_connected ps port }"

fun drop_disconnected :: "('h, 'e) machine_scheme \<Rightarrow> (('h, 'z) usb_scheme \<Rightarrow> ('h, 'z) usb_scheme option) \<Rightarrow> (u8 \<times> u8) list
    \<Rightarrow> ActivePort list \<Rightarrow> ('h, 'z) usb_scheme \<Rightarrow> (ActivePort list \<times> ('h, 'z) usb_scheme) option" where
  "drop_disconnected io tick ports [] s = Some ([], s)"
| "drop_disconnected io tick ports (e # es) s = do {
     stays \<leftarrow> still_connected ports (ap_root_port e);
     if stays then do {
       (es, s) \<leftarrow> drop_disconnected io tick ports es s;
       Some (e # es, s)
     } else do {
       s \<leftarrow> shutdown_device io tick e s;
       drop_disconnected io tick ports es s
     }
   }"

fun connect_new :: "('h, 'e) machine_scheme \<Rightarrow> (('h, 'z) usb_scheme \<Rightarrow> ('h, 'z) usb_scheme option) \<Rightarrow> (u8 \<times> u8) list
    \<Rightarrow> ActivePort list \<Rightarrow> ('h, 'z) usb_scheme \<Rightarrow> (ActivePort list \<times> ('h, 'z) usb_scheme) option" where
  "connect_new io tick [] active s = Some (active, s)"
| "connect_new io tick ((i, speed) # ps) active s = do {
     port \<leftarrow> checked_add i 1;
     if port \<in> ap_root_port ` set active then connect_new io tick ps active s
     else do {
       (r, s) \<leftarrow> init_one_device io tick port speed s;
       connect_new io tick ps (case r of Some entry \<Rightarrow> active @ [entry] | None \<Rightarrow> active) s
     }
   }"

definition discover_and_init_hid_devices :: "('h, 'e) machine_scheme \<Rightarrow> (('h, 'z) usb_scheme \<Rightarrow> ('h, 'z) usb_scheme option)
    \<Rightarrow> ('h, 'z) usb_scheme \<Rightarrow> ('h, 'z) usb_scheme option" where
  "discover_and_init_hid_devices io tick s = do {
     x \<leftarrow> xhci_instance s;
     let (ports, s) = scan_ports io x s;
     (active, s) \<leftarrow> drop_disconnected io tick ports (active_ports s) s;
     (active, s) \<leftarrow> connect_new io tick ports active s;
     Some (s\<lparr>active_ports := active\<rparr>)
   }"

definition poll_hotplug :: "('h, 'e) machine_scheme \<Rightarrow> (('h, 'z) usb_scheme \<Rightarrow> ('h, 'z) usb_scheme option)
    \<Rightarrow> ('h, 'z) usb_scheme \<Rightarrow> ('h, 'z) usb_scheme option" where
  "poll_hotplug io tick s =
     (if \<not> port_change_pending s then Some s
      else
        let s = s\<lparr>port_change_pending := False\<rparr> in
        if xhci_instance s = None then Some s else discover_and_init_hid_devices io tick s)"

text \<open>\<open>loop { xhci_dev.poll_event_ring(); }\<close>: it never returns.\<close>

partial_function (option) poll_forever :: "('h, 'e) machine_scheme \<Rightarrow> XHCI \<Rightarrow> ('h, 'z) kernel_scheme \<Rightarrow> ('h, 'z) kernel_scheme option" where
  "poll_forever io x s = do { (x, s) \<leftarrow> poll_event_ring io x s; poll_forever io x s }"

definition init_xhci_controller :: "('h, 'e) machine_scheme \<Rightarrow> (('h, 'z) usb_scheme \<Rightarrow> ('h, 'z) usb_scheme option) \<Rightarrow> PciDevice
    \<Rightarrow> ('h, 'z) usb_scheme \<Rightarrow> ('h, 'z) usb_scheme option" where
  "init_xhci_controller io tick ctrl s = do {
     let s = s\<lparr>outside := enable_device io ctrl (outside s)\<rparr>;
     (bar, h) \<leftarrow> get_bar0 io ctrl (outside s);
     (x, s) \<leftarrow> XHCI_new io bar ctrl (s\<lparr>outside := h\<rparr>);
     (msix_ok, s) \<leftarrow> setup_msix io x ctrl 44 0 s;
     (x, s) \<leftarrow> init_xhci io x s;
     let (ports, s) = scan_ports io x s;
     if msix_ok then do {
       let s = (if xhci_instance s = None then s\<lparr>xhci_instance := Some x\<rparr> else s);
       discover_and_init_hid_devices io tick s
     } else poll_forever io x s
   }"

fun init_controllers :: "('h, 'e) machine_scheme \<Rightarrow> (('h, 'z) usb_scheme \<Rightarrow> ('h, 'z) usb_scheme option) \<Rightarrow> PciDevice list
    \<Rightarrow> ('h, 'z) usb_scheme \<Rightarrow> ('h, 'z) usb_scheme option" where
  "init_controllers io tick [] s = Some s"
| "init_controllers io tick (ctrl # ctrls) s = do {
     s \<leftarrow> (if prog_if ctrl = 0x30 then init_xhci_controller io tick ctrl s else Some s);
     init_controllers io tick ctrls s
   }"

definition init_usb_controllers :: "('h, 'e) machine_scheme \<Rightarrow> (('h, 'z) usb_scheme \<Rightarrow> ('h, 'z) usb_scheme option)
    \<Rightarrow> ('h, 'z) usb_scheme \<Rightarrow> ('h, 'z) usb_scheme option" where
  "init_usb_controllers io tick s =
     (let (ctrls, h) = find_usb_controllers io (outside s) in init_controllers io tick ctrls (s\<lparr>outside := h\<rparr>))"

section \<open>The registry and the ports\<close>

text \<open>The root ports (from 1) that \<open>scan_ports\<close> finds connected. The last index is below the number of ports, so adding one never overflows.\<close>

definition root_ports :: "(u8 \<times> u8) list \<Rightarrow> u8 list" where
  "root_ports ps = map (\<lambda>(i, speed). i + 1) ps"

definition indices_ok :: "(u8 \<times> u8) list \<Rightarrow> bool" where
  "indices_ok ps \<longleftrightarrow> (\<forall>(i, speed) \<in> set ps. unat i < 255)"

lemma checked_succ: "unat (i :: u8) < 255 \<Longrightarrow> checked_add i 1 = Some (i + 1)"
  by (simp add: checked_add_def)

lemma still_connected_iff:
  "indices_ok ps \<Longrightarrow> still_connected ps port = Some (port \<in> set (root_ports ps))"
  by (induction ps) (auto simp: indices_ok_def root_ports_def checked_succ)

lemma connected_ports_indices:
  assumes "connected_ports io op ports s = (ps, s')" and "\<forall>p \<in> set ports. p < 255"
  shows "indices_ok ps"
proof -
  have "indices_ok (fst (foldl (\<lambda>(states, s) port.
       let (portsc, s) = read_portsc io op (of_nat port) s in
       if portsc AND 0x1 \<noteq> 0
       then (states @ [(of_nat port, ucast (drop_bit 10 portsc AND 0xF))], s) else (states, s)) (ps0, s0) ports))"
    if "indices_ok ps0" for ps0 s0
    using that assms(2)
  proof (induction ports arbitrary: ps0 s0)
    case (Cons p ports)
    have "unat (of_nat p :: u8) < 255" using Cons.prems(2) by (simp add: unat_of_nat)
    then have "indices_ok (ps0 @ [(of_nat p, v)])" for v
      using Cons.prems(1) by (auto simp: indices_ok_def)
    then show ?case
      using Cons by (auto simp: Let_def split: prod.splits)
  qed simp
  from this [of "[]" s] assms(1) show ?thesis
    by (simp add: connected_ports_def indices_ok_def)
qed

lemma scan_ports_indices:
  assumes "scan_ports io x s = (ps, s')"
  shows "indices_ok ps"
proof -
  obtain op s1 n s2 where "op_regs io x s = (op, s1)" "max_ports io x s1 = (n, s2)" by fastforce
  with assms have "connected_ports io op [0..<unat n] s2 = (ps, s')" by (simp add: scan_ports_def)
  moreover have "unat n < 256" using unsigned_less [of n] by simp
  ultimately show ?thesis by (intro connected_ports_indices) auto
qed

lemma mmio_read32_frame: "\<exists>v h. mmio_read32 io a s = (v, s\<lparr>outside := h\<rparr>)"
proof -
  obtain v h where "mrd32 io a (outside s) = (v, h)" by fastforce
  then have "mmio_read32 io a s = (v, s\<lparr>outside := h\<rparr>)" by (simp add: mmio_read32_def)
  then show ?thesis by blast
qed

lemma mmio_read8_frame: "\<exists>v h. mmio_read8 io a s = (v, s\<lparr>outside := h\<rparr>)"
proof -
  obtain v h where "mrd8 io a (outside s) = (v, h)" by fastforce
  then have "mmio_read8 io a s = (v, s\<lparr>outside := h\<rparr>)" by (simp add: mmio_read8_def)
  then show ?thesis by blast
qed

lemma case_sum_eq_Some: "case_sum f g r = Some z \<longleftrightarrow> (\<exists>e. r = Inl e \<and> f e = Some z) \<or> (\<exists>v. r = Inr v \<and> g v = Some z)"
  by (cases r) simp_all

lemma scan_ports_frame:
  "scan_ports io x s = (ps, s') \<Longrightarrow> \<exists>h. s' = s\<lparr>outside := h\<rparr>"
proof -
  have c: "\<exists>h. snd (foldl (\<lambda>(states, s) port.
       let (portsc, s) = read_portsc io op (of_nat port) s in
       if portsc AND 0x1 \<noteq> 0
       then (states @ [(of_nat port, ucast (drop_bit 10 portsc AND 0xF))], s) else (states, s)) (ps0, s\<lparr>outside := h0\<rparr>) ports)
     = s\<lparr>outside := h\<rparr>" for op ports h0 and ps0 :: "(u8 \<times> u8) list"
  proof (induction ports arbitrary: ps0 h0)
    case Nil
    then show ?case by auto
  next
    case (Cons p ports)
    obtain v h1 where "read_portsc io op (of_nat p) (s\<lparr>outside := h0\<rparr>) = (v, s\<lparr>outside := h1\<rparr>)"
      using mmio_read32_frame [of io "op + (0x400 + ucast (of_nat p :: u8) * 0x10)" "s\<lparr>outside := h0\<rparr>"]
      by (auto simp: read_portsc_def)
    then show ?case using Cons.IH [of _ h1] by (cases "v AND 0x1 \<noteq> 0") simp_all
  qed
  assume e: "scan_ports io x s = (ps, s')"
  obtain op h1 where op: "op_regs io x s = (op, s\<lparr>outside := h1\<rparr>)"
    using mmio_read8_frame [of io "virt_base x" s] by (auto simp: op_regs_def cap_length_def)
  obtain n h2 where n: "max_ports io x (s\<lparr>outside := h1\<rparr>) = (n, s\<lparr>outside := h2\<rparr>)"
    using mmio_read32_frame [of io "virt_base x + 0x04" "s\<lparr>outside := h1\<rparr>"]
    by (auto simp: max_ports_def hcsparams1_def)
  have "s' = snd (connected_ports io op [0..<unat n] (s\<lparr>outside := h2\<rparr>))"
    using e op n by (simp add: scan_ports_def)
  then show "\<exists>h. s' = s\<lparr>outside := h\<rparr>"
    using c [of op "[]" h2 "[0..<unat n]"] by (simp add: connected_ports_def)
qed

text \<open>What happens to the registry, whatever the devices do.\<close>

lemma drop_disconnected_keeps:
  assumes "indices_ok ps" and "drop_disconnected io tick ps es s = Some (es', s')"
  shows "es' = filter (\<lambda>e. ap_root_port e \<in> set (root_ports ps)) es"
  using assms(2)
proof (induction es arbitrary: s es' s')
  case (Cons e es)
  then show ?case
    by (auto simp: still_connected_iff [OF assms(1)] bind_eq_Some_conv split: if_splits)
qed simp

lemma init_one_device_port:
  "init_one_device io tick port speed s = Some (Some entry, s') \<Longrightarrow> ap_root_port entry = port"
  by (auto simp: init_one_device_def Let_def bind_eq_Some_conv case_sum_eq_Some)

lemma connect_new_adds:
  assumes "indices_ok ps" and "connect_new io tick ps active s = Some (active', s')"
    and "distinct (map ap_root_port active)"
  shows "\<exists>new. active' = active @ new \<and> distinct (map ap_root_port active')
    \<and> ap_root_port ` set new \<subseteq> set (root_ports ps)"
  using assms
proof (induction ps arbitrary: active s)
  case Nil
  then show ?case by simp
next
  case (Cons p ps)
  obtain i speed where p: "p = (i, speed)" by (cases p)
  from Cons.prems(1) have i: "unat i < 255" and ps: "indices_ok ps" by (auto simp: indices_ok_def p)
  show ?case
  proof (cases "i + 1 \<in> ap_root_port ` set active")
    case True
    then have "connect_new io tick ps active s = Some (active', s')"
      using Cons.prems(2) by (simp add: p checked_succ [OF i])
    with Cons.IH [OF ps this Cons.prems(3)] show ?thesis by (auto simp: root_ports_def)
  next
    case False
    then obtain r s1 where r: "init_one_device io tick (i + 1) speed s = Some (r, s1)"
      and rest: "connect_new io tick ps (case r of Some entry \<Rightarrow> active @ [entry] | None \<Rightarrow> active) s1 = Some (active', s')"
      using Cons.prems(2) by (auto simp: p checked_succ [OF i] bind_eq_Some_conv)
    show ?thesis
    proof (cases r)
      case None
      with Cons.IH [OF ps _ Cons.prems(3)] rest show ?thesis by (fastforce simp: root_ports_def)
    next
      case (Some entry)
      then have port: "ap_root_port entry = i + 1" using r init_one_device_port by blast
      then have "distinct (map ap_root_port (active @ [entry]))" using False Cons.prems(3) by auto
      moreover have "connect_new io tick ps (active @ [entry]) s1 = Some (active', s')" using rest Some by simp
      ultimately obtain new where "active' = (active @ [entry]) @ new"
        "distinct (map ap_root_port active')" "ap_root_port ` set new \<subseteq> set (root_ports ps)"
        using Cons.IH [OF ps] by blast
      then show ?thesis
        by (intro exI [of _ "entry # new"]) (auto simp: root_ports_def p port)
    qed
  qed
qed

text \<open>
  Property C16. Synchronisation keeps the registry true: a port stays in it exactly when it is still
  connected, every port added is connected, and no port is in it twice. Whatever the devices answer, the
  registry before and the connected ports determine all of it but which of the new ports could be set up.
\<close>

theorem discover_keeps_registry:
  assumes "discover_and_init_hid_devices io tick s = Some s'" and "xhci_instance s = Some x"
    and "distinct (map ap_root_port (active_ports s))"
  shows "\<exists>new. active_ports s' = filter (\<lambda>e. ap_root_port e \<in> set (root_ports (fst (scan_ports io x s)))) (active_ports s) @ new
    \<and> ap_root_port ` set new \<subseteq> set (root_ports (fst (scan_ports io x s)))
    \<and> distinct (map ap_root_port (active_ports s'))"
proof -
  obtain ps s1 where ps: "scan_ports io x s = (ps, s1)" by fastforce
  obtain h where s1: "s1 = s\<lparr>outside := h\<rparr>" using scan_ports_frame [OF ps] by blast
  from assms(1,2) ps obtain es s2 es' s3 where d: "drop_disconnected io tick ps (active_ports s1) s1 = Some (es, s2)"
    and c: "connect_new io tick ps es s2 = Some (es', s3)" and s': "s' = s3\<lparr>active_ports := es'\<rparr>"
    by (auto simp: discover_and_init_hid_devices_def bind_eq_Some_conv)
  note ok = scan_ports_indices [OF ps]
  have es: "es = filter (\<lambda>e. ap_root_port e \<in> set (root_ports ps)) (active_ports s)"
    using drop_disconnected_keeps [OF ok d] by (simp add: s1)
  then have "distinct (map ap_root_port es)"
    using assms(3) by (simp add: distinct_map_filter)
  from connect_new_adds [OF ok c this] es show ?thesis
    by (auto simp: s' ps)
qed

text \<open>
  Synchronising again changes nothing: when the connected ports are exactly those of the registry,
  the call returns, sends no command and leaves everything but the device registers as it was.
\<close>

theorem discover_idempotent:
  assumes "xhci_instance s = Some x"
    and "set (root_ports (fst (scan_ports io x s))) = ap_root_port ` set (active_ports s)"
  shows "\<exists>h. discover_and_init_hid_devices io tick s = Some (s\<lparr>outside := h\<rparr>)"
proof -
  obtain ps s1 where ps: "scan_ports io x s = (ps, s1)" by fastforce
  obtain h where s1: "s1 = s\<lparr>outside := h\<rparr>" using scan_ports_frame [OF ps] by blast
  note ok = scan_ports_indices [OF ps]
  have conn: "set (root_ports ps) = ap_root_port ` set (active_ports s)" using assms(2) ps by simp
  have "drop_disconnected io tick ps es t = Some (es, t)" if "set es \<subseteq> set (active_ports s)" for es t
    using that by (induction es) (auto simp: still_connected_iff [OF ok] conn)
  moreover have "connect_new io tick qs (active_ports s) t = Some (active_ports s, t)"
    if "set (root_ports qs) \<subseteq> ap_root_port ` set (active_ports s)" "indices_ok qs" for qs t
    using that by (induction qs) (auto simp: root_ports_def indices_ok_def checked_succ)
  ultimately show ?thesis
    using ok conn
    by (intro exI [of _ h]) (simp add: discover_and_init_hid_devices_def assms(1) ps s1)
qed

text \<open>A machine with one root port, whose port is connected; the keyboard on it is in the registry.\<close>

definition one_port_machine :: "unit machine" where
  "one_port_machine = quiet_machine\<lparr>mrd32 := \<lambda>a h. (0x01000001, h)\<rparr>"

definition registry_example :: "unit usb" where
  "registry_example = (usb_start pg_example ())\<lparr>xhci_instance := Some xhci_example,
     active_ports := [\<lparr>ap_root_port = 1, ap_slot_id = 1, ap_has_keyboard = True, ap_has_mouse = False\<rparr>]\<rparr>"

lemma registry_example_scan:
  "scan_ports one_port_machine xhci_example registry_example = ([(0, 0)], registry_example)"
proof -
  have "registry_example\<lparr>outside := ()\<rparr> = registry_example" by simp
  then show ?thesis
    by (simp add: scan_ports_def op_regs_def cap_length_def mmio_read8_def max_ports_def hcsparams1_def mmio_read32_def
        connected_ports_def read_portsc_def one_port_machine_def quiet_machine_def)
qed

theorem discover_keeps_registry_witness:
  "\<exists>s'. discover_and_init_hid_devices one_port_machine Some registry_example = Some s'
     \<and> map ap_root_port (active_ports s') = [1]"
proof -
  have ex: "xhci_instance registry_example = Some xhci_example" "distinct (map ap_root_port (active_ports registry_example))"
    by (simp_all add: registry_example_def)
  have "discover_and_init_hid_devices one_port_machine Some registry_example = Some registry_example"
    by (simp add: discover_and_init_hid_devices_def ex registry_example_scan)
      (simp add: registry_example_def checked_add_def)
  with discover_keeps_registry [OF this ex] show ?thesis
    by (simp add: registry_example_def)
qed

theorem discover_idempotent_witness:
  "\<exists>h. discover_and_init_hid_devices one_port_machine (\<lambda>s. None) registry_example = Some (registry_example\<lparr>outside := h\<rparr>)"
  by (rule discover_idempotent [of _ xhci_example])
    (simp_all add: registry_example_scan root_ports_def, simp_all add: registry_example_def)

section \<open>Two devices of one kind\<close>

lemma keyboard_arm_slot:
  "keyboard_arm_next_report io s = Some s' \<Longrightarrow> kbd_slot_id s' = kbd_slot_id s \<and> mouse_slot_id s' = mouse_slot_id s"
  by (auto simp: keyboard_arm_next_report_def bind_eq_Some_conv split: option.splits dest!: enqueue_normal_frame)

lemma init_keyboard_slot: "init_keyboard io tick slot ep n s = Some s' \<Longrightarrow> kbd_slot_id s' = slot"
  by (auto simp: init_keyboard_def Let_def bind_eq_Some_conv dest!: keyboard_arm_slot)

text \<open>
  There is one keyboard: when a second one is set up, what the first one sends from then on is
  taken for the answer to a control transfer, and the driver is never told of it.
\<close>

theorem second_keyboard_silences_first:
  assumes "init_keyboard io tick slot ep n s = Some s'" and "first \<noteq> slot" and "first \<noteq> mouse_slot_id s'"
    and "first < 256" "dci < 32" "code < 256" "residual < 2 ^ 24"
  shows "dispatch_event (transfer_event first dci code residual c) s' =
    s'\<lparr>transfer_completion_code := code, transfer_completion_length := residual, transfer_completion_pending := True\<rparr>"
proof -
  have "\<not> for_kbd (transfer_event first dci code residual c) s'" "\<not> for_mouse (transfer_event first dci code residual c) s'"
    using assms(2,3) init_keyboard_slot [OF assms(1)]
    by (simp_all add: for_kbd_def for_mouse_def transfer_event_fields [OF assms(4-7)])
  from dispatch_event_simps(5) [OF transfer_event_fields(1) [OF assms(4-7)] this] show ?thesis
    by (simp only: transfer_event_fields [OF assms(4-7)])
qed

definition heap_machine :: "unit machine" where
  "heap_machine = quiet_machine\<lparr>heap_alloc := \<lambda>n al h. Some (0xFFFF800000200000, h)\<rparr>"

theorem second_keyboard_silences_first_witness:
  "\<exists>s'. init_keyboard heap_machine (\<lambda>s. Some (s\<lparr>transfer_completion_pending := True\<rparr>)) 2
        \<lparr>eh_ring_virt = 0xFFFF800000210000, eh_ring_phys = 0x210000, eh_dci = 3\<rparr> 0 registry_example = Some s'
    \<and> dispatch_event (transfer_event 1 3 1 0 True) s' =
        s'\<lparr>transfer_completion_code := 1, transfer_completion_length := 0, transfer_completion_pending := True\<rparr>"
proof -
  let ?f = "\<lambda>s. s\<lparr>transfer_completion_pending := True\<rparr>"
  let ?ep = "\<lparr>eh_ring_virt = 0xFFFF800000210000, eh_ring_phys = 0x210000, eh_dci = 3\<rparr>"
  have ex: "xhci_instance registry_example = Some xhci_example" "doorbells_ok heap_machine xhci_example"
    by (simp_all add: registry_example_def doorbells_ok_def heap_machine_def quiet_machine_def xhci_example_def)
  let ?trbs = "control_no_data_trbs (setup_packet 0x21 HID_SET_PROTOCOL HID_BOOT_PROTOCOL (ucast (0 :: u8)) 0)"
  obtain h where h: "control_transfer heap_machine (\<lambda>s. Some (?f s)) 2 ?trbs registry_example =
    (let s1 = transfer_sent xhci_example ?trbs h registry_example;
         n = first_up ?f transfer_completion_pending WAIT_LIMIT s1; s2 = (?f ^^ n) s1
     in Some (if n = WAIT_LIMIT then Inl CompletionTimeout else Inr (transfer_completion_code s2), s2))"
    using control_transfer_outcome [OF ex] by blast
  obtain m y where y: "transfer_sent xhci_example ?trbs h registry_example
      = registry_example\<lparr>ram := m, transfer_completion_pending := False, outside := h, xhci_instance := Some y\<rparr>"
    "virt_base y = virt_base xhci_example"
    using transfer_sent_frame [of xhci_example ?trbs h registry_example] by blast
  let ?s1 = "registry_example\<lparr>ram := m, transfer_completion_pending := True, outside := h, xhci_instance := Some y\<rparr>"
  have "first_up ?f transfer_completion_pending WAIT_LIMIT
      (registry_example\<lparr>ram := m, transfer_completion_pending := False, outside := h, xhci_instance := Some y\<rparr>) = 1"
    by (rule first_up_1) (simp_all add: WAIT_LIMIT_def)
  with h y(1) have ct: "\<exists>r. control_transfer heap_machine (\<lambda>s. Some (?f s)) 2 ?trbs registry_example = Some (r, ?s1)"
    by (simp add: Let_def)
  then obtain q where "control_transfer heap_machine (\<lambda>s. Some (?f s)) 2 ?trbs registry_example = Some (q, ?s1)" by blast
  then have "\<exists>r. control_transfer_no_data heap_machine (\<lambda>s. Some (?f s)) 2 0x21 HID_SET_PROTOCOL HID_BOOT_PROTOCOL
      (ucast (0 :: u8)) registry_example = Some (r, ?s1)"
    by (cases q) (simp_all add: control_transfer_no_data_def Let_def)
  then obtain r where "control_transfer_no_data heap_machine (\<lambda>s. Some (?f s)) 2 0x21 HID_SET_PROTOCOL HID_BOOT_PROTOCOL
      (ucast (0 :: u8)) registry_example = Some (r, ?s1)" by blast
  moreover let ?s2 = "?s1\<lparr>outside := h, ram := mem_fill m 0xFFFF800000200000 0 8\<rparr>"
  have "box_zeroed heap_machine REPORT_LEN 1 ?s1 = Some (0xFFFF800000200000, ?s2)"
    by (simp add: box_zeroed_def heap_machine_def REPORT_LEN_def)
  moreover have "phys_unwrap 0xFFFF800000200000 ?s2 = Some 0x200000"
    by (simp add: phys_unwrap_def virtual_to_physical_def registry_example_def usb_start_def kernel_start_def
        pgstate.extend_def kernel.extend_def pg_example_def pg_link_def pg_base_def checked_sub_def)
  moreover let ?s3 = "?s2\<lparr>kbd_dci := 3, kbd_slot_id := 2, kbd_state := Some
      \<lparr>k_slot_id = 2, k_ring_virt = 0xFFFF800000210000, k_ring_phys = 0x210000, k_enqueue_index = 0, k_cycle_state = True,
       k_dci = 3, k_report_buf_virt = 0xFFFF800000200000, k_report_buf_phys = 0x200000, last_keycodes = [0, 0, 0, 0, 0, 0]\<rparr>\<rparr>"
  have arm: "\<exists>s'. keyboard_arm_next_report heap_machine t = Some s' \<and> mouse_slot_id s' = mouse_slot_id t"
    if "xhci_instance t = Some y" "kbd_state t = Some st" for t st
  proof -
    have "doorbells_ok heap_machine y" using ex(2) y(2) by (simp add: doorbells_ok_def)
    with that have "kbd_ready heap_machine (k_ring_virt st) (k_ring_phys st) (k_report_buf_phys st) t"
      by (simp add: kbd_ready_def)
    from keyboard_arm_eq [OF this that(2)] obtain s' where "keyboard_arm_next_report heap_machine t = Some s'"
      by (auto split: prod.splits)
    with keyboard_arm_slot [OF this] show ?thesis by blast
  qed
  have "\<exists>s'. keyboard_arm_next_report heap_machine ?s3 = Some s' \<and> mouse_slot_id s' = mouse_slot_id ?s3"
    by (rule arm) simp_all
  moreover have "mouse_slot_id registry_example = 0"
    by (simp add: registry_example_def usb_start_def kernel_start_def pgstate.extend_def kernel.extend_def)
  ultimately have "\<exists>s'. init_keyboard heap_machine (\<lambda>s. Some (?f s)) 2 ?ep 0 registry_example = Some s' \<and> mouse_slot_id s' = 0"
    by (simp add: init_keyboard_def Let_def)
  then obtain s' where s': "init_keyboard heap_machine (\<lambda>s. Some (?f s)) 2 ?ep 0 registry_example = Some s'"
    "mouse_slot_id s' = 0" by blast
  then show ?thesis
    using second_keyboard_silences_first [OF s'(1), of 1 3 1 0 True] by auto
qed

end
