(* ===== verification/Apic.thy ===== *)
theory Apic
  imports Xhci_Rings
begin

text \<open>
  \<^verbatim>\<open>kernel/src/apic.rs\<close>: the legacy interrupt controllers are masked, the local APIC is enabled and the I/O APIC
  routes IRQ 1. The devices are reached through the ports, the model-specific register and memory-mapped registers of
  \<open>machine\<close>; what the data sheets say of them is stated below as predicates on the machine.
\<close>

definition PIC1_CMD :: u16 where "PIC1_CMD = 0x20"
definition PIC1_DATA :: u16 where "PIC1_DATA = 0x21"
definition PIC2_CMD :: u16 where "PIC2_CMD = 0xA0"
definition PIC2_DATA :: u16 where "PIC2_DATA = 0xA1"

definition disable_pic_writes :: "(u16 \<times> u8) list" where
  "disable_pic_writes =
     [(PIC1_CMD, 0x11), (PIC2_CMD, 0x11),
      (PIC1_DATA, 0x20), (PIC2_DATA, 0x28),
      (PIC1_DATA, 0x04), (PIC2_DATA, 0x02),
      (PIC1_DATA, 0x01), (PIC2_DATA, 0x01),
      (PIC1_DATA, 0xFF), (PIC2_DATA, 0xFF)]"

definition disable_pic :: "('h, 'e) machine_scheme \<Rightarrow> ('h, 'z) kernel_scheme \<Rightarrow> ('h, 'z) kernel_scheme" where
  "disable_pic io s = s\<lparr>outside := fold (\<lambda>(p, v). outb io p v) disable_pic_writes (outside s)\<rparr>"

definition IA32_APIC_BASE_MSR :: u32 where "IA32_APIC_BASE_MSR = 0x1B"

definition enable_apic :: "('h, 'e) machine_scheme \<Rightarrow> ('h, 'z) kernel_scheme \<Rightarrow> u64 \<times> ('h, 'z) kernel_scheme" where
  "enable_apic io s =
     (let (base, h) = rdmsr io IA32_APIC_BASE_MSR (outside s);
          base = base OR push_bit 11 1;
          h = wrmsr io IA32_APIC_BASE_MSR base h
      in (base AND 0xFFFFF000, s\<lparr>outside := h\<rparr>))"

record LocalApic =
  lapic_base :: u64

definition lapic_read :: "('h, 'e) machine_scheme \<Rightarrow> LocalApic \<Rightarrow> u32 \<Rightarrow> ('h, 'z) kernel_scheme \<Rightarrow> (u32 \<times> ('h, 'z) kernel_scheme) option" where
  "lapic_read io l offset s = do { a \<leftarrow> checked_add (lapic_base l) (ucast offset); Some (mmio_read32 io a s) }"

definition lapic_write :: "('h, 'e) machine_scheme \<Rightarrow> LocalApic \<Rightarrow> u32 \<Rightarrow> u32 \<Rightarrow> ('h, 'z) kernel_scheme \<Rightarrow> ('h, 'z) kernel_scheme option" where
  "lapic_write io l offset v s = do { a \<leftarrow> checked_add (lapic_base l) (ucast offset); Some (mmio_write32 io a v s) }"

definition send_eoi :: "('h, 'e) machine_scheme \<Rightarrow> LocalApic \<Rightarrow> ('h, 'z) kernel_scheme \<Rightarrow> ('h, 'z) kernel_scheme option" where
  "send_eoi io l s = lapic_write io l 0xB0 0 s"

definition APIC_SPURIOUS_VECTOR_REG :: u32 where "APIC_SPURIOUS_VECTOR_REG = 0xF0"

definition init_lapic :: "('h, 'e) machine_scheme \<Rightarrow> ('h, 'z) kernel_scheme \<Rightarrow> (LocalApic \<times> ('h, 'z) kernel_scheme) option" where
  "init_lapic io s = do {
     let (phys_base, s) = enable_apic io s;
     (v, s) \<leftarrow> map_mmio_page phys_base s;
     let lapic = \<lparr>lapic_base = v\<rparr>;
     s \<leftarrow> lapic_write io lapic APIC_SPURIOUS_VECTOR_REG 0x1FF s;
     Some (lapic, s)
   }"

record IoApic =
  ioapic_base :: u64

definition ioapic_read :: "('h, 'e) machine_scheme \<Rightarrow> IoApic \<Rightarrow> u32 \<Rightarrow> ('h, 'z) kernel_scheme \<Rightarrow> (u32 \<times> ('h, 'z) kernel_scheme) option" where
  "ioapic_read io a reg s = do {
     let s = mmio_write32 io (ioapic_base a) reg s;
     w \<leftarrow> checked_add (ioapic_base a) 0x10;
     Some (mmio_read32 io w s)
   }"

definition ioapic_write :: "('h, 'e) machine_scheme \<Rightarrow> IoApic \<Rightarrow> u32 \<Rightarrow> u32 \<Rightarrow> ('h, 'z) kernel_scheme \<Rightarrow> ('h, 'z) kernel_scheme option" where
  "ioapic_write io a reg v s = do {
     let s = mmio_write32 io (ioapic_base a) reg s;
     w \<leftarrow> checked_add (ioapic_base a) 0x10;
     Some (mmio_write32 io w v s)
   }"

definition set_redirect :: "('h, 'e) machine_scheme \<Rightarrow> IoApic \<Rightarrow> u8 \<Rightarrow> u8 \<Rightarrow> u8 \<Rightarrow> ('h, 'z) kernel_scheme \<Rightarrow> ('h, 'z) kernel_scheme option" where
  "set_redirect io a irq vector apic_id s = do {
     let low_index = 0x10 + ucast irq * 2;
     let high_index = low_index + 1;
     let high = push_bit 24 (ucast apic_id);
     let low = ucast vector;
     s \<leftarrow> ioapic_write io a high_index high s;
     ioapic_write io a low_index low s
   }"

definition init_ioapic :: "('h, 'e) machine_scheme \<Rightarrow> ('h, 'z) kernel_scheme \<Rightarrow> (IoApic \<times> ('h, 'z) kernel_scheme) option" where
  "init_ioapic io s = do {
     (v, s) \<leftarrow> map_mmio_page 0xFEC00000 s;
     let ioapic = \<lparr>ioapic_base = v\<rparr>;
     s \<leftarrow> set_redirect io ioapic 1 33 0 s;
     Some (ioapic, s)
   }"

section \<open>The legacy interrupt controllers\<close>

text \<open>
  An 8259 as its data sheet has it: a command byte with bit 4 starts the initialisation, which then takes the vector
  offset, the cascade wiring and, when bit 0 was set, the mode from the data port; after that the data port is the mask.
\<close>

datatype pic_phase = Operating | WantsOffset | WantsCascade | WantsMode

record pic =
  phase :: pic_phase
  wants_icw4 :: bool
  vector_offset :: u8
  mask_bits :: u8

definition pic_command :: "u8 \<Rightarrow> pic \<Rightarrow> pic" where
  "pic_command v p =
     (if bit v 4 then p\<lparr>phase := WantsOffset, wants_icw4 := bit v 0, mask_bits := 0\<rparr> else p)"

definition pic_data :: "u8 \<Rightarrow> pic \<Rightarrow> pic" where
  "pic_data v p =
     (case phase p of
        WantsOffset \<Rightarrow> p\<lparr>phase := WantsCascade, vector_offset := v AND 0xF8\<rparr>
      | WantsCascade \<Rightarrow> p\<lparr>phase := if wants_icw4 p then WantsMode else Operating\<rparr>
      | WantsMode \<Rightarrow> p\<lparr>phase := Operating\<rparr>
      | Operating \<Rightarrow> p\<lparr>mask_bits := v\<rparr>)"

definition pics_write :: "u16 \<Rightarrow> u8 \<Rightarrow> pic \<times> pic \<Rightarrow> pic \<times> pic" where
  "pics_write port v = (\<lambda>(m, s).
     if port = 0x20 then (pic_command v m, s) else if port = 0x21 then (pic_data v m, s)
     else if port = 0xA0 then (m, pic_command v s) else if port = 0xA1 then (m, pic_data v s) else (m, s))"

definition has_pics :: "('h, 'e) machine_scheme \<Rightarrow> ('h \<Rightarrow> pic \<times> pic) \<Rightarrow> bool" where
  "has_pics io pics \<longleftrightarrow> (\<forall>port v h. pics (outb io port v h) = pics_write port v (pics h))"

lemma pics_fold:
  "has_pics io pics \<Longrightarrow> pics (fold (\<lambda>(p, v). outb io p v) ws h) = fold (\<lambda>(p, v). pics_write p v) ws (pics h)"
  by (induction ws arbitrary: h) (auto simp: has_pics_def)

text \<open>
  \<open>disable_pic\<close> takes both legacy controllers, whatever their state, through a complete initialisation: they
  are operating, their vectors are moved to 0x20 and 0x28, clear of the exceptions, and every line is masked.
\<close>

theorem disable_pic_masks:
  assumes "has_pics io pics"
  shows "let (m, s') = pics (outside (disable_pic io s)) in
    phase m = Operating \<and> vector_offset m = 0x20 \<and> mask_bits m = 0xFF
    \<and> phase s' = Operating \<and> vector_offset s' = 0x28 \<and> mask_bits s' = 0xFF"
proof -
  obtain m0 s0 where e: "pics (outside s) = (m0, s0)" by fastforce
  have "pics (outside (disable_pic io s)) = fold (\<lambda>(p, v). pics_write p v) disable_pic_writes (m0, s0)"
    using pics_fold [OF assms, of disable_pic_writes "outside s"] by (simp add: disable_pic_def e)
  then show ?thesis
    by (simp add: disable_pic_writes_def PIC1_CMD_def PIC1_DATA_def PIC2_CMD_def
        PIC2_DATA_def pics_write_def pic_command_def pic_data_def bit_numeral_rec)
qed

definition pic_machine :: "(pic \<times> pic) machine" where
  "pic_machine =
     \<lparr>inb = \<lambda>p h. (0, h), outb = pics_write, inl = \<lambda>p h. (0, h), outl = \<lambda>p v h. h,
      rdmsr = \<lambda>r h. (0, h), wrmsr = \<lambda>r v h. h, mrd8 = \<lambda>a h. (0, h), mrd32 = \<lambda>a h. (0, h),
      mwr32 = \<lambda>a v h. h, mwr64 = \<lambda>a v h. h, heap_alloc = \<lambda>n al h. None, heap_free = \<lambda>a h. h,
      hw_step = \<lambda>h m. (h, m, False)\<rparr>"

theorem disable_pic_masks_witness:
  "\<forall>m0 s0. mask_bits (fst (outside (disable_pic pic_machine (kernel_start pg_example (m0, s0))))) = 0xFF"
proof (intro allI)
  fix m0 s0
  have "has_pics pic_machine id" by (simp add: has_pics_def pic_machine_def)
  from disable_pic_masks [OF this, of "kernel_start pg_example (m0, s0)"]
  show "mask_bits (fst (outside (disable_pic pic_machine (kernel_start pg_example (m0, s0))))) = 0xFF"
    by (simp add: Let_def split: prod.splits)
qed

section \<open>The local APIC\<close>

lemma apic_base_cut:
  "(msr OR push_bit 11 1) AND 0xFFFFF000 = (msr AND 0x000FFFFFFFFFF000) AND (mask 32 :: u64)"
proof -
  have m: "(0xFFFFF000 :: u64) = push_bit 12 (mask 20)" "(0x000FFFFFFFFFF000 :: u64) = push_bit 12 (mask 40)"
    by (simp_all add: mask_eq_exp_minus_1)
  show ?thesis
    unfolding m by (rule bit_word_eqI) (auto simp: bit_simps simp del: push_bit_of_1)
qed

lemma low_word_iff: "x AND mask 32 = x \<longleftrightarrow> x < 2 ^ 32" for x :: u64
proof -
  have "x AND mask 32 = x \<longleftrightarrow> unat x mod 2 ^ 32 = unat x"
    by (metis unat_and_mask word_unat_eq_iff)
  also have "\<dots> \<longleftrightarrow> unat x < 2 ^ 32"
    by (metis mod_less mod_less_divisor zero_less_numeral zero_less_power)
  also have "\<dots> \<longleftrightarrow> x < 2 ^ 32"
    by (simp add: word_less_nat_alt)
  finally show ?thesis .
qed

text \<open>
  \<open>enable_apic\<close> sets the enable bit of the register and keeps the others, but the address it returns is cut to
  32 bits: it is the base the register holds exactly when that lies below 4 GiB.
\<close>

theorem enable_apic_address:
  assumes "rdmsr io 0x1B (outside s) = (msr, h)"
  shows "outside (snd (enable_apic io s)) = wrmsr io 0x1B (msr OR push_bit 11 1) h
    \<and> (fst (enable_apic io s) = msr AND 0x000FFFFFFFFFF000 \<longleftrightarrow> msr AND 0x000FFFFFFFFFF000 < 2 ^ 32)"
  using assms low_word_iff [of "msr AND 0x000FFFFFFFFFF000"]
  by (simp add: enable_apic_def IA32_APIC_BASE_MSR_def Let_def apic_base_cut del: push_bit_of_1)

text \<open>A register whose base, 4 GiB + 0xFEE00000, is lost.\<close>

definition high_apic_machine :: "unit machine" where
  "high_apic_machine = quiet_machine\<lparr>rdmsr := \<lambda>r h. (0x1FEE00900, h)\<rparr>"

theorem enable_apic_address_witness:
  "fst (enable_apic high_apic_machine (kernel_start pg_example ())) \<noteq> 0x1FEE00000"
  using enable_apic_address [of high_apic_machine "kernel_start pg_example ()" "0x1FEE00900" "()"]
  by (simp add: high_apic_machine_def)

section \<open>The I/O APIC\<close>

text \<open>
  The I/O APIC has two registers: what is written to the first selects which of its internal registers the second
  gives access to. \<open>view\<close> is its selected register and its internal registers.
\<close>

definition has_ioapic :: "('h, 'e) machine_scheme \<Rightarrow> u64 \<Rightarrow> ('h \<Rightarrow> u32 \<times> (u32 \<Rightarrow> u32)) \<Rightarrow> bool" where
  "has_ioapic io base view \<longleftrightarrow>
     (\<forall>v h. view (mwr32 io base v h) = (v, snd (view h)))
   \<and> (\<forall>v h. view (mwr32 io (base + 0x10) v h) = (fst (view h), (snd (view h))(fst (view h) := v)))"

lemma ioapic_write_view:
  assumes "has_ioapic io base view" and "unat base + 16 < 2 ^ 64"
  shows "\<exists>s'. ioapic_write io \<lparr>ioapic_base = base\<rparr> reg v s = Some s'
    \<and> snd (view (outside s')) = (snd (view (outside s)))(reg := v)"
proof -
  have "checked_add base 0x10 = Some (base + 0x10)"
    using assms(2) by (simp add: checked_add_def)
  then show ?thesis
    using assms(1) by (simp add: ioapic_write_def mmio_write32_def has_ioapic_def)
qed

text \<open>The fields of a redirection entry: vector, mask and destination.\<close>

definition redirection :: "(u32 \<Rightarrow> u32) \<Rightarrow> nat \<Rightarrow> u8 \<times> bool \<times> u8" where
  "redirection rs irq =
     (ucast (rs (of_nat (16 + 2 * irq))), bit (rs (of_nat (16 + 2 * irq))) 16, ucast (drop_bit 24 (rs (of_nat (17 + 2 * irq)))))"

lemma set_redirect_view:
  assumes "has_ioapic io base view" and "unat base + 16 < 2 ^ 64"
  shows "\<exists>s'. set_redirect io \<lparr>ioapic_base = base\<rparr> irq vector apic_id s = Some s'
    \<and> redirection (snd (view (outside s'))) (unat irq) = (vector, False, apic_id)
    \<and> snd (view (outside s')) (of_nat (16 + 2 * unat irq)) AND 0xFFFFFF00 = 0
    \<and> (\<forall>i < 256. i \<noteq> unat irq \<longrightarrow> redirection (snd (view (outside s'))) i = redirection (snd (view (outside s))) i)"
proof -
  let ?lo = "of_nat (16 + 2 * unat irq) :: u32" and ?hi = "of_nat (17 + 2 * unat irq) :: u32"
  have i: "unat irq < 256" using unsigned_less [of irq] by simp
  have lo: "0x10 + ucast irq * 2 = ?lo" and hi: "?lo + 1 = ?hi"
    by (simp_all add: of_nat_unat mult.commute)
  from ioapic_write_view [OF assms, of ?hi "push_bit 24 (ucast apic_id)" s] obtain s1 where s1:
    "ioapic_write io \<lparr>ioapic_base = base\<rparr> ?hi (push_bit 24 (ucast apic_id)) s = Some s1"
    "snd (view (outside s1)) = (snd (view (outside s)))(?hi := push_bit 24 (ucast apic_id))" by blast
  from ioapic_write_view [OF assms, of ?lo "ucast vector" s1] obtain s2 where s2:
    "ioapic_write io \<lparr>ioapic_base = base\<rparr> ?lo (ucast vector) s1 = Some s2"
    "snd (view (outside s2)) = (snd (view (outside s1)))(?lo := ucast vector)" by blast
  have run: "set_redirect io \<lparr>ioapic_base = base\<rparr> irq vector apic_id s = Some s2"
    unfolding set_redirect_def Let_def lo hi s1(1) Option.bind.bind_lunit by (rule s2(1))
  have ne: "of_nat a = (of_nat b :: u32) \<longleftrightarrow> a = b" if "a < 1024" "b < 1024" for a b :: nat
    using that by (simp add: word_unat_eq_iff unat_of_nat)
  have regs: "snd (view (outside s2)) (of_nat k) = (if k = 16 + 2 * unat irq then ucast vector
      else if k = 17 + 2 * unat irq then push_bit 24 (ucast apic_id) else snd (view (outside s)) (of_nat k))" if "k < 1024" for k
    unfolding s2(2) s1(2) using that i by (simp add: ne del: of_nat_add of_nat_mult)
  have "ucast (ucast vector :: u32) = vector" "\<not> bit (ucast vector :: u32) 16"
    "ucast (drop_bit 24 (push_bit 24 (ucast apic_id) :: u32)) = apic_id" "(ucast vector :: u32) AND 0xFFFFFF00 = 0"
    subgoal by (rule bit_word_eqI) (simp add: bit_simps)
    subgoal by (auto simp: bit_simps dest: bit_imp_le_length)
    subgoal by (rule bit_word_eqI) (auto simp: bit_simps)
    subgoal
    proof -
      have m: "(0xFFFFFF00 :: u32) = push_bit 8 (mask 24)" by (simp add: mask_eq_exp_minus_1)
      show ?thesis unfolding m by (rule bit_word_eqI) (auto simp: bit_simps dest: bit_imp_le_length)
    qed
    done
  with regs i run show ?thesis
    by (intro exI [of _ s2]) (simp add: redirection_def del: of_nat_add of_nat_mult)
qed

text \<open>
  \<open>set_redirect\<close> routes a line: the entry of the line then has the vector and the destination asked for, is
  not masked, and has the fixed delivery mode, edge triggered and active high; the entries of all other lines are as before.
\<close>

theorem set_redirect_routes:
  assumes "has_ioapic io base view" and "unat base + 16 < 2 ^ 64"
  shows "\<exists>s'. set_redirect io \<lparr>ioapic_base = base\<rparr> irq vector apic_id s = Some s'
    \<and> redirection (snd (view (outside s'))) (unat irq) = (vector, False, apic_id)
    \<and> snd (view (outside s')) (of_nat (16 + 2 * unat irq)) AND 0xFFFFFF00 = 0
    \<and> (\<forall>i < 256. i \<noteq> unat irq \<longrightarrow> redirection (snd (view (outside s'))) i = redirection (snd (view (outside s))) i)"
  by (rule set_redirect_view [OF assms])

text \<open>A machine with nothing but an I/O APIC, at its address in the direct map.\<close>

definition ioapic_machine :: "(u32 \<times> (u32 \<Rightarrow> u32)) machine" where
  "ioapic_machine =
     \<lparr>inb = \<lambda>p h. (0, h), outb = \<lambda>p v h. h, inl = \<lambda>p h. (0, h), outl = \<lambda>p v h. h,
      rdmsr = \<lambda>r h. (0, h), wrmsr = \<lambda>r v h. h, mrd8 = \<lambda>a h. (0, h), mrd32 = \<lambda>a h. (0, h),
      mwr32 = \<lambda>a v (sel, rs). if a = 0xFFFF8000FEC00000 then (v, rs)
                else if a = 0xFFFF8000FEC00010 then (sel, rs(sel := v)) else (sel, rs),
      mwr64 = \<lambda>a v h. h, heap_alloc = \<lambda>n al h. None, heap_free = \<lambda>a h. h,
      hw_step = \<lambda>h m. (h, m, False)\<rparr>"

lemma ioapic_machine_ok: "has_ioapic ioapic_machine 0xFFFF8000FEC00000 id"
  by (auto simp: has_ioapic_def ioapic_machine_def)

theorem set_redirect_routes_witness:
  "\<exists>s'. set_redirect ioapic_machine \<lparr>ioapic_base = 0xFFFF8000FEC00000\<rparr> 1 33 0 (kernel_start pg_example (0, \<lambda>_. 0x10000)) = Some s'
    \<and> redirection (snd (outside s')) 1 = (33, False, 0) \<and> redirection (snd (outside s')) 2 = (0, True, 0)"
proof -
  have "redirection (\<lambda>_. 0x10000) 2 = (0, True, 0)"
    by (simp add: redirection_def bit_numeral_rec)
  then show ?thesis
    using set_redirect_routes [OF ioapic_machine_ok, of 1 33 0 "kernel_start pg_example (0, \<lambda>_. 0x10000)"] by auto
qed

end
