(* ===== verification/Descriptor_Tables.thy ===== *)
theory Descriptor_Tables
  imports Phys_Memory
begin

text \<open>
  \<^verbatim>\<open>kernel/src/gdt.rs\<close> and \<^verbatim>\<open>kernel/src/idt.rs\<close>: the two tables the processor reads. An entry is encoded by
  the source's \<open>new\<close> and decoded here the way the processor does. The addresses the linker gives the
  stubs are a parameter, \<open>addr\<close>.
\<close>

section \<open>The global descriptor table\<close>

record GdtEntry =
  limit_low :: u16
  base_low :: u16
  base_middle :: u8
  access :: u8
  limit_high_flags :: u8
  base_high :: u8

definition GdtEntry_new :: "u32 \<Rightarrow> u32 \<Rightarrow> u8 \<Rightarrow> u8 \<Rightarrow> GdtEntry" where
  "GdtEntry_new base limit acc flags =
     \<lparr>limit_low = ucast (limit AND 0xFFFF),
      base_low = ucast (base AND 0xFFFF),
      base_middle = ucast (drop_bit 16 base AND 0xFF),
      access = acc,
      limit_high_flags = ucast (drop_bit 16 limit AND 0x0F) OR push_bit 4 (flags AND 0x0F),
      base_high = ucast (drop_bit 24 base AND 0xFF)\<rparr>"

definition GDT :: "GdtEntry list" where
  "GDT = [GdtEntry_new 0 0 0 0, GdtEntry_new 0 0xFFFFF 0x9B 10, GdtEntry_new 0 0xFFFFF 0x93 0]"

text \<open>The bytes of a packed entry, and of the table.\<close>

definition gdt_entry_bytes :: "GdtEntry \<Rightarrow> u8 list" where
  "gdt_entry_bytes e = le_bytes 2 (limit_low e) @ le_bytes 2 (base_low e) @
     [base_middle e, access e, limit_high_flags e, base_high e]"

record table_pointer =
  tp_limit :: u16
  tp_base :: u64

record tables_cpu =
  gdtr :: table_pointer
  idtr :: table_pointer
  seg_cs :: u16
  seg_ds :: u16
  seg_es :: u16
  seg_ss :: u16

text \<open>\<open>lgdt\<close>, the data segments, and \<open>CS\<close> by the far return. \<open>gdt_addr\<close> is the address of the table.\<close>

definition load_gdt :: "u64 \<Rightarrow> 'z tables_cpu_scheme \<Rightarrow> 'z tables_cpu_scheme" where
  "load_gdt gdt_addr c =
     (let c = c\<lparr>gdtr := \<lparr>tp_limit = of_nat (8 * length GDT - 1), tp_base = gdt_addr\<rparr>\<rparr>;
          c = c\<lparr>seg_ds := 0x10, seg_es := 0x10, seg_ss := 0x10\<rparr>
      in c\<lparr>seg_cs := 0x08\<rparr>)"

section \<open>The interrupt descriptor table\<close>

record IdtEntry =
  offset_low :: u16
  selector :: u16
  ist :: u8
  type_attr :: u8
  offset_mid :: u16
  offset_high :: u32
  zero :: u32

definition IdtEntry_missing :: IdtEntry where
  "IdtEntry_missing = \<lparr>offset_low = 0, selector = 0, ist = 0, type_attr = 0, offset_mid = 0, offset_high = 0, zero = 0\<rparr>"

definition IdtEntry_new :: "u64 \<Rightarrow> u16 \<Rightarrow> IdtEntry" where
  "IdtEntry_new handler sel =
     \<lparr>offset_low = ucast handler, selector = sel, ist = 0, type_attr = 0x8E,
      offset_mid = ucast (drop_bit 16 handler), offset_high = ucast (drop_bit 32 handler), zero = 0\<rparr>"

text \<open>The entry points of \<^verbatim>\<open>interrupt.rs\<close>: those of the exceptions, \<open>irq33\<close> to \<open>irq254\<close>, and that of the controller.\<close>

datatype stub =
    divide_error_stub | debug_stub | nmi_stub | breakpoint_stub | double_fault_stub
  | general_protection_fault_stub | page_fault_stub | irq nat | xhci_irq_stub

definition idt_initial :: "IdtEntry list" where
  "idt_initial = replicate 256 IdtEntry_missing"

definition set_gate :: "(stub \<Rightarrow> u64) \<Rightarrow> nat \<times> stub \<Rightarrow> IdtEntry list \<Rightarrow> IdtEntry list" where
  "set_gate addr = (\<lambda>(n, s) t. t[n := IdtEntry_new (addr s) 0x08])"

definition exception_gates :: "(nat \<times> stub) list" where
  "exception_gates = [(0, divide_error_stub), (1, debug_stub), (2, nmi_stub), (3, breakpoint_stub),
     (8, double_fault_stub), (13, general_protection_fault_stub), (14, page_fault_stub)]"

definition irq_gates :: "(nat \<times> stub) list" where
  "irq_gates = map (\<lambda>n. (n, irq n)) [33..<255]"

definition load_idt :: "(stub \<Rightarrow> u64) \<Rightarrow> u64 \<Rightarrow> IdtEntry list \<Rightarrow> 'z tables_cpu_scheme \<Rightarrow> IdtEntry list \<times> 'z tables_cpu_scheme" where
  "load_idt addr idt_addr t c =
     (let t = fold (set_gate addr) exception_gates t;
          t = fold (set_gate addr) irq_gates t;
          t = set_gate addr (44, xhci_irq_stub) t
      in (t, c\<lparr>idtr := \<lparr>tp_limit = of_nat (16 * 256 - 1), tp_base = idt_addr\<rparr>\<rparr>))"

section \<open>What the processor reads\<close>

text \<open>A segment descriptor is one 64-bit word; these are its fields.\<close>

definition desc_base :: "u64 \<Rightarrow> u32" where
  "desc_base d = ucast (drop_bit 16 d AND 0xFFFFFF) OR push_bit 24 (ucast (drop_bit 56 d AND 0xFF))"

definition desc_limit :: "u64 \<Rightarrow> u32" where
  "desc_limit d = ucast (d AND 0xFFFF) OR push_bit 16 (ucast (drop_bit 48 d AND 0xF))"

definition desc_access :: "u64 \<Rightarrow> u8" where
  "desc_access d = ucast (drop_bit 40 d)"

definition desc_flags :: "u64 \<Rightarrow> u8" where
  "desc_flags d = ucast (drop_bit 52 d AND 0xF)"

definition desc_of :: "GdtEntry \<Rightarrow> u64" where
  "desc_of e = of_le_bytes (gdt_entry_bytes e)"

text \<open>A gate: the address of the handler and the code selector, when the gate is present.\<close>

definition gate_offset :: "IdtEntry \<Rightarrow> u64" where
  "gate_offset e = ucast (offset_low e) OR push_bit 16 (ucast (offset_mid e)) OR push_bit 32 (ucast (offset_high e))"

definition gate :: "IdtEntry list \<Rightarrow> nat \<Rightarrow> (u64 \<times> u16) option" where
  "gate t n = (if bit (type_attr (t ! n)) 7 then Some (gate_offset (t ! n), selector (t ! n)) else None)"

lemma of_le_bytes_append:
  "of_le_bytes (xs @ ys) = (of_le_bytes xs OR push_bit (8 * length xs) (of_le_bytes ys) :: 'a::len word)"
proof (induction xs)
  case (Cons x xs)
  then show ?case by (intro bit_word_eqI) (auto simp: bit_simps algebra_simps)
qed simp

lemma of_le_bytes_word16: "of_le_bytes (le_bytes 2 (w :: u16)) = (ucast w :: u64)"
  by (rule bit_word_eqI) (auto simp: numeral_2_eq_2 bit_simps dest: bit_imp_le_length)

lemma bit_desc:
  "bit (desc_of e) n \<longleftrightarrow> n < 64 \<and>
     (if n < 16 then bit (limit_low e) n else if n < 32 then bit (base_low e) (n - 16)
      else if n < 40 then bit (base_middle e) (n - 32) else if n < 48 then bit (access e) (n - 40)
      else if n < 56 then bit (limit_high_flags e) (n - 48) else bit (base_high e) (n - 56))"
proof -
  have d: "desc_of e = ucast (limit_low e) OR push_bit 16 (ucast (base_low e)) OR push_bit 32 (ucast (base_middle e))
      OR push_bit 40 (ucast (access e)) OR push_bit 48 (ucast (limit_high_flags e)) OR push_bit 56 (ucast (base_high e))"
    unfolding desc_of_def gdt_entry_bytes_def of_le_bytes_append of_le_bytes_word16
    by (rule bit_word_eqI) (auto simp: bit_simps)
  have len: "bit (w :: u8) k \<Longrightarrow> k < 8" "bit (v :: u16) k \<Longrightarrow> k < 16" for w v k
    using bit_imp_le_length [of w k] bit_imp_le_length [of v k] by simp_all
  show ?thesis
    unfolding d by (auto simp: bit_simps dest: len)
qed

section \<open>Encoding and decoding\<close>

text \<open>
  The processor decodes a descriptor built by \<open>GdtEntry::new\<close> to the base and the access byte it was
  given, the low 20 bits of the limit and the low 4 bits of the flags: the split of the base and the limit over
  the fields of the entry loses nothing else.
\<close>

theorem gdt_entry_decodes:
  "let d = desc_of (GdtEntry_new base limit acc flags) in
     desc_base d = base \<and> desc_limit d = take_bit 20 limit \<and> desc_access d = acc \<and> desc_flags d = take_bit 4 flags"
proof -
  have m: "(0xFFFF :: u32) = mask 16" "(0xFF :: u32) = mask 8" "(0x0F :: u32) = mask 4" "(0x0F :: u8) = mask 4"
    "(0xFFFFFF :: u64) = mask 24" "(0xFF :: u64) = mask 8" "(0xFFFF :: u64) = mask 16" "(0xF :: u64) = mask 4"
    by (simp_all add: mask_eq_exp_minus_1)
  let ?e = "GdtEntry_new base limit acc flags"
  have "desc_base (desc_of ?e) = base"
  proof (rule bit_word_eqI)
    fix n assume "n < LENGTH(32)"
    then show "bit (desc_base (desc_of ?e)) n = bit base n"
      by (cases "n < 16"; cases "n < 24") (auto simp: desc_base_def bit_simps bit_desc GdtEntry_new_def m)
  qed
  moreover have "desc_limit (desc_of ?e) = take_bit 20 limit"
  proof (rule bit_word_eqI)
    fix n assume "n < LENGTH(32)"
    then show "bit (desc_limit (desc_of ?e)) n = bit (take_bit 20 limit) n"
      by (cases "n < 16"; cases "n < 20") (auto simp: desc_limit_def bit_simps bit_desc GdtEntry_new_def m)
  qed
  moreover have "desc_access (desc_of ?e) = acc"
    by (rule bit_word_eqI) (simp add: desc_access_def bit_simps bit_desc GdtEntry_new_def m)
  moreover have "desc_flags (desc_of ?e) = take_bit 4 flags"
    by (rule bit_word_eqI) (auto simp: desc_flags_def bit_simps bit_desc GdtEntry_new_def m)
  ultimately show ?thesis by (simp add: Let_def)
qed

text \<open>The two segments the kernel runs in: long-mode code and writable data, both present and of ring 0.\<close>

lemma kernel_segments:
  "desc_access (desc_of (GDT ! 1)) = 0x9B \<and> desc_flags (desc_of (GDT ! 1)) = 0xA \<and> desc_limit (desc_of (GDT ! 1)) = 0xFFFFF
    \<and> desc_access (desc_of (GDT ! 2)) = 0x93"
  by code_simp

lemma gate_offset_new: "gate_offset (IdtEntry_new handler sel) = handler"
proof (rule bit_word_eqI)
  fix n assume "n < LENGTH(64)"
  then show "bit (gate_offset (IdtEntry_new handler sel)) n = bit handler n"
    by (cases "n < 16"; cases "n < 32") (auto simp: gate_offset_def IdtEntry_new_def bit_simps)
qed

lemma gate_new: "t ! n = IdtEntry_new h sel \<Longrightarrow> gate t n = Some (h, sel)"
  by (simp add: gate_def gate_offset_new) (simp add: IdtEntry_new_def bit_numeral_rec)

lemma gate_missing: "t ! n = IdtEntry_missing \<Longrightarrow> gate t n = None"
  by (simp add: gate_def IdtEntry_missing_def)

lemma length_set_gates: "length (fold (set_gate addr) gs t) = length t"
  by (induction gs arbitrary: t) (auto simp: set_gate_def)

lemma set_gates_nth:
  "n < length t \<Longrightarrow> fold (set_gate addr) (map (\<lambda>k. (k, f k)) ks) t ! n = (if n \<in> set ks then IdtEntry_new (addr (f n)) 0x08 else t ! n)"
proof (induction ks arbitrary: t)
  case (Cons k ks)
  then show ?case
    by (simp add: set_gate_def nth_list_update)
qed simp

text \<open>The stub that serves a vector.\<close>

definition stub_of :: "nat \<Rightarrow> stub option" where
  "stub_of n =
     (if n = 0 then Some divide_error_stub else if n = 1 then Some debug_stub else if n = 2 then Some nmi_stub
      else if n = 3 then Some breakpoint_stub else if n = 8 then Some double_fault_stub
      else if n = 13 then Some general_protection_fault_stub else if n = 14 then Some page_fault_stub
      else if n = 44 then Some xhci_irq_stub
      else if 33 \<le> n \<and> n < 255 then Some (irq n) else None)"

text \<open>
  Property C33. After \<open>load_idt\<close> the processor finds for each vector the stub meant for it, in the kernel's code segment:
  the seven exceptions, 44 for the controller, the generic stub of the vector for 33 to 254, and no gate at all for
  every other vector (among them 6, 32 and 255).
\<close>

theorem load_idt_gates:
  "n < 256 \<Longrightarrow> gate (fst (load_idt addr a idt_initial c)) n = map_option (\<lambda>s. (addr s, 0x08)) (stub_of n)"
proof -
  assume n: "n < 256"
  let ?f = "\<lambda>k. the (stub_of k)" and ?ks = "[0, 1, 2, 3, 8, 13, 14] :: nat list"
  let ?t0 = "fold (set_gate addr) exception_gates idt_initial"
  let ?t1 = "fold (set_gate addr) irq_gates ?t0"
  have ex: "exception_gates = map (\<lambda>k. (k, ?f k)) ?ks"
    by (simp add: exception_gates_def stub_of_def)
  have t0: "?t0 ! n = (if n \<in> set ?ks then IdtEntry_new (addr (?f n)) 0x08 else IdtEntry_missing)"
    unfolding ex using n by (subst set_gates_nth) (simp_all add: idt_initial_def)
  have len: "length ?t1 = 256" by (simp add: length_set_gates idt_initial_def)
  have t1: "?t1 ! n = (if n \<in> set [33..<255] then IdtEntry_new (addr (irq n)) 0x08 else ?t0 ! n)"
    unfolding irq_gates_def using n by (subst set_gates_nth) (simp_all only: length_set_gates idt_initial_def length_replicate)
  have "fst (load_idt addr a idt_initial c) ! n =
      (if n = 44 then IdtEntry_new (addr xhci_irq_stub) 0x08 else ?t1 ! n)"
    using n len by (simp add: load_idt_def set_gate_def nth_list_update)
  also have "\<dots> = (case stub_of n of Some s \<Rightarrow> IdtEntry_new (addr s) 0x08 | None \<Rightarrow> IdtEntry_missing)"
    unfolding t1 t0 set_upt atLeastLessThan_iff by (auto simp: stub_of_def)
  finally show ?thesis
    by (cases "stub_of n") (simp_all add: gate_missing gate_new)
qed

theorem load_idt_gates_witness:
  "gate (fst (load_idt (\<lambda>_. 0x1000) 0 idt_initial \<lparr>gdtr = \<lparr>tp_limit = 0, tp_base = 0\<rparr>, idtr = \<lparr>tp_limit = 0, tp_base = 0\<rparr>,
     seg_cs = 0, seg_ds = 0, seg_es = 0, seg_ss = 0\<rparr>)) 44 = Some (0x1000, 0x08)"
  by (subst load_idt_gates) (simp_all add: stub_of_def)

end
