(* ===== verification/Interrupt_Stubs.thy ===== *)
theory Interrupt_Stubs
  imports Phys_Memory
begin

text \<open>
  The entry code of \<^verbatim>\<open>kernel/src/interrupt.rs\<close>: the stub of a vector pushes what the processor did not, \<open>stub_common\<close>
  saves the general-purpose registers, calls the Rust handler with a pointer to them and undoes it all before
  \<open>iretq\<close>. The instructions are those of the two \<^verbatim>\<open>naked_asm!\<close> blocks; a stack slot is a 64-bit cell. The handler is
  compiled code: any change of registers and memory that returns with the stack pointer and its caller's frame as they
  were.
\<close>

datatype reg = RAX | RBX | RCX | RDX | RSI | RDI | RBP | R8 | R9 | R10 | R11 | R12 | R13 | R14 | R15

record cpu =
  regs :: "reg \<Rightarrow> u64"
  rsp :: u64
  rip :: u64
  code_segment :: u64
  cpu_flags :: u64
  stack_segment :: u64
  stack :: mem

datatype instr = PushImm u64 | Push reg | Pop reg | MovFromRsp reg | CallHandler | AddRsp u64 | Iretq

definition push_word :: "u64 \<Rightarrow> cpu \<Rightarrow> cpu" where
  "push_word v c = c\<lparr>rsp := rsp c - 8, stack := wr64 (stack c) (rsp c - 8) v\<rparr>"

definition pop_word :: "cpu \<Rightarrow> u64 \<times> cpu" where
  "pop_word c = (rd64 (stack c) (rsp c), c\<lparr>rsp := rsp c + 8\<rparr>)"

fun exec :: "(cpu \<Rightarrow> cpu option) \<Rightarrow> instr \<Rightarrow> cpu \<Rightarrow> cpu option" where
  "exec handler (PushImm v) c = Some (push_word v c)"
| "exec handler (Push r) c = Some (push_word (regs c r) c)"
| "exec handler (Pop r) c = (let (v, c) = pop_word c in Some (c\<lparr>regs := (regs c)(r := v)\<rparr>))"
| "exec handler (MovFromRsp r) c = Some (c\<lparr>regs := (regs c)(r := rsp c)\<rparr>)"
| "exec handler CallHandler c = handler c"
| "exec handler (AddRsp n) c = Some (c\<lparr>rsp := rsp c + n\<rparr>)"
| "exec handler Iretq c =
     (let (ip, c) = pop_word c; (cs, c) = pop_word c; (fl, c) = pop_word c; (sp, c) = pop_word c; (ss, c) = pop_word c
      in Some (c\<lparr>rip := ip, code_segment := cs, cpu_flags := fl, rsp := sp, stack_segment := ss\<rparr>))"

fun exec_all :: "(cpu \<Rightarrow> cpu option) \<Rightarrow> instr list \<Rightarrow> cpu \<Rightarrow> cpu option" where
  "exec_all handler [] c = Some c"
| "exec_all handler (i # is) c = do { c \<leftarrow> exec handler i c; exec_all handler is c }"

definition saved_regs :: "reg list" where
  "saved_regs = [RAX, RBX, RCX, RDX, RSI, RDI, RBP, R8, R9, R10, R11, R12, R13, R14, R15]"

definition stub_common :: "instr list" where
  "stub_common =
     [Push RAX, Push RBX, Push RCX, Push RDX, Push RSI, Push RDI, Push RBP, Push R8, Push R9, Push R10, Push R11,
      Push R12, Push R13, Push R14, Push R15,
      MovFromRsp RDI, CallHandler,
      Pop R15, Pop R14, Pop R13, Pop R12, Pop R11, Pop R10, Pop R9, Pop R8, Pop RBP, Pop RDI, Pop RSI, Pop RDX,
      Pop RCX, Pop RBX, Pop RAX,
      AddRsp 16, Iretq]"

text \<open>The two forms of \<^verbatim>\<open>interrupt_stub!\<close>.\<close>

definition stub_no_error_code :: "u64 \<Rightarrow> instr list" where
  "stub_no_error_code vector = [PushImm 0, PushImm vector] @ stub_common"

definition stub_has_error_code :: "u64 \<Rightarrow> instr list" where
  "stub_has_error_code vector = [PushImm vector] @ stub_common"

text \<open>The layout \<open>#[repr(C)] struct InterruptFrame\<close> with its \<open>InterruptStackFrame\<close>, read at an address.\<close>

record InterruptStackFrame =
  sf_instruction_pointer :: u64
  sf_code_segment :: u64
  sf_cpu_flags :: u64
  sf_stack_pointer :: u64
  sf_stack_segment :: u64

record InterruptFrame =
  frame_regs :: "reg \<Rightarrow> u64"
  frame_vector :: u64
  frame_error_code :: u64
  stack_frame :: InterruptStackFrame

definition frame_fields :: "reg list" where
  "frame_fields = [R15, R14, R13, R12, R11, R10, R9, R8, RBP, RDI, RSI, RDX, RCX, RBX, RAX]"

text \<open>The position of a register among the fields.\<close>

fun position :: "'a \<Rightarrow> 'a list \<Rightarrow> nat" where
  "position x [] = 0"
| "position x (y # ys) = (if x = y then 0 else Suc (position x ys))"

definition read_frame :: "mem \<Rightarrow> u64 \<Rightarrow> InterruptFrame" where
  "read_frame m a =
     \<lparr>frame_regs = \<lambda>r. rd64 m (a + 8 * of_nat (position r frame_fields)),
      frame_vector = rd64 m (a + 120), frame_error_code = rd64 m (a + 128),
      stack_frame =
        \<lparr>sf_instruction_pointer = rd64 m (a + 136), sf_code_segment = rd64 m (a + 144),
         sf_cpu_flags = rd64 m (a + 152), sf_stack_pointer = rd64 m (a + 160), sf_stack_segment = rd64 m (a + 168)\<rparr>\<rparr>"

section \<open>The processor enters the stub\<close>

text \<open>
  Delivery of an interrupt in long mode without a change of stack: the stack pointer is aligned to 16 bytes, then
  \<open>SS\<close>, \<open>RSP\<close>, \<open>RFLAGS\<close>, \<open>CS\<close> and \<open>RIP\<close> are pushed, and the error code by the exceptions that have one. What the processor loads
  into \<open>RIP\<close>, \<open>CS\<close> and \<open>RFLAGS\<close> then (\<open>entry\<close>) is of no concern to the stub.
\<close>

definition deliver :: "u64 \<times> u64 \<times> u64 \<Rightarrow> u64 option \<Rightarrow> cpu \<Rightarrow> cpu" where
  "deliver entry err c =
     (let (ip, cs, fl) = entry;
          c' = push_word (rip c) (push_word (code_segment c) (push_word (cpu_flags c)
                 (push_word (rsp c) (push_word (stack_segment c) (c\<lparr>rsp := rsp c AND NOT (mask 4)\<rparr>)))));
          c' = (case err of None \<Rightarrow> c' | Some e \<Rightarrow> push_word e c')
      in c'\<lparr>rip := ip, code_segment := cs, cpu_flags := fl\<rparr>)"

definition stub_code :: "u64 option \<Rightarrow> u64 \<Rightarrow> instr list" where
  "stub_code err vector = (case err of None \<Rightarrow> stub_no_error_code vector | Some _ \<Rightarrow> stub_has_error_code vector)"

text \<open>
  The handler keeps to the calling convention: it is entered with the stack pointer aligned to 16 bytes, and returns with
  it unchanged and the 176 bytes above it, its caller's, as they were.
\<close>

definition keeps_frame :: "(cpu \<Rightarrow> cpu option) \<Rightarrow> bool" where
  "keeps_frame handler \<longleftrightarrow> (\<forall>c c'. handler c = Some c' \<longrightarrow>
     rsp c' = rsp c \<and> (\<forall>i < 22. rd64 (stack c') (rsp c + 8 * of_nat i) = rd64 (stack c) (rsp c + 8 * of_nat i)))"

section \<open>Runs of pushes and pops\<close>

abbreviation pushes :: "u64 list \<Rightarrow> cpu \<Rightarrow> cpu" where
  "pushes vs c \<equiv> fold push_word vs c"

lemma push_word_fields [simp]:
  "rsp (push_word v c) = rsp c - 8" "stack (push_word v c) = wr64 (stack c) (rsp c - 8) v"
  "regs (push_word v c) = regs c" "rip (push_word v c) = rip c" "code_segment (push_word v c) = code_segment c"
  "cpu_flags (push_word v c) = cpu_flags c" "stack_segment (push_word v c) = stack_segment c"
  by (simp_all add: push_word_def)

lemma pushes_fields [simp]:
  "rsp (pushes vs c) = rsp c - 8 * of_nat (length vs)" "regs (pushes vs c) = regs c" "rip (pushes vs c) = rip c"
  "code_segment (pushes vs c) = code_segment c" "cpu_flags (pushes vs c) = cpu_flags c"
  "stack_segment (pushes vs c) = stack_segment c"
  by (induction vs rule: rev_induct) (simp_all add: algebra_simps)

lemma slots_disj:
  assumes "i < n" "n < 2 ^ 60"
  shows "disj (a - 8 * of_nat (Suc n)) 8 (a - 8 * of_nat (Suc i) :: u64) 8"
proof -
  have "a - 8 * of_nat (Suc n) + of_nat (8 * (n - i)) = a - 8 * of_nat (Suc i)"
    using assms(1) by (simp add: of_nat_diff algebra_simps)
  with offsets_disj [of 0 8 "8 * (n - i)" 8 "a - 8 * of_nat (Suc n)"] assms show ?thesis
    by (simp del: of_nat_Suc of_nat_mult)
qed

lemma pushes_read:
  "i < length vs \<Longrightarrow> length vs < 2 ^ 60 \<Longrightarrow> rd64 (stack (pushes vs c)) (rsp c - 8 * of_nat (Suc i)) = vs ! i"
proof (induction vs rule: rev_induct)
  case (snoc v vs)
  have top: "rsp c - 8 * of_nat (length vs) - 8 = rsp c - 8 * of_nat (Suc (length vs))" by (simp add: algebra_simps)
  show ?case
  proof (cases "i = length vs")
    case True
    then show ?thesis by (simp add: top rd64_wr64_same del: of_nat_Suc)
  next
    case False
    then have i: "i < length vs" using snoc.prems by simp
    have "disj (rsp c - 8 * of_nat (Suc (length vs))) 8 (rsp c - 8 * of_nat (Suc i)) 8"
      using i snoc.prems by (intro slots_disj) auto
    with i snoc show ?thesis by (simp add: top c64.rd_wr_sep nth_append del: of_nat_Suc)
  qed
qed simp

text \<open>The same, counted from the top of the stack.\<close>

lemma pushes_slot:
  assumes "i < length vs" "length vs < 2 ^ 60"
  shows "rd64 (stack (pushes vs c)) (rsp (pushes vs c) + 8 * of_nat i) = rev vs ! i"
proof -
  have "rsp c - 8 * of_nat (length vs) + 8 * of_nat i = rsp c - 8 * of_nat (Suc (length vs - Suc i))"
    using assms(1) by (simp add: of_nat_diff algebra_simps)
  with pushes_read [of "length vs - Suc i" vs c] assms show ?thesis
    by (simp only: pushes_fields rev_nth)
qed

lemma exec_pushes: "exec_all h (map Push rs @ is) c = exec_all h is (pushes (map (regs c) rs) c)"
  by (induction rs arbitrary: c) (simp_all add: push_word_def)

lemma exec_pops:
  "distinct rs \<Longrightarrow> exec_all h (map Pop rs @ is) c =
     exec_all h is (c\<lparr>regs := \<lambda>r. if r \<in> set rs then rd64 (stack c) (rsp c + 8 * of_nat (position r rs)) else regs c r,
                      rsp := rsp c + 8 * of_nat (length rs)\<rparr>)"
proof (induction rs arbitrary: c)
  case (Cons q rs)
  let ?c = "c\<lparr>rsp := rsp c + 8, regs := (regs c)(q := rd64 (stack c) (rsp c))\<rparr>"
  have "exec_all h (map Pop (q # rs) @ is) c = exec_all h (map Pop rs @ is) ?c"
    by (simp add: pop_word_def)
  also have "\<dots> = exec_all h is (?c\<lparr>regs := \<lambda>r. if r \<in> set rs then rd64 (stack ?c) (rsp ?c + 8 * of_nat (position r rs)) else regs ?c r,
                      rsp := rsp ?c + 8 * of_nat (length rs)\<rparr>)"
    using Cons by simp
  also have "(\<lambda>r. if r \<in> set rs then rd64 (stack ?c) (rsp ?c + 8 * of_nat (position r rs)) else regs ?c r)
      = (\<lambda>r. if r \<in> set (q # rs) then rd64 (stack c) (rsp c + 8 * of_nat (position r (q # rs))) else regs c r)"
    using Cons.prems by (auto simp: fun_eq_iff algebra_simps)
  finally show ?case by (simp add: algebra_simps)
qed simp

lemma all_saved: "r \<in> set frame_fields"
  by (cases r) (simp_all add: frame_fields_def)

lemma fields_are_saved: "frame_fields = rev saved_regs"
  by (simp add: frame_fields_def saved_regs_def)

lemma stub_common_runs:
  "stub_common = map Push saved_regs @ [MovFromRsp RDI, CallHandler] @ map Pop frame_fields @ [AddRsp 16, Iretq]"
  by (simp add: stub_common_def saved_regs_def frame_fields_def)

section \<open>The stub is transparent\<close>

text \<open>The stack pointer at the call of the handler, and the words that are above it then.\<close>

definition frame_base :: "cpu \<Rightarrow> u64" where
  "frame_base c = (rsp c AND NOT (mask 4)) - 176"

definition frame_words :: "u64 option \<Rightarrow> u64 \<Rightarrow> cpu \<Rightarrow> u64 list" where
  "frame_words err vector c =
     [stack_segment c, rsp c, cpu_flags c, code_segment c, rip c, (case err of None \<Rightarrow> 0 | Some e \<Rightarrow> e), vector]
     @ map (regs c) saved_regs"

definition at_call :: "u64 \<times> u64 \<times> u64 \<Rightarrow> u64 option \<Rightarrow> u64 \<Rightarrow> cpu \<Rightarrow> cpu" where
  "at_call entry err vector c =
     (let (ip, cs, fl) = entry;
          c' = pushes (frame_words err vector c) (c\<lparr>rsp := rsp c AND NOT (mask 4)\<rparr>)
      in c'\<lparr>rip := ip, code_segment := cs, cpu_flags := fl, regs := (regs c)(RDI := frame_base c)\<rparr>)"

lemma push_word_entry:
  "push_word v (c\<lparr>rip := ip, code_segment := cs, cpu_flags := fl\<rparr>) = (push_word v c)\<lparr>rip := ip, code_segment := cs, cpu_flags := fl\<rparr>"
  by (simp add: push_word_def)

lemma pushes_entry:
  "pushes vs (c\<lparr>rip := ip, code_segment := cs, cpu_flags := fl\<rparr>) = (pushes vs c)\<lparr>rip := ip, code_segment := cs, cpu_flags := fl\<rparr>"
  by (induction vs arbitrary: c) (simp_all add: push_word_entry)

lemma length_frame_words [simp]: "length (frame_words err vector c) = 22"
  by (simp add: frame_words_def saved_regs_def)

lemma run_to_call:
  "exec_all h (stub_code err vector @ is) (deliver entry err c) = exec_all h (CallHandler # map Pop frame_fields @ [AddRsp 16, Iretq] @ is) (at_call entry err vector c)"
proof -
  obtain ip cs fl where e: "entry = (ip, cs, fl)" by (cases entry)
  let ?c0 = "c\<lparr>rsp := rsp c AND NOT (mask 4)\<rparr>"
  let ?hw = "[stack_segment c, rsp c, cpu_flags c, code_segment c, rip c] @ (case err of None \<Rightarrow> [] | Some e \<Rightarrow> [e])"
  let ?sw = "(case err of None \<Rightarrow> [0] | Some e \<Rightarrow> []) @ [vector]"
  let ?upd = "\<lambda>c. c\<lparr>rip := ip, code_segment := cs, cpu_flags := fl\<rparr>"
  have d: "deliver entry err c = ?upd (pushes ?hw ?c0)"
    by (cases err) (simp_all add: deliver_def e)
  have imm: "exec_all h (map PushImm vs @ is) c' = exec_all h is (pushes vs c')" for vs "is" c'
    by (induction vs arbitrary: c') simp_all
  have "stub_code err vector = map PushImm ?sw @ stub_common"
    by (cases err) (simp_all add: stub_code_def stub_no_error_code_def stub_has_error_code_def)
  then have "exec_all h (stub_code err vector @ is) (deliver entry err c) = exec_all h (stub_common @ is) (?upd (pushes (?hw @ ?sw) ?c0))"
    by (simp add: d imm pushes_entry push_word_entry del: map_append)
  also have "\<dots> = exec_all h ([MovFromRsp RDI, CallHandler] @ map Pop frame_fields @ [AddRsp 16, Iretq] @ is)
      (?upd (pushes (?hw @ ?sw @ map (regs c) saved_regs) ?c0))"
    by (simp add: stub_common_runs exec_pushes pushes_entry)
  also have "?hw @ ?sw @ map (regs c) saved_regs = frame_words err vector c"
    by (cases err) (simp_all add: frame_words_def)
  finally show ?thesis
    by (simp add: at_call_def e frame_base_def)
qed

lemma frame_slot:
  assumes "i < 22"
  shows "rd64 (stack (at_call entry err vector c)) (frame_base c + 8 * of_nat i) = rev (frame_words err vector c) ! i"
proof -
  have "rsp (pushes (frame_words err vector c) (c\<lparr>rsp := rsp c AND NOT (mask 4)\<rparr>)) = frame_base c"
    by (simp add: frame_base_def)
  with pushes_slot [of i "frame_words err vector c" "c\<lparr>rsp := rsp c AND NOT (mask 4)\<rparr>"] assms show ?thesis
    by (simp only: length_frame_words) (simp add: at_call_def split: prod.splits)
qed

lemma position_nth: "x \<in> set xs \<Longrightarrow> position x xs < length xs \<and> xs ! position x xs = x"
  by (induction xs) auto

lemma frame_reg_slot:
  "rd64 (stack (at_call entry err vector c)) (frame_base c + 8 * of_nat (position r frame_fields)) = regs c r"
proof -
  have p: "position r frame_fields < 15" "frame_fields ! position r frame_fields = r"
    using position_nth [OF all_saved [of r]] by (simp_all add: frame_fields_def)
  have "rev (frame_words err vector c) = map (regs c) frame_fields
      @ rev [stack_segment c, rsp c, cpu_flags c, code_segment c, rip c, (case err of None \<Rightarrow> 0 | Some e \<Rightarrow> e), vector]"
    by (simp add: frame_words_def fields_are_saved rev_map)
  moreover have "length frame_fields = 15" by (simp add: frame_fields_def)
  ultimately have "rev (frame_words err vector c) ! position r frame_fields = regs c r"
    using p by (simp add: nth_append)
  with p(1) show ?thesis using frame_slot [of "position r frame_fields"] by simp
qed

text \<open>
  Property C32. The handler receives what the structure \<open>InterruptFrame\<close> promises: for a vector with or without an error
  code, the pushes of the processor, of the stub and of \<open>stub_common\<close> lie in the order of its fields. The
  handler is called with the pointer in \<open>RDI\<close> and a stack pointer aligned to 16 bytes, as the calling convention asks;
  the frame holds every register, the vector, the error code (0 where there is none) and the interrupted
  \<open>RIP\<close>, \<open>CS\<close>, \<open>RFLAGS\<close>, \<open>RSP\<close> and \<open>SS\<close>.
\<close>

theorem handler_frame:
  "exec_all h (stub_code err vector) (deliver entry err c)
     = do { c' \<leftarrow> h (at_call entry err vector c); exec_all h (map Pop frame_fields @ [AddRsp 16, Iretq]) c' }
   \<and> regs (at_call entry err vector c) RDI = rsp (at_call entry err vector c) \<and> aligned 4 (rsp (at_call entry err vector c))
   \<and> read_frame (stack (at_call entry err vector c)) (regs (at_call entry err vector c) RDI) =
       \<lparr>frame_regs = regs c, frame_vector = vector, frame_error_code = (case err of None \<Rightarrow> 0 | Some e \<Rightarrow> e),
        stack_frame = \<lparr>sf_instruction_pointer = rip c, sf_code_segment = code_segment c, sf_cpu_flags = cpu_flags c,
          sf_stack_pointer = rsp c, sf_stack_segment = stack_segment c\<rparr>\<rparr>"
proof (intro conjI)
  let ?a = "at_call entry err vector c"
  show "exec_all h (stub_code err vector) (deliver entry err c)
     = do { c' \<leftarrow> h ?a; exec_all h (map Pop frame_fields @ [AddRsp 16, Iretq]) c' }"
    using run_to_call [of h err vector "[]" entry c] by simp
  have sp: "rsp ?a = frame_base c" and rdi: "regs ?a RDI = frame_base c"
    by (simp_all add: at_call_def frame_base_def split: prod.splits)
  then show "regs ?a RDI = rsp ?a" by simp
  have "frame_base c AND mask 4 = (rsp c AND NOT (mask 4)) - 176 AND mask 4" by (simp add: frame_base_def)
  show "aligned 4 (rsp ?a)"
  proof -
    have "16 dvd unat (rsp c AND NOT (mask 4))"
      using aligned_and_not_mask [of 4 "rsp c"] by (simp add: aligned_iff_dvd)
    then have "16 dvd unat (frame_base c)"
      by (simp add: frame_base_def unat_sub_if' dvd_diff_nat)
    then show ?thesis by (simp add: sp aligned_iff_dvd)
  qed
  have slot: "rd64 (stack ?a) (frame_base c + 8 * of_nat i) = rev (frame_words err vector c) ! i" if "i < 22" for i
    by (rule frame_slot [OF that])
  have w: "rev (frame_words err vector c) = map (regs c) frame_fields
      @ [vector, case err of None \<Rightarrow> 0 | Some e \<Rightarrow> e, rip c, code_segment c, cpu_flags c, rsp c, stack_segment c]"
    by (simp add: frame_words_def fields_are_saved rev_map)
  have "rd64 (stack ?a) (frame_base c + 120) = vector"
    "rd64 (stack ?a) (frame_base c + 128) = (case err of None \<Rightarrow> 0 | Some e \<Rightarrow> e)"
    "rd64 (stack ?a) (frame_base c + 136) = rip c" "rd64 (stack ?a) (frame_base c + 144) = code_segment c"
    "rd64 (stack ?a) (frame_base c + 152) = cpu_flags c" "rd64 (stack ?a) (frame_base c + 160) = rsp c"
    "rd64 (stack ?a) (frame_base c + 168) = stack_segment c"
    using slot [of 15] slot [of 16] slot [of 17] slot [of 18] slot [of 19] slot [of 20] slot [of 21]
    by (simp_all add: w frame_fields_def)
  then show "read_frame (stack ?a) (regs ?a RDI) =
       \<lparr>frame_regs = regs c, frame_vector = vector, frame_error_code = (case err of None \<Rightarrow> 0 | Some e \<Rightarrow> e),
        stack_frame = \<lparr>sf_instruction_pointer = rip c, sf_code_segment = code_segment c, sf_cpu_flags = cpu_flags c,
          sf_stack_pointer = rsp c, sf_stack_segment = stack_segment c\<rparr>\<rparr>"
    by (simp add: read_frame_def rdi frame_reg_slot)
qed

text \<open>
  Property C10. An interrupt is transparent to the code it interrupts: when the handler keeps to the calling
  convention, the stub returns exactly when the handler does, with every general-purpose register, \<open>RIP\<close>, \<open>CS\<close>,
  \<open>RFLAGS\<close>, \<open>RSP\<close> and \<open>SS\<close> as they were; only memory may have changed.
\<close>

theorem stub_transparent:
  assumes "keeps_frame h"
  shows "exec_all h (stub_code err vector) (deliver entry err c)
    = map_option (\<lambda>c'. c\<lparr>stack := stack c'\<rparr>) (h (at_call entry err vector c))"
proof (cases "h (at_call entry err vector c)")
  case None
  then show ?thesis using run_to_call [of h err vector "[]" entry c] by simp
next
  case (Some c')
  let ?a = "at_call entry err vector c"
  have sp: "rsp ?a = frame_base c" by (simp add: at_call_def frame_base_def split: prod.splits)
  from assms Some have "rsp c' = rsp ?a
      \<and> (\<forall>i < 22. rd64 (stack c') (rsp ?a + 8 * of_nat i) = rd64 (stack ?a) (rsp ?a + 8 * of_nat i))"
    unfolding keeps_frame_def by blast
  then have keep: "rsp c' = frame_base c"
    "\<And>i. i < 22 \<Longrightarrow> rd64 (stack c') (frame_base c + 8 * of_nat i) = rd64 (stack ?a) (frame_base c + 8 * of_nat i)"
    by (simp_all add: sp)
  have slot: "rd64 (stack c') (frame_base c + 8 * of_nat i) = rev (frame_words err vector c) ! i" if "i < 22" for i
    using keep(2) [OF that] frame_slot [OF that] by simp
  have w: "rev (frame_words err vector c) = map (regs c) frame_fields
      @ [vector, case err of None \<Rightarrow> 0 | Some e \<Rightarrow> e, rip c, code_segment c, cpu_flags c, rsp c, stack_segment c]"
    by (simp add: frame_words_def fields_are_saved rev_map)
  have top: "rd64 (stack c') (frame_base c + 136) = rip c" "rd64 (stack c') (frame_base c + 144) = code_segment c"
    "rd64 (stack c') (frame_base c + 152) = cpu_flags c" "rd64 (stack c') (frame_base c + 160) = rsp c"
    "rd64 (stack c') (frame_base c + 168) = stack_segment c"
    using slot [of 17] slot [of 18] slot [of 19] slot [of 20] slot [of 21]
    by (simp_all add: w frame_fields_def)
  have r: "(\<lambda>r. if r \<in> set frame_fields then rd64 (stack c') (rsp c' + 8 * of_nat (position r frame_fields)) else regs c' r) = regs c"
  proof
    fix r
    have "position r frame_fields < 22"
      using position_nth [OF all_saved [of r]] by (simp add: frame_fields_def)
    then show "(if r \<in> set frame_fields then rd64 (stack c') (rsp c' + 8 * of_nat (position r frame_fields)) else regs c' r) = regs c r"
      using keep(1) keep(2) frame_reg_slot by (simp add: all_saved)
  qed
  have dist: "distinct frame_fields" and len: "length frame_fields = 15" by (simp_all add: frame_fields_def)
  have "exec_all h (stub_code err vector) (deliver entry err c)
      = exec_all h [AddRsp 16, Iretq] (c'\<lparr>regs := regs c, rsp := rsp c' + 8 * of_nat 15\<rparr>)"
    using run_to_call [of h err vector "[]" entry c] Some exec_pops [OF dist, of h "[AddRsp 16, Iretq]" c'] by (simp add: r len)
  also have "\<dots> = Some (c\<lparr>stack := stack c'\<rparr>)"
    using top keep(1) by (simp add: pop_word_def add.assoc)
  finally show ?thesis by (simp add: Some)
qed

text \<open>A handler that clobbers the registers a callee may use, and pushes on its own.\<close>

definition sample_handler :: "cpu \<Rightarrow> cpu option" where
  "sample_handler c = Some (c\<lparr>regs := \<lambda>_. 7, stack := wr64 (stack c) (rsp c - 8) 1\<rparr>)"

lemma sample_keeps: "keeps_frame sample_handler"
proof -
  have "rd64 (wr64 m (a - 8) 1) (a + 8 * of_nat i) = rd64 m (a + 8 * of_nat i)" if "i < 22" for m a i
  proof (rule c64.rd_wr_sep)
    show "disj (a - 8) 8 (a + 8 * of_nat i) 8"
      using offsets_disj [of 0 8 "8 * i + 8" 8 "a - 8"] that by (simp add: algebra_simps)
  qed
  then show ?thesis by (simp add: keeps_frame_def sample_handler_def)
qed

definition sample_cpu :: cpu where
  "sample_cpu = \<lparr>regs = \<lambda>_. 3, rsp = 0x9008, rip = 0x100, code_segment = 8, cpu_flags = 0x202, stack_segment = 16, stack = \<lambda>_. 0\<rparr>"

theorem stub_transparent_witness:
  "map_option rip (exec_all sample_handler (stub_code None 44) (deliver (0x5000, 8, 2) None sample_cpu)) = Some 0x100
    \<and> map_option (\<lambda>c. regs c RAX) (exec_all sample_handler (stub_code (Some 5) 14) (deliver (0x5000, 8, 2) (Some 5) sample_cpu)) = Some 3"
  by (simp add: stub_transparent [OF sample_keeps] sample_handler_def) (simp add: sample_cpu_def)

end
