(* ===== verification/Interrupt.thy ===== *)
theory Interrupt
  imports Usb Apic Descriptor_Tables Interrupt_Stubs
begin

text \<open>
  \<^verbatim>\<open>common_interrupt_handler\<close> of \<^verbatim>\<open>kernel/src/interrupt.rs\<close>, with the state it shares with the rest of the kernel:
  \<open>LAPIC\<close> joins the state of the USB drivers. Locks are free when the handler runs in this sequential model (\<open>Locking\<close> treats
  the other case). \<open>isr_tick\<close> is what happens between two looks of a waiting loop: the devices move, and an interrupt
  they raise is served.
\<close>

record 'h system = "'h usb" +
  lapic :: "LocalApic option"

definition handle_xhci_irq :: "('h, 'e) machine_scheme \<Rightarrow> ('h, 'z) usb_scheme \<Rightarrow> ('h, 'z) usb_scheme option" where
  "handle_xhci_irq io s = do {
     s \<leftarrow> (case xhci_instance s of
            Some x \<Rightarrow> do { (x, s) \<leftarrow> poll_event_ring io x s; Some (s\<lparr>xhci_instance := Some x\<rparr>) }
          | None \<Rightarrow> Some s);
     s \<leftarrow> poll_keyboard io s;
     poll_mouse io s
   }"

text \<open>Every vector but 44 ends in \<open>loop {}\<close>.\<close>

definition common_interrupt_handler :: "('h, 'e) machine_scheme \<Rightarrow> nat \<Rightarrow> ('h, 'z) system_scheme \<Rightarrow> ('h, 'z) system_scheme option" where
  "common_interrupt_handler io vector s = do {
     s \<leftarrow> (if vector = 44 then handle_xhci_irq io s else None);
     if vector \<ge> 32 then
       (case lapic s of Some l \<Rightarrow> send_eoi io l s | None \<Rightarrow> Some s)
     else Some s
   }"

definition isr_tick :: "('h, 'e) machine_scheme \<Rightarrow> ('h, 'z) system_scheme \<Rightarrow> ('h, 'z) system_scheme option" where
  "isr_tick io s =
     (let (h, m, irq) = hw_step io (outside s) (ram s); s = s\<lparr>outside := h, ram := m\<rparr> in
      if irq then common_interrupt_handler io 44 s else Some s)"

section \<open>One event, one interrupt\<close>

text \<open>The event ring and the registers behind it are where the driver expects them.\<close>

definition events_ok :: "('h, 'e) machine_scheme \<Rightarrow> XHCI \<Rightarrow> bool" where
  "events_ok io x \<longleftrightarrow> runtime_regs_ok io x \<and> unat (event_ring_phys x) + 512 < 2 ^ 64 \<and> dequeue_index x < 32"

definition next_event :: "XHCI \<Rightarrow> mem \<Rightarrow> Trb" where
  "next_event x m = trb_read m (trb_slot (event_ring_virt x) (dequeue_index x))"

lemma poll_posted:
  assumes "events_ok io x" and "trb_cycle (next_event x (ram s)) = cycle_state x"
  shows "\<exists>h. poll_event_ring io x s = Some (advance_dequeue x, (dispatch_event (next_event x (ram s)) s)\<lparr>outside := h\<rparr>)"
  using poll_event_ring_step [of io x s] assms by (simp add: events_ok_def next_event_def Let_def)

definition lapic_ok :: "LocalApic \<Rightarrow> bool" where
  "lapic_ok l \<longleftrightarrow> unat (lapic_base l) + 0xB0 < 2 ^ 64"

lemma send_eoi_ok: "lapic_ok l \<Longrightarrow> send_eoi io l s = Some (mmio_write32 io (lapic_base l + 0xB0) 0 s)"
  by (simp add: send_eoi_def lapic_write_def lapic_ok_def checked_add_def)

section \<open>A key press\<close>

text \<open>
  Property C11. From the key press to the character: when the controller has put the completion of the keyboard's
  report on the event ring and interrupts with vector 44, the handler returns; it has taken that one event off
  the ring, typed the keys that are new in the report, put the request for the next report on the keyboard's
  ring, taken the announcement back, and acknowledged the interrupt with its last register write. Nothing else has changed.
\<close>

theorem keystroke_interrupt:
  assumes x: "xhci_instance s = Some x" "events_ok io x" "doorbells_ok io x"
    and t: "trb_cycle (next_event x (ram s)) = cycle_state x" "trb_type (next_event x (ram s)) = 32"
      "for_kbd (next_event x (ram s)) s"
    and st: "kbd_state s = Some st" and mouse: "\<not> mouse_report_pending s"
    and l: "lapic s = Some l" "lapic_ok l"
  shows "\<exists>h. common_interrupt_handler io 44 s =
    (let r = read_keyboard_report (ram s) (k_report_buf_virt st);
         (i, c, m) = normal_put (k_ring_virt st) (k_ring_phys st) (k_report_buf_phys st, 8)
                       (k_enqueue_index st, k_cycle_state st, ram s)
     in Some (s\<lparr>ram := m, outside := mwr32 io (lapic_base l + 0xB0) 0 h, xhci_instance := Some (advance_dequeue x),
               kbd_report_pending := False, kbd_report_len := status (next_event x (ram s)) AND 0xFFFFFF,
               kbd_state := Some (st\<lparr>k_enqueue_index := i, k_cycle_state := c, last_keycodes := keycodes r\<rparr>),
               console := console s @ map Typed (typed (last_keycodes st) (modifier r) (keycodes r))\<rparr>))"
proof -
  let ?e = "next_event x (ram s)"
  have d: "dispatch_event ?e s = s\<lparr>kbd_report_len := status ?e AND 0xFFFFFF, kbd_report_pending := True\<rparr>"
    using t by (simp add: dispatch_event_if)
  obtain h1 where p: "poll_event_ring io x s
      = Some (advance_dequeue x, s\<lparr>kbd_report_len := status ?e AND 0xFFFFFF, kbd_report_pending := True, outside := h1\<rparr>)"
    using poll_posted [OF x(2) t(1)] unfolding d by blast
  let ?s1 = "s\<lparr>kbd_report_len := status ?e AND 0xFFFFFF, kbd_report_pending := True, outside := h1, xhci_instance := Some (advance_dequeue x)\<rparr>"
  have s1: "kbd_report_pending ?s1" "kbd_state ?s1 = Some st" "xhci_instance ?s1 = Some (advance_dequeue x)"
    "doorbells_ok io (advance_dequeue x)"
    using st x(3) by (simp_all add: doorbells_ok_def)
  obtain i c m where put: "normal_put (k_ring_virt st) (k_ring_phys st) (k_report_buf_phys st, 8)
      (k_enqueue_index st, k_cycle_state st, ram s) = (i, c, m)" by (metis prod_cases3)
  let ?r = "read_keyboard_report (ram s) (k_report_buf_virt st)"
  obtain h2 where k: "poll_keyboard io ?s1 = Some (?s1\<lparr>ram := m, outside := h2, kbd_report_pending := False,
      console := console s @ map Typed (typed (last_keycodes st) (modifier ?r) (keycodes ?r)),
      kbd_state := Some (st\<lparr>k_enqueue_index := i, k_cycle_state := c, last_keycodes := keycodes ?r\<rparr>)\<rparr>)"
    using poll_keyboard_step [OF s1] put by (auto simp: Let_def)
  have "handle_xhci_irq io s = Some (?s1\<lparr>ram := m, outside := h2, kbd_report_pending := False,
      console := console s @ map Typed (typed (last_keycodes st) (modifier ?r) (keycodes ?r)),
      kbd_state := Some (st\<lparr>k_enqueue_index := i, k_cycle_state := c, last_keycodes := keycodes ?r\<rparr>)\<rparr>)"
    using x(1) p k mouse by (simp add: handle_xhci_irq_def poll_mouse_def)
  then show ?thesis
    using l put by (intro exI [of _ h2]) (simp add: common_interrupt_handler_def send_eoi_ok mmio_write32_def Let_def)
qed

definition system_start :: "'h usb \<Rightarrow> 'h system" where
  "system_start u = usb.extend u \<lparr>lapic = None\<rparr>"

text \<open>The event for slot 1, endpoint 3, on the ring of the example driver, and a report with the keys A and B.\<close>

definition key_event :: Trb where
  "key_event = \<lparr>parameter = 0, status = 0x01000000, control = 0x01038001\<rparr>"

definition key_system :: "unit system" where
  "key_system = (system_start kbd_example)
     \<lparr>ram := trb_write (ram kbd_example) (trb_slot 0xFFFF800000010000 31) key_event,
      kbd_report_pending := False, kbd_dci := 3, kbd_slot_id := 1, lapic := Some \<lparr>lapic_base = 0xFFFF8000FEE00000\<rparr>\<rparr>"

lemma xhci_example_events: "events_ok quiet_machine xhci_example"
  by (simp add: events_ok_def runtime_regs_ok_def quiet_machine_def xhci_example_def)

lemma key_event_read: "next_event xhci_example (trb_write m (trb_slot 0xFFFF800000010000 31) key_event) = key_event"
  by (simp add: next_event_def xhci_example_def trb_slot_write)

lemma trb_write_other:
  assumes "16 \<le> unat (y - a)"
  shows "trb_write m a t y = m y"
proof -
  have "unat (y - (a + k)) = unat (y - a) - unat k" if "unat k \<le> 16" for k
  proof -
    have "y - (a + k) = (y - a) - k" by simp
    then show ?thesis using that assms by (simp only: unat_sub word_le_nat_alt)
  qed
  from this [of 8] this [of 12] assms show ?thesis
    by (simp add: trb_write_def wr64_other wr32_def mem_write_other)
qed

lemma key_report_read:
  "read_keyboard_report (ram key_system) 0x5000 = \<lparr>modifier = 2, reserved = 0, keycodes = [4, 5, 0, 0, 0, 0]\<rparr>"
proof -
  have b: "ram key_system (0x5000 + k) = ram kbd_example (0x5000 + k)" if "k < 8" for k
    using that unfolding key_system_def by (simp add: trb_slot_def) (rule trb_write_other, simp add: unat_sub_if' unat_word_ariths word_less_nat_alt)
  have "read_keyboard_report (ram key_system) 0x5000 = read_keyboard_report (ram kbd_example) 0x5000"
    using b [of 0] b [of 1] b [of 2] b [of 3] b [of 4] b [of 5] b [of 6] b [of 7]
    by (simp add: read_keyboard_report_def mem_read_def upt_rec)
  then show ?thesis
    by (simp add: kbd_example_def read_keyboard_report_def mem_read_def mem_write_def upt_rec)
qed

theorem keystroke_interrupt_witness:
  "\<exists>s'. common_interrupt_handler quiet_machine 44 key_system = Some s' \<and> console s' = [Typed CHR ''A'']
    \<and> \<not> kbd_report_pending s'"
proof -
  let ?st = "the (kbd_state key_system)"
  have f: "xhci_instance key_system = Some xhci_example" "kbd_state key_system = Some ?st" "\<not> mouse_report_pending key_system"
    "lapic key_system = Some \<lparr>lapic_base = 0xFFFF8000FEE00000\<rparr>" "console key_system = []" "k_report_buf_virt ?st = 0x5000"
    "last_keycodes ?st = [5, 0, 0, 0, 0, 0]"
    by (simp_all add: key_system_def system_start_def kbd_example_def usb_start_def usb.extend_def kernel.extend_def
        kernel_start_def pgstate.extend_def)
  have e: "next_event xhci_example (ram key_system) = key_event"
    by (simp add: key_system_def key_event_read)
  have t: "trb_cycle (next_event xhci_example (ram key_system)) = cycle_state xhci_example"
    "trb_type (next_event xhci_example (ram key_system)) = 32" "for_kbd (next_event xhci_example (ram key_system)) key_system"
    unfolding e by (simp_all add: key_event_def trb_cycle_def trb_type_def for_kbd_def key_system_def xhci_example_def)
  have lok: "lapic_ok \<lparr>lapic_base = 0xFFFF8000FEE00000\<rparr>" by (simp add: lapic_ok_def)
  have "hid_keycode_to_ascii 4 2 = Some CHR ''A''" by code_simp
  then show ?thesis
    using keystroke_interrupt [OF f(1) xhci_example_events running_example_ok(2) t f(2,3,4) lok]
    by (auto simp: Let_def f(5-7) key_report_read split: prod.splits)
qed

section \<open>A command and its interrupt\<close>

text \<open>
  The controller answers a command: once the command \<open>r\<close> is on the ring, its next step puts a completion event with the
  given code and slot where the driver looks, and raises the interrupt.
\<close>

definition completes :: "('h, 'e) machine_scheme \<Rightarrow> XHCI \<Rightarrow> u64 \<times> u32 \<times> u32 \<times> u32 \<Rightarrow> u32 \<Rightarrow> u32 \<Rightarrow> bool" where
  "completes io x r code slot_id \<longleftrightarrow>
     (\<forall>h m. trb_read m (trb_slot (cmd_ring_virt x) (cmd_enqueue_index x)) = cmd_trb r (cmd_cycle_state x) \<longrightarrow>
        (\<exists>h' m'. hw_step io h m = (h', m', True) \<and> trb_cycle (next_event x m') = cycle_state x
           \<and> trb_type (next_event x m') = 33 \<and> drop_bit 24 (status (next_event x m')) AND 0xFF = code
           \<and> drop_bit 24 (control (next_event x m')) AND 0xFF = slot_id))"

lemma wait_flag_one:
  "\<not> flag s \<Longrightarrow> tick s = Some s' \<Longrightarrow> flag s' \<Longrightarrow> wait_flag tick flag WAIT_LIMIT s = Some (True, s')"
proof -
  assume *: "\<not> flag s" "tick s = Some s'" "flag s'"
  have "wait_flag tick flag (Suc (Suc n)) s = Some (True, s')" for n
    using * by simp
  from this [of "WAIT_LIMIT - 2"] show ?thesis by (simp add: WAIT_LIMIT_def)
qed

lemma command_sent_fields:
  "ram (command_sent x r h s) = trb_write (ram s) (trb_slot (cmd_ring_virt x) (cmd_enqueue_index x)) (cmd_trb r (cmd_cycle_state x))"
  "\<exists>y. xhci_instance (command_sent x r h s) = Some y \<and> virt_base y = virt_base x \<and> event_ring_virt y = event_ring_virt x
     \<and> event_ring_phys y = event_ring_phys x \<and> dequeue_index y = dequeue_index x \<and> cycle_state y = cycle_state x"
  by (simp_all add: command_sent_def cmd_put_eq)

lemma command_sent_usb:
  "kbd_report_pending (command_sent x r h s) = kbd_report_pending s"
  "mouse_report_pending (command_sent x r h s) = mouse_report_pending s"
  "lapic (command_sent x r h t) = lapic t"
  by (simp_all add: command_sent_def cmd_put_eq)

text \<open>An event that is not a report, taken off the ring by the interrupt it raises.\<close>

lemma dispatch_not_transfer:
  assumes "trb_type e \<noteq> 32"
  shows "kbd_report_pending (dispatch_event e s) = kbd_report_pending s" "mouse_report_pending (dispatch_event e s) = mouse_report_pending s"
    "xhci_instance (dispatch_event e s) = xhci_instance s" "lapic (dispatch_event e t) = lapic t"
    "active_ports (dispatch_event e u) = active_ports u"
  using assms by (simp_all add: dispatch_event_if)

lemma isr_tick_event:
  assumes hw: "hw_step io (outside s) (ram s) = (h', m', True)"
    and x: "xhci_instance s = Some x" "events_ok io x"
    and e: "trb_cycle (next_event x m') = cycle_state x" "trb_type (next_event x m') \<noteq> 32"
    and q: "\<not> kbd_report_pending s" "\<not> mouse_report_pending s" "lapic s = Some l" "lapic_ok l"
  shows "\<exists>h. isr_tick io s = Some ((dispatch_event (next_event x m') (s\<lparr>outside := h', ram := m'\<rparr>))
    \<lparr>outside := h, xhci_instance := Some (advance_dequeue x)\<rparr>)"
proof -
  let ?t = "s\<lparr>outside := h', ram := m'\<rparr>"
  let ?d = "dispatch_event (next_event x m') ?t"
  obtain h2 where p: "poll_event_ring io x ?t = Some (advance_dequeue x, ?d\<lparr>outside := h2\<rparr>)"
    using poll_posted [OF x(2), of ?t] e(1) by auto
  have "isr_tick io s = common_interrupt_handler io 44 ?t"
    by (simp add: isr_tick_def hw)
  moreover have "handle_xhci_irq io ?t = Some (?d\<lparr>outside := h2, xhci_instance := Some (advance_dequeue x)\<rparr>)"
    using q x(1) p by (simp add: handle_xhci_irq_def poll_keyboard_def poll_mouse_def dispatch_not_transfer [OF e(2)])
  ultimately have "isr_tick io s = Some (?d\<lparr>outside := h2, xhci_instance := Some (advance_dequeue x),
      outside := mwr32 io (lapic_base l + 0xB0) 0 h2\<rparr>)"
    using q(3,4) by (simp add: common_interrupt_handler_def send_eoi_ok mmio_write32_def dispatch_not_transfer [OF e(2)])
  then show ?thesis
    by (intro exI [of _ "mwr32 io (lapic_base l + 0xB0) 0 h2"]) simp
qed

lemma answered_tick:
  assumes x: "events_ok io x" and c: "completes io x r code slot_id"
    and q: "\<not> kbd_report_pending s" "\<not> mouse_report_pending s" "lapic s = Some l" "lapic_ok l"
  shows "\<exists>s'. isr_tick io (command_sent x r h s) = Some s' \<and> completion_pending s'
    \<and> completion_code s' = code \<and> completion_slot s' = slot_id \<and> active_ports s' = active_ports s"
proof -
  let ?s = "command_sent x r h s"
  have "trb_read (ram ?s) (trb_slot (cmd_ring_virt x) (cmd_enqueue_index x)) = cmd_trb r (cmd_cycle_state x)"
    by (simp add: command_sent_fields(1) trbs.rd_wr_same)
  with c obtain h' m' where hw: "hw_step io (outside ?s) (ram ?s) = (h', m', True)"
    and e: "trb_cycle (next_event x m') = cycle_state x" "trb_type (next_event x m') = 33"
      "drop_bit 24 (status (next_event x m')) AND 0xFF = code" "drop_bit 24 (control (next_event x m')) AND 0xFF = slot_id"
    unfolding completes_def by blast
  from command_sent_fields(2) [of x r h s] obtain y where y: "xhci_instance ?s = Some y" "virt_base y = virt_base x" "event_ring_virt y = event_ring_virt x"
    "event_ring_phys y = event_ring_phys x" "dequeue_index y = dequeue_index x" "cycle_state y = cycle_state x"
    by blast
  have ne: "next_event y m' = next_event x m'" by (simp add: next_event_def y)
  have "events_ok io y" using x y by (simp add: events_ok_def runtime_regs_ok_def)
  from isr_tick_event [OF hw y(1) this] e(1,2) q y(6) obtain h2 where
    "isr_tick io ?s = Some ((dispatch_event (next_event x m') (?s\<lparr>outside := h', ram := m'\<rparr>))
       \<lparr>outside := h2, xhci_instance := Some (advance_dequeue y)\<rparr>)"
    by (auto simp: ne command_sent_usb)
  moreover have "active_ports ?s = active_ports s" by (simp add: command_sent_def cmd_put_eq)
  ultimately show ?thesis
    using e by (simp add: dispatch_event_if)
qed

lemma issue_command_answered:
  assumes x: "xhci_instance s = Some x" and db: "doorbells_ok io x"
    and tick: "\<And>h. \<exists>s'. tick (command_sent x (param, 0, ty, slot_id) h s) = Some s' \<and> completion_pending s' \<and> P s'"
  shows "\<exists>s'. issue_command io tick id param ty slot_id s =
      Some (if completion_code s' = 1 then Inr () else Inl CommandFailed, s') \<and> P s'"
proof -
  let ?s = "s\<lparr>completion_pending := False\<rparr>"
  obtain x1 s1 where e: "enqueue_command param 0 ty slot_id (x, ?s) = (x1, s1)" by fastforce
  have "doorbells_ok io x1"
    using db e by (auto simp: doorbells_ok_def enqueue_command_def Let_def)
  then obtain h where h: "ring_doorbell io x1 0 0 s1 = Some (s1\<lparr>outside := h\<rparr>)"
    using ring_doorbell_ok by blast
  have t: "command_sent x (param, 0, ty, slot_id) h s = s1\<lparr>outside := h, xhci_instance := Some x1\<rparr>"
    by (simp add: command_sent_def cmd_put_def e)
  obtain s' where s': "tick (command_sent x (param, 0, ty, slot_id) h s) = Some s'" "completion_pending s'" "P s'"
    using tick by blast
  have "wait_flag tick completion_pending WAIT_LIMIT (command_sent x (param, 0, ty, slot_id) h s) = Some (True, s')"
    using s'(1,2) by (intro wait_flag_one) simp_all
  then have "issue_command io tick id param ty slot_id s = Some (if completion_code s' = 1 then Inr () else Inl CommandFailed, s')"
    using x h by (simp add: issue_command_def with_xhci_def send_command_def e t)
  with s'(3) show ?thesis by blast
qed

text \<open>
  Property C12. A command and its interrupt together: from the published driver, with the interrupt handler of the kernel
  running between the looks of the waiting loop, \<open>enable_slot\<close> returns the slot the controller put into its
  completion event, and the error when the completion code is not Success.
\<close>

theorem enable_slot_through_interrupt:
  assumes "xhci_instance s = Some x" and "doorbells_ok io x" and "events_ok io x"
    and "completes io x (0, 0, TRB_TYPE_ENABLE_SLOT, 0) code slot_id"
    and "\<not> kbd_report_pending s" and "\<not> mouse_report_pending s" and "lapic s = Some l" and "lapic_ok l"
  shows "\<exists>s'. enable_slot io (isr_tick io) s = Some (if code = 1 then Inr slot_id else Inl CommandFailed, s')
    \<and> active_ports s' = active_ports s"
proof -
  let ?P = "\<lambda>s'. completion_code s' = code \<and> completion_slot s' = slot_id \<and> active_ports s' = active_ports s"
  have "\<exists>s'. isr_tick io (command_sent x (0, 0, TRB_TYPE_ENABLE_SLOT, 0) h s) = Some s' \<and> completion_pending s' \<and> ?P s'" for h
    using answered_tick [OF assms(3-8)] by blast
  from issue_command_answered [where P = ?P and tick = "isr_tick io" and s = s and param = 0 and ty = TRB_TYPE_ENABLE_SLOT
      and slot_id = 0, OF assms(1,2)] this
  obtain s' where "issue_command io (isr_tick io) id 0 TRB_TYPE_ENABLE_SLOT 0 s =
      Some (if completion_code s' = 1 then Inr () else Inl CommandFailed, s')" "?P s'" by blast
  then show ?thesis
    by (intro exI [of _ s']) (simp add: enable_slot_def)
qed

text \<open>A machine whose controller answers every step with the completion event for slot 5.\<close>

definition slot_event :: Trb where
  "slot_event = \<lparr>parameter = 0, status = 0x01000000, control = 0x05008401\<rparr>"

definition answering_machine :: "unit machine" where
  "answering_machine = quiet_machine
     \<lparr>hw_step := \<lambda>h m. (h, trb_write m (trb_slot 0xFFFF800000010000 31) slot_event, True)\<rparr>"

definition idle_system :: "unit system" where
  "idle_system = (system_start (usb_start pg_example ()))
     \<lparr>xhci_instance := Some xhci_example, lapic := Some \<lparr>lapic_base = 0xFFFF8000FEE00000\<rparr>\<rparr>"

theorem enable_slot_through_interrupt_witness:
  "\<exists>s'. enable_slot answering_machine (isr_tick answering_machine) idle_system = Some (Inr 5, s')"
proof -
  have m: "doorbells_ok answering_machine xhci_example" "events_ok answering_machine xhci_example"
    by (simp_all add: doorbells_ok_def events_ok_def runtime_regs_ok_def answering_machine_def quiet_machine_def xhci_example_def)
  have "next_event xhci_example (trb_write mm (trb_slot 0xFFFF800000010000 31) slot_event) = slot_event" for mm
    by (simp add: next_event_def xhci_example_def trb_slot_write)
  then have c: "completes answering_machine xhci_example (0, 0, TRB_TYPE_ENABLE_SLOT, 0) 1 5"
    by (simp add: completes_def answering_machine_def) (simp add: slot_event_def trb_cycle_def trb_type_def xhci_example_def)
  have f: "xhci_instance idle_system = Some xhci_example" "\<not> kbd_report_pending idle_system" "\<not> mouse_report_pending idle_system"
    "lapic idle_system = Some \<lparr>lapic_base = 0xFFFF8000FEE00000\<rparr>" "lapic_ok \<lparr>lapic_base = 0xFFFF8000FEE00000\<rparr>"
    by (simp_all add: idle_system_def system_start_def usb_start_def usb.extend_def kernel.extend_def
        kernel_start_def pgstate.extend_def lapic_ok_def)
  show ?thesis
    using enable_slot_through_interrupt [OF f(1) m c f(2-5)] by auto
qed

section \<open>Every other vector\<close>

lemma other_vector_hangs: "vector \<noteq> 44 \<Longrightarrow> common_interrupt_handler io vector s = None"
  by (simp add: common_interrupt_handler_def)

text \<open>
  The first key pressed on a PS/2 keyboard stops the kernel: \<open>init_ioapic\<close> routes IRQ 1, unmasked, to vector
  33; \<open>load_idt\<close> has a gate for it; and the handler never returns from that vector, whatever the state.
\<close>

theorem ps2_interrupt_hangs:
  assumes "map_mmio_page 0xFEC00000 s = Some (v, s1)" and "has_ioapic io v view" and "unat v + 16 < 2 ^ 64"
  shows "\<exists>s'. init_ioapic io s = Some (\<lparr>ioapic_base = v\<rparr>, s')
    \<and> redirection (snd (view (outside s'))) 1 = (33, False, 0)
    \<and> stub_of 33 = Some (irq 33) \<and> common_interrupt_handler io' 33 t = None"
proof -
  from set_redirect_view [OF assms(2,3), of 1 33 0 s1] obtain s' where
    "set_redirect io \<lparr>ioapic_base = v\<rparr> 1 33 0 s1 = Some s'" "redirection (snd (view (outside s'))) 1 = (33, False, 0)" by auto
  with assms(1) show ?thesis
    by (simp add: init_ioapic_def stub_of_def other_vector_hangs)
qed

lemma pt_inv_kernel_start [simp]:
  "pt_inv (kernel_start p h) T fs = pt_inv p T fs" "leaf (kernel_start p h) v = leaf p v"
  "physical_to_virtual (kernel_start p h) a = physical_to_virtual p a"
proof -
  have f: "hhdm (kernel_start p h) = hhdm p" "hhdm_ok (kernel_start p h) = hhdm_ok p" "cr3 (kernel_start p h) = cr3 p"
    "fa_head (kernel_start p h) = fa_head p" "fa_initialized (kernel_start p h) = fa_initialized p"
    by (simp_all add: hhdm_def hhdm_ok_def kernel_start_def pgstate.extend_def)
  then have g: "frame_ok (kernel_start p h) = frame_ok p" "ent (kernel_start p h) = ent p"
    by (simp_all add: fun_eq_iff frame_ok_def ent_def)
  then have t: "table_frame (kernel_start p h) = table_frame p"
    by (simp add: fun_eq_iff table_frame_def)
  show "pt_inv (kernel_start p h) T fs = pt_inv p T fs"
    by (simp add: pt_inv_def fa_inv_def free_list_def tables_def f g t)
  show "leaf (kernel_start p h) v = leaf p v"
    by (simp add: leaf_def f g)
  show "physical_to_virtual (kernel_start p h) a = physical_to_virtual p a"
    by (simp add: physical_to_virtual_def kernel_start_def pgstate.extend_def)
qed

lemma ioapic_page_mapped:
  "\<exists>s'. map_mmio_page 0xFEC00000 (kernel_start pg_example h) = Some (0xFFFF8000FEC00000, s')"
proof -
  let ?s = "kernel_start pg_example h"
  obtain r s' where "map_page 0xFFFF8000FEC00000 0xFEC00000 (WRITABLE OR NO_CACHE) ?s = Some (r, s')" "r = Inr ()"
    using map_page_aux [of ?s "[[] \<mapsto> 0x1000]" "[0x2000, 0x3000, 0x4000]" "0xFFFF8000FEC00000" "0xFEC00000" "WRITABLE OR NO_CACHE"]
    by (auto simp: map_spec_def pg_example_leaf pg_example_inv)
  moreover have "physical_to_virtual pg_example 0xFEC00000 = Some (Some 0xFFFF8000FEC00000)"
    by (simp add: pg_example_def physical_to_virtual_def) (simp add: pg_base_def checked_add_def)
  ultimately show ?thesis
    by (simp add: map_mmio_page_def PAGE_mask Let_def mask_eq_exp_minus_1)
qed

lemma ioapic_base_limit: "unat (0xFFFF8000FEC00000 :: u64) + 16 < 2 ^ 64"
  by simp

theorem ps2_interrupt_hangs_witness:
  "\<exists>v s'. init_ioapic ioapic_machine (kernel_start pg_example (0, \<lambda>_. 0x10000)) = Some (v, s')
    \<and> redirection (snd (outside s')) 1 = (33, False, 0) \<and> common_interrupt_handler quiet_machine 33 idle_system = None"
proof -
  obtain s1 where "map_mmio_page 0xFEC00000 (kernel_start pg_example (0 :: u32, \<lambda>_ :: u32. 0x10000 :: u32)) = Some (0xFFFF8000FEC00000, s1)"
    using ioapic_page_mapped [of "(0 :: u32, \<lambda>_ :: u32. 0x10000 :: u32)"] by (elim exE)
  note h = ps2_interrupt_hangs [OF this ioapic_machine_ok ioapic_base_limit, of quiet_machine idle_system, unfolded id_apply]
  then obtain s' where "init_ioapic ioapic_machine (kernel_start pg_example (0, \<lambda>_. 0x10000)) = Some (\<lparr>ioapic_base = 0xFFFF8000FEC00000\<rparr>, s')"
    "redirection (snd (outside s')) 1 = (33, False, 0)" "common_interrupt_handler quiet_machine 33 idle_system = None"
    by (elim exE conjE)
  then show ?thesis by (intro exI conjI)
qed

end
