(* ===== verification/Rsdp.thy ===== *)
theory Rsdp
  imports Paging
begin

text \<open>
  \<^verbatim>\<open>kernel/src/rsdp.rs\<close>: the search for the table MADT of ACPI. The tables lie at identity-mapped addresses, so
  they are read through the page tables the way the processor does it; an access to a page that is not mapped is a
  page fault, whose handler never comes back (\<open>None\<close>). The results of \<open>map_page\<close> are dropped, as in the source.
\<close>

section \<open>What the processor reads at a virtual address\<close>

definition mmu :: "'z pgstate_scheme \<Rightarrow> u64 \<Rightarrow> u64 option" where
  "mmu s v =
     (let (a, b, c, d) = table_indices v; e4 = ent s (cr3 s AND ADDR_MASK) a in
      if e4 AND PRESENT = 0 then None
      else let e3 = ent s (e4 AND ADDR_MASK) b in
      if e3 AND PRESENT = 0 then None
      else if e3 AND HUGE_PAGE \<noteq> 0 then Some ((e3 AND ADDR_MASK AND NOT (mask 30)) OR (v AND mask 30))
      else let e2 = ent s (e3 AND ADDR_MASK) c in
      if e2 AND PRESENT = 0 then None
      else if e2 AND HUGE_PAGE \<noteq> 0 then Some ((e2 AND ADDR_MASK AND NOT (mask 21)) OR (v AND mask 21))
      else let e1 = ent s (e2 AND ADDR_MASK) d in
      if e1 AND PRESENT = 0 then None else Some ((e1 AND ADDR_MASK) OR (v AND mask 12)))"

definition vread8 :: "'z pgstate_scheme \<Rightarrow> u64 \<Rightarrow> u8 option" where
  "vread8 s v = map_option (\<lambda>p. ram s (p + hhdm s)) (mmu s v)"

definition vread :: "'z pgstate_scheme \<Rightarrow> u64 \<Rightarrow> nat \<Rightarrow> u8 list option" where
  "vread s v n = those (map (\<lambda>i. vread8 s (v + of_nat i)) [0..<n])"

section \<open>The tables\<close>

text \<open>The packed structures, and what their bytes say.\<close>

record SDTHeader =
  signature :: "u8 list"
  length_of_table :: u32
  sdt_revision :: u8
  sdt_checksum :: u8
  sdt_oem_id :: "u8 list"
  oem_table_id :: "u8 list"
  oem_revision :: u32
  creator_id :: u32
  creator_revisioin :: u32

definition SDT_HEADER_SIZE :: nat where "SDT_HEADER_SIZE = 36"

definition sdt_header :: "u8 list \<Rightarrow> SDTHeader" where
  "sdt_header bs =
     \<lparr>signature = take 4 bs,
      length_of_table = of_le_bytes (take 4 (drop 4 bs)),
      sdt_revision = bs ! 8,
      sdt_checksum = bs ! 9,
      sdt_oem_id = take 6 (drop 10 bs),
      oem_table_id = take 8 (drop 16 bs),
      oem_revision = of_le_bytes (take 4 (drop 24 bs)),
      creator_id = of_le_bytes (take 4 (drop 28 bs)),
      creator_revisioin = of_le_bytes (take 4 (drop 32 bs))\<rparr>"

record RSDP =
  rsdp_signature :: "u8 list"
  rsdp_checksum :: u8
  rsdp_oemid :: "u8 list"
  rsdp_revision :: u8
  rsdt_address :: u32

definition RSDP_SIZE :: nat where "RSDP_SIZE = 20"

definition rsdp_of :: "u8 list \<Rightarrow> RSDP" where
  "rsdp_of bs =
     \<lparr>rsdp_signature = take 8 bs,
      rsdp_checksum = bs ! 8,
      rsdp_oemid = take 6 (drop 9 bs),
      rsdp_revision = bs ! 15,
      rsdt_address = of_le_bytes (take 4 (drop 16 bs))\<rparr>"

record MADT =
  madt_header :: SDTHeader
  local_apic_address :: u32
  madt_flags :: u32
  entries :: u64

definition MADT_SIZE :: nat where "MADT_SIZE = 52"

definition madt_of :: "u8 list \<Rightarrow> MADT" where
  "madt_of bs =
     \<lparr>madt_header = sdt_header bs,
      local_apic_address = of_le_bytes (take 4 (drop 36 bs)),
      madt_flags = of_le_bytes (take 4 (drop 40 bs)),
      entries = of_le_bytes (take 8 (drop 44 bs))\<rparr>"

definition APIC_SIGNATURE :: "u8 list" where
  "APIC_SIGNATURE = [0x41, 0x50, 0x49, 0x43]"

fun find_table :: "u64 \<Rightarrow> nat \<Rightarrow> nat \<Rightarrow> 'z pgstate_scheme \<Rightarrow> (MADT option \<times> 'z pgstate_scheme) option" where
  "find_table entries_addr i 0 s = Some (None, s)"
| "find_table entries_addr i (Suc n) s = do {
     a \<leftarrow> vread s (entries_addr + 4 * of_nat i) 4;
     let table_addr = ucast (of_le_bytes a :: u32);
     (r, s) \<leftarrow> map_page table_addr table_addr (WRITABLE OR PRESENT) s;
     h \<leftarrow> vread s table_addr SDT_HEADER_SIZE;
     if signature (sdt_header h) = APIC_SIGNATURE then do {
       m \<leftarrow> vread s table_addr MADT_SIZE;
       Some (Some (madt_of m), s)
     } else find_table entries_addr (Suc i) n s
   }"

definition find_MADT :: "u64 \<Rightarrow> 'z pgstate_scheme \<Rightarrow> (MADT option \<times> 'z pgstate_scheme) option" where
  "find_MADT rsdt_addr s = do {
     len \<leftarrow> vread s (rsdt_addr + 4) 4;
     rest \<leftarrow> checked_sub (of_le_bytes len :: u32) (of_nat SDT_HEADER_SIZE);
     let count = rest div 4;
     find_table (rsdt_addr + of_nat SDT_HEADER_SIZE) 0 (unat count) s
   }"

text \<open>
  \<open>test_rsdp\<close>: the boot loader's response is the address of the RSDP. What it learns it prints; the last two reads are the first two bytes at \<open>entries\<close>.
\<close>

definition test_rsdp :: "u64 option \<Rightarrow> 'z pgstate_scheme \<Rightarrow> 'z pgstate_scheme option" where
  "test_rsdp response s =
     (case response of
        None \<Rightarrow> Some s
      | Some ptr \<Rightarrow> do {
          (r, s) \<leftarrow> map_page ptr ptr (WRITABLE OR PRESENT) s;
          bs \<leftarrow> vread s ptr RSDP_SIZE;
          let rsdt = ucast (rsdt_address (rsdp_of bs));
          (r, s) \<leftarrow> map_page rsdt rsdt (WRITABLE OR PRESENT) s;
          (madt, s) \<leftarrow> find_MADT rsdt s;
          case madt of
            None \<Rightarrow> Some s
          | Some m \<Rightarrow> do {
              (r, s) \<leftarrow> map_page (entries m) (entries m) (PRESENT OR WRITABLE) s;
              first_two \<leftarrow> vread s (entries m) 2;
              Some s
            }
        })"

section \<open>What the search finds\<close>

text \<open>
  The tables of a system whose boot loader has mapped them: mapping an address again only says that it is mapped, and the
  listed tables can be read, as far as the size of a MADT.
\<close>

definition mapped_at :: "'z pgstate_scheme \<Rightarrow> u64 \<Rightarrow> bool" where
  "mapped_at s a \<longleftrightarrow> (\<exists>e. map_page a a (WRITABLE OR PRESENT) s = Some (Inl e, s)) \<and> vread s a MADT_SIZE \<noteq> None"

definition table_at :: "'z pgstate_scheme \<Rightarrow> u64 \<Rightarrow> u8 list" where
  "table_at s a = the (vread s a MADT_SIZE)"

definition lists_tables :: "'z pgstate_scheme \<Rightarrow> u64 \<Rightarrow> u64 list \<Rightarrow> bool" where
  "lists_tables s rsdt_addr ts \<longleftrightarrow>
     (\<exists>len. vread s (rsdt_addr + 4) 4 = Some len
        \<and> unat (of_le_bytes len :: u32) div 4 = 9 + length ts \<and> 36 \<le> unat (of_le_bytes len :: u32))
   \<and> (\<forall>i < length ts. \<exists>a. vread s (rsdt_addr + 36 + 4 * of_nat i) 4 = Some a \<and> ts ! i = ucast (of_le_bytes a :: u32))
   \<and> (\<forall>t \<in> set ts. mapped_at s t)"

lemma those_prefix:
  "those (map f xs) = Some ys \<Longrightarrow> those (map f (take n xs)) = Some (take n ys)"
proof (induction xs arbitrary: n ys)
  case (Cons x xs)
  then obtain y zs where "f x = Some y" "those (map f xs) = Some zs" "ys = y # zs"
    by (auto split: option.splits)
  with Cons.IH show ?case by (cases n) auto
qed simp

lemma vread_prefix: "vread s a n = Some bs \<Longrightarrow> k \<le> n \<Longrightarrow> vread s a k = Some (take k bs)"
  using those_prefix [of "\<lambda>i. vread8 s (a + of_nat i)" "[0..<n]" bs k] by (simp add: vread_def take_upt)

lemma sdt_header_take: "36 \<le> k \<Longrightarrow> sdt_header (take k bs) = sdt_header bs"
  by (simp add: sdt_header_def take_drop min_def)

lemma find_table_first:
  assumes "\<forall>k < n. \<exists>a. vread s (ea + 4 * of_nat (i + k)) 4 = Some a \<and> ts ! k = ucast (of_le_bytes a :: u32)"
    and "\<forall>t \<in> set ts. mapped_at s t" and "length ts = n"
  shows "find_table ea i n s = Some (map_option (\<lambda>t. madt_of (table_at s t))
    (find (\<lambda>t. signature (sdt_header (table_at s t)) = APIC_SIGNATURE) ts), s)"
  using assms
proof (induction n arbitrary: i ts)
  case (Suc n)
  then obtain t us where ts: "ts = t # us" by (cases ts) auto
  from Suc.prems(1) obtain a where a: "vread s (ea + 4 * of_nat i) 4 = Some a" "t = ucast (of_le_bytes a :: u32)"
    unfolding ts by force
  from Suc.prems(2) obtain e bs where t: "map_page t t (WRITABLE OR PRESENT) s = Some (Inl e, s)" "vread s t MADT_SIZE = Some bs"
    by (auto simp: ts mapped_at_def)
  have bs: "table_at s t = bs" by (simp add: table_at_def t(2))
  have h: "vread s t SDT_HEADER_SIZE = Some (take SDT_HEADER_SIZE bs)"
    by (rule vread_prefix [OF t(2)]) (simp add: SDT_HEADER_SIZE_def MADT_SIZE_def)
  have sg: "sdt_header (take SDT_HEADER_SIZE bs) = sdt_header bs"
    by (rule sdt_header_take) (simp add: SDT_HEADER_SIZE_def)
  have "\<forall>k < n. \<exists>a. vread s (ea + 4 * of_nat (Suc i + k)) 4 = Some a \<and> us ! k = ucast (of_le_bytes a :: u32)"
  proof (intro allI impI)
    fix k assume "k < n"
    with Suc.prems(1) [rule_format, of "Suc k"]
    show "\<exists>a. vread s (ea + 4 * of_nat (Suc i + k)) 4 = Some a \<and> us ! k = ucast (of_le_bytes a :: u32)"
      by (simp add: ts)
  qed
  from Suc.IH [OF this] Suc.prems(2,3)
  have "find_table ea (Suc i) n s = Some (map_option (\<lambda>t. madt_of (table_at s t))
    (find (\<lambda>t. signature (sdt_header (table_at s t)) = APIC_SIGNATURE) us), s)" by (simp add: ts)
  then show ?case
    using a t h sg bs by (simp add: ts Let_def)
qed simp

text \<open>
  Property C34. The search for the MADT: when the boot loader has mapped the tables, \<open>find_MADT\<close> returns, leaves the page
  tables as they are, and gives the first table of the list whose signature is APIC, or nothing when there is none.
\<close>

theorem find_MADT_first:
  assumes "lists_tables s rsdt_addr ts"
  shows "find_MADT rsdt_addr s = Some (map_option (\<lambda>t. madt_of (table_at s t))
    (find (\<lambda>t. signature (sdt_header (table_at s t)) = APIC_SIGNATURE) ts), s)"
proof -
  obtain len where h: "vread s (rsdt_addr + 4) 4 = Some len"
      "unat (of_le_bytes len :: u32) div 4 = 9 + length ts" "36 \<le> unat (of_le_bytes len :: u32)"
    using assms by (auto simp: lists_tables_def)
  let ?len = "of_le_bytes len :: u32"
  have "checked_sub ?len 36 = Some (?len - 36)"
    using h(3) by (simp add: checked_sub_def word_le_nat_alt)
  moreover have "unat ((?len - 36) div 4) = length ts"
  proof -
    have "unat (?len - 36) = unat ?len - 36" using h(3) by (subst unat_sub) (simp_all add: word_le_nat_alt)
    then have "unat ((?len - 36) div 4) = (unat ?len - 36) div 4" by (simp add: unat_div_distrib)
    also have "\<dots> = unat ?len div 4 - 9" using h(3) by (simp add: div_if)
    finally show ?thesis using h(2) by simp
  qed
  moreover have "find_table (rsdt_addr + 36) 0 (length ts) s = Some (map_option (\<lambda>t. madt_of (table_at s t))
    (find (\<lambda>t. signature (sdt_header (table_at s t)) = APIC_SIGNATURE) ts), s)"
    using assms by (intro find_table_first) (simp_all add: lists_tables_def)
  ultimately show ?thesis
    using h(1) by (simp add: find_MADT_def SDT_HEADER_SIZE_def Let_def)
qed

text \<open>
  A system whose first GiB is mapped by one huge page, with one table, a MADT at 0x6000 whose first record describes a local
  APIC. The search reads the eight bytes of that record as the pointer \<open>entries\<close>.
\<close>

definition acpi_ram :: mem where
  "acpi_ram = fold (\<lambda>(a, bs) m. mem_write m (a + 0xFFFF800000000000) bs)
     [(0x1000, [0x03, 0x20]), (0x2000, [0x83]), (0x5004, [40, 0, 0, 0]), (0x5024, [0x00, 0x60, 0, 0]),
      (0x6000, [0x41, 0x50, 0x49, 0x43]), (0x6024, [0x00, 0x00, 0xE0, 0xFE]), (0x602C, [0, 8, 0, 0, 1, 0, 0, 0])] (\<lambda>_. 0)"

definition acpi_example :: pgstate where
  "acpi_example = pg_base\<lparr>ram := acpi_ram\<rparr>"

lemma acpi_fields:
  "hhdm acpi_example = 0xFFFF800000000000" "cr3 acpi_example = 0x1000" "ram acpi_example = acpi_ram"
  "hhdm_offset acpi_example = Some 0xFFFF800000000000"
  by (simp_all add: acpi_example_def pg_base_def hhdm_def ADDR_MASK_def)

lemma acpi_entries: "ent acpi_example 0x1000 0 = 0x2003" "ent acpi_example 0x2000 0 = 0x83"
  by (simp_all add: ent_def entry_at_def acpi_fields rd64_def mem_read_def acpi_ram_def mem_write_def upt_rec)

lemma low_gib:
  fixes v :: u64
  assumes "v < 2 ^ 30"
  shows "drop_bit 39 v AND 0x1FF = 0" "drop_bit 30 v AND 0x1FF = 0" "v AND mask 30 = v"
proof -
  have b: "bit v n \<Longrightarrow> n < 30" for n using word_below_bits [of v 30 n] assms by simp
  show "drop_bit 39 v AND 0x1FF = 0" "drop_bit 30 v AND 0x1FF = 0" "v AND mask 30 = v"
    by (rule bit_word_eqI; auto simp: bit_simps dest: b)+
qed

lemma acpi_mmu: "v < 2 ^ 30 \<Longrightarrow> mmu acpi_example v = Some v"
proof -
  assume "v < 2 ^ 30"
  note i = low_gib [OF this]
  obtain pd pt where ti: "table_indices v = (0, 0, pd, pt)" using i by (simp add: table_indices_def)
  have "(131 :: u64) AND 4503599627366400 AND NOT (mask 30) = 0" by (simp add: mask_eq_exp_minus_1)
  then show ?thesis
    by (simp add: mmu_def ti acpi_fields acpi_entries PRESENT_def HUGE_PAGE_def ADDR_MASK_def i(3))
qed

lemma acpi_vread:
  assumes "unat a + n < 2 ^ 30"
  shows "vread acpi_example a n = Some (mem_read acpi_ram (a + 0xFFFF800000000000) n)"
proof -
  have "vread8 acpi_example (a + of_nat i) = Some (acpi_ram (a + 0xFFFF800000000000 + of_nat i))" if "i < n" for i
  proof -
    have "unat (a + of_nat i) = unat a + i"
      using assms that by (subst unat_word_ariths) (simp add: unat_of_nat)
    then have "a + of_nat i < 2 ^ 30" using assms that by (simp add: word_less_nat_alt)
    then show ?thesis by (simp add: vread8_def acpi_mmu acpi_fields algebra_simps)
  qed
  then have "map (\<lambda>i. vread8 acpi_example (a + of_nat i)) [0..<n] = map Some (mem_read acpi_ram (a + 0xFFFF800000000000) n)"
    by (simp add: mem_read_def)
  moreover have "those (map Some bs) = Some bs" for bs :: "u8 list" by (induction bs) simp_all
  ultimately show ?thesis by (simp add: vread_def)
qed

lemma acpi_map_page:
  assumes "v < 2 ^ 30"
  shows "map_page v v fl acpi_example = Some (Inl HugePageInPath, acpi_example)"
proof -
  have "(v AND NOT (mask 12)) < 2 ^ 30"
    using assms by (rule order_le_less_trans [rotated]) (simp add: word_and_le2)
  note i = low_gib [OF this]
  obtain pd pt where ti: "table_indices (v AND NOT (mask 12)) = (0, 0, pd, pt)"
    using i by (simp add: table_indices_def)
  have e: "rd64 acpi_ram 0xFFFF800000001000 = 0x2003" "rd64 acpi_ram 0xFFFF800000002000 = 0x83"
    using acpi_entries by (simp_all add: ent_def acpi_fields entry_at_def)
  show ?thesis
    by (simp add: map_page_def PAGE_mask ti pml4_virt_def hhdm_or_unavailable_def acpi_fields physical_to_virtual_def
        checked_add_def next_table_or_create_def entry_at_def e HUGE_PAGE_def PRESENT_def ADDR_MASK_def Let_def)
qed

lemma acpi_tables: "lists_tables acpi_example 0x5000 [0x6000]"
proof -
  have "mem_read acpi_ram 0xFFFF800000005004 4 = [40, 0, 0, 0]" "mem_read acpi_ram 0xFFFF800000005024 4 = [0x00, 0x60, 0, 0]"
    by (simp_all add: mem_read_def acpi_ram_def mem_write_def upt_rec)
  then show ?thesis
    by (simp add: lists_tables_def mapped_at_def acpi_map_page acpi_vread MADT_SIZE_def)
qed

theorem find_MADT_first_witness:
  "\<exists>m. find_MADT 0x5000 acpi_example = Some (Some m, acpi_example)
    \<and> local_apic_address m = 0xFEE00000 \<and> entries m = 0x100000800"
proof -
  let ?bs = "mem_read acpi_ram 0xFFFF800000006000 52"
  have t: "table_at acpi_example 0x6000 = ?bs"
    by (simp add: table_at_def acpi_vread MADT_SIZE_def)
  have b: "take 4 ?bs = [0x41, 0x50, 0x49, 0x43]" "take 4 (drop 36 ?bs) = [0x00, 0x00, 0xE0, 0xFE]"
    "take 8 (drop 44 ?bs) = [0, 8, 0, 0, 1, 0, 0, 0]"
    by (simp_all add: mem_read_def take_map drop_map take_upt) (simp_all add: acpi_ram_def mem_write_def upt_rec)
  then have "signature (sdt_header ?bs) = APIC_SIGNATURE" "local_apic_address (madt_of ?bs) = 0xFEE00000"
    "entries (madt_of ?bs) = 0x100000800"
    by (simp_all add: sdt_header_def APIC_SIGNATURE_def madt_of_def)
  then show ?thesis
    using find_MADT_first [OF acpi_tables] by (simp add: t)
qed

end
