(* ===== verification/Terminal.thy ===== *)
theory Terminal
  imports Phys_Memory Font
begin

text \<open>
  The console: \<^verbatim>\<open>kernel/src/terminal/mod.rs\<close> with \<open>write_pixel\<close> of \<^verbatim>\<open>kernel/src/graphics/mod.rs\<close>. The first
  framebuffer of the boot loader's response is a field of the state, as are the two statics of
  \<open>terminal_print\<close>. A string is the list of its code points. \<open>text_screen\<close> is what the console promises: a grid of
  characters with a cursor in front of a backdrop.
\<close>

record fb_info =
  fb_addr :: u64
  fb_width :: u64
  fb_height :: u64
  fb_pitch :: u64

record termstate =
  vram :: mem
  framebuffer :: "fb_info option"
  POSITION_X :: u64
  POSITION_Y :: u64

definition pixel_word :: "u32 \<times> u32 \<times> u32 \<Rightarrow> u32" where
  "pixel_word pixel = (case pixel of (r, g, b) \<Rightarrow> push_bit 16 r OR push_bit 8 g OR b)"

text \<open>The body of the two loops of \<open>write_pixel\<close>, and the function itself.\<close>

definition put_pixel :: "fb_info \<Rightarrow> u32 \<times> u32 \<times> u32 \<Rightarrow> nat \<Rightarrow> nat \<Rightarrow> mem \<Rightarrow> mem option" where
  "put_pixel fb pixel y x m = do {
     row \<leftarrow> checked_mul (of_nat y) (fb_pitch fb);
     col \<leftarrow> checked_mul (of_nat x) 4;
     pixel_offset \<leftarrow> checked_add row col;
     Some (wr32 m (fb_addr fb + pixel_offset) (pixel_word pixel))
   }"

definition write_pixel :: "u64 \<times> u64 \<Rightarrow> u64 \<times> u64 \<Rightarrow> u32 \<times> u32 \<times> u32 \<Rightarrow> 'z termstate_scheme \<Rightarrow> 'z termstate_scheme option" where
  "write_pixel from_position to_position pixel s =
     (case framebuffer s of
        None \<Rightarrow> Some s
      | Some fb \<Rightarrow> do {
          m \<leftarrow> for_each (\<lambda>y. for_each (\<lambda>x. put_pixel fb pixel y x)
                 [unat (fst from_position)..<unat (fst to_position)])
               [unat (snd from_position)..<unat (snd to_position)] (vram s);
          Some (s\<lparr>vram := m\<rparr>)
        })"

definition scroll_framebuffer :: "u64 \<Rightarrow> u64 \<Rightarrow> u64 \<Rightarrow> u64 \<Rightarrow> mem \<Rightarrow> mem option" where
  "scroll_framebuffer addr pitch height line_height m = do {
     scroll_bytes \<leftarrow> checked_mul pitch line_height;
     total_bytes \<leftarrow> checked_mul pitch height;
     rest \<leftarrow> checked_sub total_bytes scroll_bytes;
     let m = mem_copy m (addr + scroll_bytes) addr (unat rest);
     Some (mem_fill m (addr + rest) 0 (unat scroll_bytes))
   }"

definition terminal_clear :: "'z termstate_scheme \<Rightarrow> 'z termstate_scheme option" where
  "terminal_clear s =
     (case framebuffer s of
        None \<Rightarrow> Some s
      | Some fb \<Rightarrow> write_pixel (0, 0) (fb_width fb, fb_height fb) (0, 0, 0) s)"

text \<open>The start of a new line, scrolling when there is no room below: the block occurs twice in \<open>terminal_print\<close>.\<close>

definition next_line :: "fb_info \<Rightarrow> 'z termstate_scheme \<Rightarrow> 'z termstate_scheme option" where
  "next_line fb s = do {
     y \<leftarrow> checked_add (POSITION_Y s) 16;
     bottom \<leftarrow> checked_add y 16;
     if bottom > fb_height fb then do {
       m \<leftarrow> scroll_framebuffer (fb_addr fb) (fb_pitch fb) (fb_height fb) 16 (vram s);
       y \<leftarrow> checked_sub y 16;
       Some (s\<lparr>vram := m, POSITION_X := 0, POSITION_Y := y\<rparr>)
     } else Some (s\<lparr>POSITION_X := 0, POSITION_Y := y\<rparr>)
   }"

definition draw_dot :: "nat \<Rightarrow> nat \<Rightarrow> 'z termstate_scheme \<Rightarrow> 'z termstate_scheme option" where
  "draw_dot line i s = do {
     x \<leftarrow> checked_add (POSITION_X s) (of_nat i);
     y \<leftarrow> checked_add (POSITION_Y s) (of_nat line);
     x' \<leftarrow> checked_add x 1;
     y' \<leftarrow> checked_add y 1;
     write_pixel (x, y) (x', y') (255, 255, 255) s
   }"

definition draw_row :: "nat \<Rightarrow> nat \<Rightarrow> 'z termstate_scheme \<Rightarrow> 'z termstate_scheme option" where
  "draw_row index line s =
     (if index < length FONT8X16 then
        let bits = FONT8X16 ! index ! line in
        for_each (\<lambda>i s. if bits AND drop_bit i 0x80 \<noteq> 0 then draw_dot line i s else Some s) [0..<8] s
      else None)"

definition print_char :: "fb_info \<Rightarrow> nat \<Rightarrow> 'z termstate_scheme \<Rightarrow> 'z termstate_scheme option" where
  "print_char fb c s =
     (if c = 10 then next_line fb s
      else do {
        right \<leftarrow> checked_add (POSITION_X s) 16;
        s \<leftarrow> (if right > fb_width fb then next_line fb s else Some s);
        s \<leftarrow> for_each (draw_row c) [0..<16] s;
        x \<leftarrow> checked_add (POSITION_X s) 8;
        Some (s\<lparr>POSITION_X := x\<rparr>)
      })"

definition terminal_print :: "nat list \<Rightarrow> 'z termstate_scheme \<Rightarrow> 'z termstate_scheme option" where
  "terminal_print string s =
     (case framebuffer s of
        None \<Rightarrow> Some s
      | Some fb \<Rightarrow> for_each (print_char fb) string s)"

section \<open>Pixels\<close>

text \<open>
  \<open>pa fb x y\<close> is the address of a pixel, \<open>px fb m x y\<close> its value. In a framebuffer that is at least one character
  large, whose lines hold its width and which does not wrap around the address space, different pixels
  share no byte.
\<close>

abbreviation fbW :: "fb_info \<Rightarrow> nat" where "fbW fb \<equiv> unat (fb_width fb)"
abbreviation fbH :: "fb_info \<Rightarrow> nat" where "fbH fb \<equiv> unat (fb_height fb)"
abbreviation fbP :: "fb_info \<Rightarrow> nat" where "fbP fb \<equiv> unat (fb_pitch fb)"

definition fb_ok :: "fb_info \<Rightarrow> bool" where
  "fb_ok fb \<longleftrightarrow> 8 \<le> fbW fb \<and> 16 \<le> fbH fb \<and> 4 * fbW fb \<le> fbP fb \<and> unat (fb_addr fb) + fbH fb * fbP fb < 2 ^ 64"

lemmas fb_size_limits = u64_lt [of "fb_width fb" for fb] u64_lt [of "fb_height fb" for fb] u64_lt [of "fb_pitch fb" for fb]

definition pixel_off :: "fb_info \<Rightarrow> nat \<Rightarrow> nat \<Rightarrow> nat" where
  "pixel_off fb x y = y * fbP fb + 4 * x"

definition pa :: "fb_info \<Rightarrow> nat \<Rightarrow> nat \<Rightarrow> u64" where
  "pa fb x y = fb_addr fb + of_nat (pixel_off fb x y)"

definition px :: "fb_info \<Rightarrow> mem \<Rightarrow> nat \<Rightarrow> nat \<Rightarrow> u32" where
  "px fb m x y = rd32 m (pa fb x y)"

definition fb_bytes :: "fb_info \<Rightarrow> nat" where
  "fb_bytes fb = fbH fb * fbP fb"

lemma pixel_off_bound:
  assumes "fb_ok fb" "x < fbW fb" "y < n"
  shows "pixel_off fb x y + 4 \<le> n * fbP fb"
proof -
  have "Suc y * fbP fb \<le> n * fbP fb" using assms(3) by (intro mult_le_mono1) simp
  moreover have "4 * x + 4 \<le> fbP fb" using assms(1,2) by (simp add: fb_ok_def)
  ultimately show ?thesis by (simp add: pixel_off_def)
qed

lemma fb_bytes_bound: "fb_ok fb \<Longrightarrow> unat (fb_addr fb) + fb_bytes fb < 2 ^ 64"
  by (simp add: fb_ok_def fb_bytes_def)

lemma pixel_off_fits:
  assumes "fb_ok fb" "x < fbW fb" "y < fbH fb"
  shows "pixel_off fb x y + 4 \<le> fb_bytes fb" and "pixel_off fb x y < 2 ^ 64" and "fb_bytes fb < 2 ^ 64"
  using pixel_off_bound [OF assms] fb_bytes_bound [OF assms(1)] by (simp_all add: fb_bytes_def)

lemma pixel_off_apart:
  assumes "fb_ok fb" "x < fbW fb" "x' < fbW fb" "(x, y) \<noteq> (x', y')"
  shows "pixel_off fb x y + 4 \<le> pixel_off fb x' y' \<or> pixel_off fb x' y' + 4 \<le> pixel_off fb x y"
proof (cases y y' rule: linorder_cases)
  case less
  then show ?thesis using pixel_off_bound [OF assms(1,2) less] by (simp add: pixel_off_def)
next
  case equal
  with assms(4) have "x < x' \<or> x' < x" by auto
  with equal show ?thesis by (auto simp: pixel_off_def)
next
  case greater
  then show ?thesis using pixel_off_bound [OF assms(1,3) greater] by (simp add: pixel_off_def)
qed

lemma pixels_disj:
  assumes "fb_ok fb" "x < fbW fb" "y < fbH fb" "x' < fbW fb" "y' < fbH fb" "(x, y) \<noteq> (x', y')"
  shows "disj (pa fb x y) 4 (pa fb x' y') 4"
proof -
  note b = pixel_off_fits [OF assms(1,2,3)] pixel_off_fits [OF assms(1,4,5)] fb_bytes_bound [OF assms(1)]
  from pixel_off_apart [OF assms(1,2,4,6)] show ?thesis
  proof
    assume "pixel_off fb x y + 4 \<le> pixel_off fb x' y'"
    then show ?thesis unfolding pa_def using b by (intro offsets_disj) auto
  next
    assume "pixel_off fb x' y' + 4 \<le> pixel_off fb x y"
    then show ?thesis unfolding pa_def using b by (subst disj_sym) (intro offsets_disj; auto)
  qed
qed

lemma pa_inj:
  assumes "fb_ok fb" "x < fbW fb" "y < fbH fb" "x' < fbW fb" "y' < fbH fb"
  shows "pa fb x y = pa fb x' y' \<longleftrightarrow> x = x' \<and> y = y'"
  using pixels_disj [OF assms] by (cases "(x, y) = (x', y')") (auto simp: disj_def)

text \<open>Painting a set of pixels in one colour.\<close>

definition paint :: "fb_info \<Rightarrow> u32 \<Rightarrow> (nat \<times> nat) list \<Rightarrow> mem \<Rightarrow> mem" where
  "paint fb v ps m = fold (\<lambda>a m. wr32 m a v) (map (\<lambda>(x, y). pa fb x y) ps) m"

definition on_screen :: "fb_info \<Rightarrow> (nat \<times> nat) list \<Rightarrow> bool" where
  "on_screen fb ps \<longleftrightarrow> (\<forall>(x, y) \<in> set ps. x < fbW fb \<and> y < fbH fb)"

lemma px_paint:
  assumes "fb_ok fb" "on_screen fb ps" "x < fbW fb" "y < fbH fb"
  shows "px fb (paint fb v ps m) x y = (if (x, y) \<in> set ps then v else px fb m x y)"
proof -
  let ?as = "map (\<lambda>(x, y). pa fb x y) ps"
  have on: "x' < fbW fb" "y' < fbH fb" if "(x', y') \<in> set ps" for x' y'
    using that assms(2) by (auto simp: on_screen_def)
  have mem: "pa fb x y \<in> set ?as \<longleftrightarrow> (x, y) \<in> set ps"
  proof
    assume "pa fb x y \<in> set ?as"
    then obtain x' y' where p: "(x', y') \<in> set ps" "pa fb x y = pa fb x' y'" by auto
    with pa_inj [OF assms(1,3,4) on [OF p(1)]] show "(x, y) \<in> set ps" by simp
  qed force
  have apart: "a = pa fb x y \<or> disj a 4 (pa fb x y) 4" if "a \<in> set ?as" for a
  proof -
    from that obtain x' y' where p: "(x', y') \<in> set ps" "a = pa fb x' y'" by auto
    then show ?thesis
      using pixels_disj [OF assms(1) on [OF p(1)] assms(3,4)] by (cases "(x', y') = (x, y)") auto
  qed
  show ?thesis
    unfolding px_def paint_def mem [symmetric] by (rule c32.rd_writes_same) (rule apart)
qed

lemma paint_append: "paint fb v (ps @ qs) m = paint fb v qs (paint fb v ps m)"
  by (simp add: paint_def)

lemma paint_outside:
  assumes "fb_ok fb" "on_screen fb ps" "fb_bytes fb \<le> unat (b - fb_addr fb)"
  shows "paint fb v ps m b = m b"
  using assms(2)
proof (induction ps arbitrary: m)
  case (Cons p ps)
  obtain x y where p: "p = (x, y)" by (cases p)
  with Cons.prems have xy: "x < fbW fb" "y < fbH fb" by (auto simp: on_screen_def)
  have "4 \<le> unat (b - pa fb x y)"
  proof -
    note f = pixel_off_fits [OF assms(1) xy]
    have "unat (b - fb_addr fb - of_nat (pixel_off fb x y)) = unat (b - fb_addr fb) - pixel_off fb x y"
      using f assms(3) by (subst unat_sub) (simp_all add: word_le_nat_alt unat_of_nat)
    then show ?thesis using f(1) assms(3) by (simp add: pa_def algebra_simps)
  qed
  then have "wr32 m (pa fb x y) v b = m b"
    by (simp add: wr32_def mem_write_other)
  then show ?case
    using Cons by (simp add: paint_def p on_screen_def)
qed (simp add: paint_def)

section \<open>What the operations paint\<close>

lemma put_pixel_eq:
  assumes "fb_ok fb" "x < fbW fb" "y < fbH fb"
  shows "put_pixel fb pixel y x m = Some (wr32 m (pa fb x y) (pixel_word pixel))"
proof -
  note f = pixel_off_fits [OF assms]
  have "y * fbP fb < 2 ^ 64" "4 * x < 2 ^ 64" "y < 2 ^ 64" "x < 2 ^ 64"
    using f(2) assms(2,3) fb_size_limits [of fb] by (auto simp: pixel_off_def)
  then have u: "unat (of_nat y :: u64) = y" "unat (of_nat x :: u64) = x"
      "unat (of_nat y * fb_pitch fb :: u64) = y * fbP fb" "unat (of_nat x * 4 :: u64) = x * 4"
      "unat (of_nat (pixel_off fb x y) :: u64) = pixel_off fb x y"
    using f(2) by (simp_all add: unat_of_nat unat_word_ariths)
  have "checked_mul (of_nat y) (fb_pitch fb) = Some (of_nat y * fb_pitch fb)"
    "checked_mul (of_nat x) 4 = Some (of_nat x * 4 :: u64)"
    using u by (simp_all add: checked_mul_eq_Some)
  moreover have "checked_add (of_nat y * fb_pitch fb) (of_nat x * 4) = Some (of_nat (pixel_off fb x y) :: u64)"
    unfolding checked_add_eq_Some u by (simp add: pixel_off_def)
  ultimately show ?thesis by (simp add: put_pixel_def pa_def)
qed

lemma paint_concat: "paint fb v (concat (map g xs)) m = fold (\<lambda>x. paint fb v (g x)) xs m"
  by (induction xs arbitrary: m) (simp_all add: paint_append, simp add: paint_def)

lemma write_pixel_eq:
  assumes "fb_ok fb" "framebuffer s = Some fb" "x1 \<le> fb_width fb" "y1 \<le> fb_height fb"
  shows "write_pixel (x0, y0) (x1, y1) pixel s = Some (s\<lparr>vram := paint fb (pixel_word pixel)
    (concat (map (\<lambda>y. map (\<lambda>x. (x, y)) [unat x0..<unat x1]) [unat y0..<unat y1])) (vram s)\<rparr>)"
proof -
  let ?xs = "[unat x0..<unat x1]" and ?ys = "[unat y0..<unat y1]" and ?v = "pixel_word pixel"
  have le: "unat x1 \<le> fbW fb" "unat y1 \<le> fbH fb" using assms(3,4) by (simp_all add: word_le_nat_alt)
  have row: "for_each (put_pixel fb pixel y) ?xs m = Some (paint fb ?v (map (\<lambda>x. (x, y)) ?xs) m)" if "y < fbH fb" for y m
  proof -
    have "for_each (put_pixel fb pixel y) ?xs m = Some (fold (\<lambda>x m. wr32 m (pa fb x y) ?v) ?xs m)"
      using for_each_fold [of "\<lambda>_. True" m ?xs "put_pixel fb pixel y" "\<lambda>x m. wr32 m (pa fb x y) ?v"]
        put_pixel_eq [OF assms(1) _ that] le(1) by simp
    then show ?thesis by (simp add: paint_def fold_map comp_def)
  qed
  have "for_each (\<lambda>y. for_each (put_pixel fb pixel y) ?xs) ?ys (vram s)
      = Some (fold (\<lambda>y. paint fb ?v (map (\<lambda>x. (x, y)) ?xs)) ?ys (vram s))"
    using for_each_fold [of "\<lambda>_. True" "vram s" ?ys "\<lambda>y. for_each (put_pixel fb pixel y) ?xs"
        "\<lambda>y. paint fb ?v (map (\<lambda>x. (x, y)) ?xs)"] row le(2) by simp
  then show ?thesis
    by (simp add: write_pixel_def assms(2) paint_concat)
qed

text \<open>A loop whose passes each paint some pixels paints them all.\<close>

lemma paint_loop:
  assumes "\<And>x m. x \<in> set xs \<Longrightarrow> body x (s\<lparr>vram := m\<rparr>) = Some (s\<lparr>vram := paint fb v (g x) m\<rparr>)"
  shows "for_each body xs s = Some (s\<lparr>vram := paint fb v (concat (map g xs)) (vram s)\<rparr>)"
proof -
  have "for_each body xs (s\<lparr>vram := m\<rparr>) = Some (s\<lparr>vram := paint fb v (concat (map g xs)) m\<rparr>)" for m
    using assms by (induction xs arbitrary: m) (simp_all add: paint_append, simp add: paint_def)
  from this [of "vram s"] show ?thesis by simp
qed

definition glyph_dot :: "nat \<Rightarrow> nat \<Rightarrow> nat \<Rightarrow> bool" where
  "glyph_dot c l i \<longleftrightarrow> FONT8X16 ! c ! l AND drop_bit i 0x80 \<noteq> 0"

definition row_dots :: "nat \<Rightarrow> nat list \<Rightarrow> nat \<Rightarrow> nat \<Rightarrow> (nat \<times> nat) list" where
  "row_dots c ls x y = concat (map (\<lambda>l. concat (map (\<lambda>i. if glyph_dot c l i then [(x + i, y + l)] else []) [0..<8])) ls)"

abbreviation dots :: "nat \<Rightarrow> nat \<Rightarrow> nat \<Rightarrow> (nat \<times> nat) list" where
  "dots c x y \<equiv> row_dots c [0..<16] x y"

definition white :: u32 where "white = pixel_word (255, 255, 255)"

text \<open>Some rows of a character, in any order.\<close>

lemma draw_rows:
  assumes "fb_ok fb" "framebuffer s = Some fb" "c < 128" "set ls \<subseteq> {..<16}"
    and "unat (POSITION_X s) + 8 \<le> fbW fb" "unat (POSITION_Y s) + 16 \<le> fbH fb"
  shows "for_each (draw_row c) ls s =
    Some (s\<lparr>vram := paint fb white (row_dots c ls (unat (POSITION_X s)) (unat (POSITION_Y s))) (vram s)\<rparr>)"
  unfolding row_dots_def
proof (rule paint_loop)
  fix l m assume "l \<in> set ls"
  then have l: "l < 16" using assms(4) by auto
  let ?s = "s\<lparr>vram := m\<rparr>" and ?X = "unat (POSITION_X s)" and ?Y = "unat (POSITION_Y s)"
  note lim = fb_size_limits [of fb]
  have dot: "draw_dot l i (?s\<lparr>vram := m'\<rparr>) = Some (?s\<lparr>vram := paint fb white [(?X + i, ?Y + l)] m'\<rparr>)"
    if i: "i < 8" for i m'
  proof -
    have u: "unat (of_nat i :: u64) = i" "unat (of_nat l :: u64) = l" using i l by (simp_all add: unat_of_nat)
    let ?x = "POSITION_X s + of_nat i" and ?y = "POSITION_Y s + of_nat l"
    have xy: "unat ?x = ?X + i" "unat ?y = ?Y + l" using assms(5,6) i l lim u by (simp_all add: unat_word_ariths)
    then have xy1: "unat (?x + 1) = ?X + i + 1" "unat (?y + 1) = ?Y + l + 1"
      using assms(5,6) i l lim by (simp_all add: unat_word_ariths)
    have a: "checked_add (POSITION_X s) (of_nat i) = Some ?x" "checked_add (POSITION_Y s) (of_nat l) = Some ?y"
      "checked_add ?x 1 = Some (?x + 1)" "checked_add ?y 1 = Some (?y + 1)"
      using xy xy1 u by (simp_all only: checked_add_eq_Some unat_1)
    have "?x + 1 \<le> fb_width fb" "?y + 1 \<le> fb_height fb"
      using assms(5,6) i l by (simp_all add: word_le_nat_alt xy1 del: add_2_eq_Suc')
    then show ?thesis
      using a assms(2) by (simp add: draw_dot_def write_pixel_eq [OF assms(1)] xy xy1 white_def)
  qed
  have "for_each (\<lambda>i s. if FONT8X16 ! c ! l AND drop_bit i 0x80 \<noteq> 0 then draw_dot l i s else Some s) [0..<8] ?s
      = Some (?s\<lparr>vram := paint fb white (concat (map (\<lambda>i. if glyph_dot c l i then [(?X + i, ?Y + l)] else []) [0..<8])) (vram ?s)\<rparr>)"
    by (rule paint_loop) (use dot in \<open>auto simp: glyph_dot_def paint_def\<close>)
  then show "draw_row c l ?s
      = Some (s\<lparr>vram := paint fb white (concat (map (\<lambda>i. if glyph_dot c l i then [(?X + i, ?Y + l)] else []) [0..<8])) m\<rparr>)"
    using assms(3) by (simp add: draw_row_def)
qed

lemma draw_char_panics: "128 \<le> c \<Longrightarrow> for_each (draw_row c) [0..<16] s = None"
  by (simp add: upt_rec draw_row_def)

lemma set_row_dots: "(a, b) \<in> set (concat (map (\<lambda>i. if P i then [(x + i, y)] else []) [0..<n]))
    \<longleftrightarrow> x \<le> a \<and> a < x + n \<and> b = y \<and> P (a - x)"
  by (induction n) (auto simp: less_Suc_eq)

lemma set_row_dots_iff:
  "(a, b) \<in> set (row_dots c ls x y) \<longleftrightarrow> x \<le> a \<and> a < x + 8 \<and> y \<le> b \<and> b - y \<in> set ls \<and> glyph_dot c (b - y) (a - x)"
  by (induction ls) (auto simp: row_dots_def set_row_dots simp del: set_concat)

lemma set_dots: "(a, b) \<in> set (dots c x y) \<longleftrightarrow> x \<le> a \<and> a < x + 8 \<and> y \<le> b \<and> b < y + 16 \<and> glyph_dot c (b - y) (a - x)"
  by (auto simp: set_row_dots_iff)

section \<open>Scrolling\<close>

text \<open>The bytes of the framebuffer move up by sixteen lines, and the last sixteen lines are cleared.\<close>

definition scrolled :: "fb_info \<Rightarrow> mem \<Rightarrow> mem" where
  "scrolled fb m = (\<lambda>b. let k = unat (b - fb_addr fb) in
     if k < (fbH fb - 16) * fbP fb then m (b + of_nat (16 * fbP fb))
     else if k < fb_bytes fb then 0 else m b)"

lemma copy_then_clear:
  assumes "r + sc < 2 ^ 64"
  shows "mem_fill (mem_copy m (a + of_nat sc) a r) (a + of_nat r) 0 sc =
    (\<lambda>b. let k = unat (b - a) in if k < r then m (b + of_nat sc) else if k < r + sc then 0 else m b)"
proof
  fix b
  let ?k = "unat (b - a)"
  have r: "unat (of_nat r :: u64) = r" using assms by (simp add: unat_of_nat)
  have d: "b - (a + of_nat r) = (b - a) - of_nat r" by simp
  have "unat (b - (a + of_nat r)) < sc \<longleftrightarrow> r \<le> ?k \<and> ?k < r + sc"
  proof (cases "r \<le> ?k")
    case True
    then have "unat (b - (a + of_nat r)) = ?k - r" unfolding d by (simp add: unat_sub_if' r)
    with True show ?thesis by linarith
  next
    case False
    then have "unat (b - (a + of_nat r)) = 2 ^ 64 + ?k - r" unfolding d by (simp add: unat_sub_if' r)
    with False assms show ?thesis by linarith
  qed
  then show "mem_fill (mem_copy m (a + of_nat sc) a r) (a + of_nat r) 0 sc b =
    (let k = unat (b - a) in if k < r then m (b + of_nat sc) else if k < r + sc then 0 else m b)"
    by (auto simp: mem_fill_def mem_copy_def Let_def algebra_simps)
qed

lemma scroll_framebuffer_eq:
  assumes "fb_ok fb"
  shows "scroll_framebuffer (fb_addr fb) (fb_pitch fb) (fb_height fb) 16 m = Some (scrolled fb m)"
proof -
  let ?sc = "16 * fbP fb" and ?tot = "fbP fb * fbH fb" and ?rest = "(fbH fb - 16) * fbP fb"
  have H: "16 \<le> fbH fb" and tot: "?tot < 2 ^ 64" and sum: "?rest + ?sc = ?tot"
    using assms fb_bytes_bound [OF assms]
    by (auto simp: fb_ok_def fb_bytes_def algebra_simps simp flip: distrib_left mult_Suc)
  have rest: "?rest < 2 ^ 64" and sc: "?sc < 2 ^ 64" using tot sum by linarith+
  have u: "unat (of_nat ?sc :: u64) = ?sc" "unat (of_nat ?tot :: u64) = ?tot" "unat (of_nat ?rest :: u64) = ?rest"
    by (rule u64_of_nat, rule sc) (rule u64_of_nat, rule tot, rule u64_of_nat, rule rest)
  have c: "checked_mul (fb_pitch fb) 16 = Some (of_nat ?sc)" "checked_mul (fb_pitch fb) (fb_height fb) = Some (of_nat ?tot)"
    "checked_sub (of_nat ?tot) (of_nat ?sc) = Some (of_nat ?rest :: u64)"
    unfolding checked_mul_eq_Some checked_sub_eq_Some u using sum by simp_all
  have "mem_fill (mem_copy m (fb_addr fb + of_nat ?sc) (fb_addr fb) ?rest) (fb_addr fb + of_nat ?rest) 0 ?sc = scrolled fb m"
    using copy_then_clear [of ?rest ?sc m "fb_addr fb"] sum tot
    by (simp only: scrolled_def fb_bytes_def mult.commute [of "fbH fb"])
  then show ?thesis
    by (simp only: scroll_framebuffer_def c Option.bind.bind_lunit Let_def u)
qed

lemma scrolled_outside: "fb_bytes fb \<le> unat (b - fb_addr fb) \<Longrightarrow> scrolled fb m b = m b"
proof -
  assume *: "fb_bytes fb \<le> unat (b - fb_addr fb)"
  then have "\<not> unat (b - fb_addr fb) < (fbH fb - 16) * fbP fb"
    unfolding not_less fb_bytes_def by (rule order_trans [rotated]) (simp add: mult_le_mono1)
  with * show ?thesis by (simp add: scrolled_def)
qed

lemma px_scrolled:
  assumes "fb_ok fb" "x < fbW fb" "y < fbH fb"
  shows "px fb (scrolled fb m) x y = (if y + 16 < fbH fb then px fb m x (y + 16) else 0)"
proof -
  have bytes: "scrolled fb m (pa fb x y + of_nat i)
      = (if y + 16 < fbH fb then m (pa fb x (y + 16) + of_nat i) else 0)" if "i < 4" for i
  proof -
    note f = pixel_off_fits [OF assms]
    have k: "unat (pa fb x y + of_nat i - fb_addr fb) = pixel_off fb x y + i"
      using f that by (simp add: pa_def unat_of_nat flip: of_nat_add)
    show ?thesis
    proof (cases "y + 16 < fbH fb")
      case True
      then have "pixel_off fb x y + 4 \<le> (fbH fb - 16) * fbP fb"
        by (intro pixel_off_bound [OF assms(1,2)]) simp
      then show ?thesis
        using True k that by (simp add: scrolled_def pa_def pixel_off_def algebra_simps)
    next
      case False
      then have "(fbH fb - 16) * fbP fb \<le> y * fbP fb" by (intro mult_le_mono1) simp
      then have "\<not> pixel_off fb x y + i < (fbH fb - 16) * fbP fb"
        unfolding pixel_off_def not_less by (intro trans_le_add1)
      then show ?thesis using False k f that by (simp add: scrolled_def)
    qed
  qed
  have "mem_read (scrolled fb m) (pa fb x y) 4
      = (if y + 16 < fbH fb then mem_read m (pa fb x (y + 16)) 4 else replicate 4 0)"
    by (auto simp: mem_read_def bytes map_replicate_const intro!: nth_equalityI)
  then show ?thesis by (simp add: px_def rd32_def)
qed

section \<open>The screen as text\<close>

text \<open>
  Characters in cells of 8 by 16 pixels, in front of what the framebuffer showed before (the boot loader's
  picture, the line \<open>kmain\<close> draws): dots of a glyph are white, every other pixel is the backdrop, which scrolls with
  the text. The cursor is the cell of the next character.
\<close>

record text_screen =
  cells :: "nat \<Rightarrow> nat \<Rightarrow> nat option"
  backdrop :: "nat \<Rightarrow> nat \<Rightarrow> u32"
  cur_row :: nat
  cur_col :: nat

definition text_newline :: "nat \<Rightarrow> text_screen \<Rightarrow> text_screen" where
  "text_newline H t =
     (if 16 * (cur_row t + 2) > H
      then t\<lparr>cells := \<lambda>r. cells t (r + 1), backdrop := \<lambda>x y. if y + 16 < H then backdrop t x (y + 16) else 0, cur_col := 0\<rparr>
      else t\<lparr>cur_row := cur_row t + 1, cur_col := 0\<rparr>)"

definition text_put :: "nat \<Rightarrow> text_screen \<Rightarrow> text_screen" where
  "text_put c t = t\<lparr>cells := (cells t)(cur_row t := (cells t (cur_row t))(cur_col t := Some c)), cur_col := cur_col t + 1\<rparr>"

definition text_char :: "nat \<Rightarrow> nat \<Rightarrow> nat \<Rightarrow> text_screen \<Rightarrow> text_screen" where
  "text_char W H c t =
     (if c = 10 then text_newline H t
      else text_put c (if 8 * (cur_col t + 2) > W then text_newline H t else t))"

definition shown :: "text_screen \<Rightarrow> nat \<Rightarrow> nat \<Rightarrow> u32" where
  "shown t x y =
     (case cells t (y div 16) (x div 8) of
        Some c \<Rightarrow> if glyph_dot c (y mod 16) (x mod 8) then white else backdrop t x y
      | None \<Rightarrow> backdrop t x y)"

definition cursor_ok :: "nat \<Rightarrow> nat \<Rightarrow> text_screen \<Rightarrow> bool" where
  "cursor_ok W H t \<longleftrightarrow> 8 * cur_col t \<le> W \<and> 16 * cur_row t + 16 \<le> H
     \<and> (\<forall>r c. cur_row t < r \<or> cur_row t = r \<and> cur_col t \<le> c \<longrightarrow> cells t r c = None)"

definition displays :: "fb_info \<Rightarrow> 'z termstate_scheme \<Rightarrow> text_screen \<Rightarrow> bool" where
  "displays fb s t \<longleftrightarrow> framebuffer s = Some fb \<and> cursor_ok (fbW fb) (fbH fb) t
     \<and> unat (POSITION_X s) = 8 * cur_col t \<and> unat (POSITION_Y s) = 16 * cur_row t
     \<and> (\<forall>x < fbW fb. \<forall>y < fbH fb. px fb (vram s) x y = shown t x y)"

definition same_outside :: "fb_info \<Rightarrow> mem \<Rightarrow> mem \<Rightarrow> bool" where
  "same_outside fb m m' \<longleftrightarrow> (\<forall>b. fb_bytes fb \<le> unat (b - fb_addr fb) \<longrightarrow> m' b = m b)"

lemma same_outside_refl [simp]: "same_outside fb m m"
  by (simp add: same_outside_def)

lemma same_outside_trans: "same_outside fb m m' \<Longrightarrow> same_outside fb m' m'' \<Longrightarrow> same_outside fb m m''"
  by (simp add: same_outside_def)

lemma fb_small:
  assumes "fb_ok fb"
  shows "fbW fb + 32 < 2 ^ 64" and "fbH fb + 32 < 2 ^ 64"
proof -
  have k: "4 * fbW fb \<le> fbP fb" "8 \<le> fbW fb" "16 \<le> fbH fb" "fbH fb * fbP fb < 2 ^ 64"
    using assms fb_bytes_bound [OF assms] by (simp_all add: fb_ok_def fb_bytes_def)
  have "16 * fbP fb \<le> fbH fb * fbP fb" by (rule mult_le_mono1) (rule k(3))
  moreover have "fbH fb * 32 \<le> fbH fb * fbP fb" by (rule mult_le_mono2) (use k in simp)
  ultimately show "fbW fb + 32 < 2 ^ 64" "fbH fb + 32 < 2 ^ 64" using k by linarith+
qed

lemma shown_newline:
  assumes "cursor_ok W H t" "y < H"
  shows "shown (text_newline H t) x y =
    (if 16 * (cur_row t + 2) > H then (if y + 16 < H then shown t x (y + 16) else 0) else shown t x y)"
proof (cases "16 * (cur_row t + 2) > H")
  case True
  have d: "(y + 16) div 16 = y div 16 + 1" "(y + 16) mod 16 = y mod 16" by simp_all
  show ?thesis
  proof (cases "y + 16 < H")
    case True
    with \<open>16 * (cur_row t + 2) > H\<close> d show ?thesis
      by (simp add: shown_def text_newline_def split: option.splits)
  next
    case False
    then have "16 * cur_row t \<le> y" using assms(1) by (simp add: cursor_ok_def)
    then have "cur_row t < y div 16 + 1" by (simp add: less_Suc_eq_le less_eq_div_iff_mult_less_eq mult.commute)
    then have "cells t (y div 16 + 1) c = None" for c using assms(1) by (simp add: cursor_ok_def)
    with \<open>16 * (cur_row t + 2) > H\<close> False show ?thesis
      by (simp add: shown_def text_newline_def)
  qed
qed (simp add: shown_def text_newline_def split: option.splits)

lemma cursor_ok_newline: "cursor_ok W H t \<Longrightarrow> cursor_ok W H (text_newline H t)"
  by (auto simp: cursor_ok_def text_newline_def)

lemma next_line_refines:
  assumes "fb_ok fb" "displays fb s t"
  shows "\<exists>s'. next_line fb s = Some s' \<and> displays fb s' (text_newline (fbH fb) t) \<and> same_outside fb (vram s) (vram s')"
proof -
  let ?y = "POSITION_Y s + 16"
  have D: "framebuffer s = Some fb" "cursor_ok (fbW fb) (fbH fb) t" "unat (POSITION_Y s) = 16 * cur_row t"
    "\<And>x y. x < fbW fb \<Longrightarrow> y < fbH fb \<Longrightarrow> px fb (vram s) x y = shown t x y"
    using assms(2) by (auto simp: displays_def)
  have "16 * cur_row t + 16 \<le> fbH fb" using D(2) by (simp add: cursor_ok_def)
  then have y: "unat ?y = 16 * cur_row t + 16" and y16: "unat (?y + 16) = 16 * cur_row t + 32"
    using fb_small [OF assms(1)] D(3) by (simp_all add: unat_word_ariths)
  have a: "checked_add (POSITION_Y s) 16 = Some ?y" "checked_add ?y 16 = Some (?y + 16)"
    "checked_sub ?y 16 = Some (POSITION_Y s)"
    unfolding checked_add_eq_Some checked_sub_eq_Some using y y16 D(3) by simp_all
  have below: "?y + 16 > fb_height fb \<longleftrightarrow> 16 * (cur_row t + 2) > fbH fb"
    unfolding word_less_nat_alt y16 by (simp add: add.commute)
  show ?thesis
  proof (cases "16 * (cur_row t + 2) > fbH fb")
    case True
    let ?s' = "s\<lparr>vram := scrolled fb (vram s), POSITION_X := 0, POSITION_Y := POSITION_Y s\<rparr>"
    have "next_line fb s = Some ?s'"
      unfolding next_line_def a Option.bind.bind_lunit below scroll_framebuffer_eq [OF assms(1)] using True by simp
    moreover have "displays fb ?s' (text_newline (fbH fb) t)"
      using True D cursor_ok_newline [OF D(2)]
      by (auto simp: displays_def px_scrolled [OF assms(1)] shown_newline [OF D(2)], simp_all add: text_newline_def)
    moreover have "same_outside fb (vram s) (vram ?s')"
      by (simp add: same_outside_def scrolled_outside)
    ultimately show ?thesis by blast
  next
    case False
    let ?s' = "s\<lparr>POSITION_X := 0, POSITION_Y := ?y\<rparr>"
    have "next_line fb s = Some ?s'"
      unfolding next_line_def a Option.bind.bind_lunit below using False by simp
    moreover have "displays fb ?s' (text_newline (fbH fb) t)"
      using False D cursor_ok_newline [OF D(2)] y
      by (auto simp: displays_def shown_newline [OF D(2)], simp_all add: text_newline_def)
    ultimately show ?thesis by (intro exI [of _ ?s']) simp
  qed
qed

text \<open>A character that fits is painted into the empty cell at the cursor.\<close>

lemma shown_put:
  assumes "cells t (cur_row t) (cur_col t) = None"
  shows "shown (text_put c t) x y =
    (if (x, y) \<in> set (dots c (8 * cur_col t) (16 * cur_row t)) then white else shown t x y)"
proof (cases "y div 16 = cur_row t \<and> x div 8 = cur_col t")
  case True
  then have "x = 8 * cur_col t + x mod 8" "y = 16 * cur_row t + y mod 16"
    by (metis mult_div_mod_eq)+
  then have "(x, y) \<in> set (dots c (8 * cur_col t) (16 * cur_row t)) \<longleftrightarrow> glyph_dot c (y mod 16) (x mod 8)"
    unfolding set_dots by (metis add_diff_cancel_left' le_add1 mod_less_divisor nat_add_left_cancel_less zero_less_numeral)
  with True assms show ?thesis by (simp add: shown_def text_put_def)
next
  case False
  have "x div 8 = cur_col t" if "8 * cur_col t \<le> x" "x < 8 * cur_col t + 8"
    using that by (intro div_nat_eqI) auto
  moreover have "y div 16 = cur_row t" if "16 * cur_row t \<le> y" "y < 16 * cur_row t + 16"
    using that by (intro div_nat_eqI) auto
  ultimately have "(x, y) \<notin> set (dots c (8 * cur_col t) (16 * cur_row t))"
    using False by (auto simp: set_dots)
  with False show ?thesis by (auto simp: shown_def text_put_def split: option.splits)
qed

lemma put_refines:
  assumes "fb_ok fb" "displays fb s t" "c < 128" "8 * cur_col t + 8 \<le> fbW fb"
  shows "\<exists>s'. do { s \<leftarrow> for_each (draw_row c) [0..<16] s; x \<leftarrow> checked_add (POSITION_X s) 8; Some (s\<lparr>POSITION_X := x\<rparr>) } = Some s'
    \<and> displays fb s' (text_put c t) \<and> same_outside fb (vram s) (vram s')"
proof -
  have D: "framebuffer s = Some fb" "cursor_ok (fbW fb) (fbH fb) t" "unat (POSITION_X s) = 8 * cur_col t"
    "unat (POSITION_Y s) = 16 * cur_row t" "\<And>x y. x < fbW fb \<Longrightarrow> y < fbH fb \<Longrightarrow> px fb (vram s) x y = shown t x y"
    using assms(2) by (auto simp: displays_def)
  let ?ps = "dots c (8 * cur_col t) (16 * cur_row t)" and ?x = "POSITION_X s + 8"
  let ?m = "paint fb white ?ps (vram s)"
  have Y: "16 * cur_row t + 16 \<le> fbH fb" using D(2) by (simp add: cursor_ok_def)
  have draw: "for_each (draw_row c) [0..<16] s = Some (s\<lparr>vram := ?m\<rparr>)"
    using draw_rows [OF assms(1) D(1) assms(3), of "[0..<16]"] assms(4) Y by (auto simp: D(3,4) atLeast0LessThan)
  have on: "on_screen fb ?ps"
    using assms(4) Y by (auto simp: on_screen_def set_dots)
  have x: "unat ?x = 8 * cur_col t + 8"
    using assms(4) fb_small [OF assms(1)] D(3) by (simp add: unat_word_ariths)
  then have a: "checked_add (POSITION_X s) 8 = Some ?x"
    unfolding checked_add_eq_Some using D(3) by simp
  have "cells t (cur_row t) (cur_col t) = None" using D(2) by (simp add: cursor_ok_def)
  then have "displays fb (s\<lparr>vram := ?m, POSITION_X := ?x\<rparr>) (text_put c t)"
    using D assms(4) x by (auto simp: displays_def px_paint [OF assms(1) on] shown_put, auto simp: text_put_def cursor_ok_def)
  moreover have "same_outside fb (vram s) ?m"
    using paint_outside [OF assms(1) on] by (simp add: same_outside_def)
  ultimately show ?thesis using draw a by (intro exI [of _ "s\<lparr>vram := ?m, POSITION_X := ?x\<rparr>"]) simp
qed

lemma print_char_refines:
  assumes "fb_ok fb" "displays fb s t" "c < 128"
  shows "\<exists>s'. print_char fb c s = Some s' \<and> displays fb s' (text_char (fbW fb) (fbH fb) c t)
    \<and> same_outside fb (vram s) (vram s')"
proof (cases "c = 10")
  case True
  then show ?thesis
    using next_line_refines [OF assms(1,2)] by (simp add: print_char_def text_char_def)
next
  case False
  have D: "cursor_ok (fbW fb) (fbH fb) t" "unat (POSITION_X s) = 8 * cur_col t"
    using assms(2) by (auto simp: displays_def)
  have r: "unat (POSITION_X s + 16) = 8 * cur_col t + 16"
    using D fb_small [OF assms(1)] by (simp add: cursor_ok_def unat_word_ariths)
  then have a: "checked_add (POSITION_X s) 16 = Some (POSITION_X s + 16)"
    unfolding checked_add_eq_Some using D(2) by simp
  have full: "POSITION_X s + 16 > fb_width fb \<longleftrightarrow> 8 * (cur_col t + 2) > fbW fb"
    unfolding word_less_nat_alt r by (simp add: add.commute)
  define t1 where "t1 = (if 8 * (cur_col t + 2) > fbW fb then text_newline (fbH fb) t else t)"
  obtain s1 where s1: "(if POSITION_X s + 16 > fb_width fb then next_line fb s else Some s) = Some s1"
    "displays fb s1 t1" "same_outside fb (vram s) (vram s1)"
    using next_line_refines [OF assms(1,2)] assms(2) unfolding full t1_def by (cases "8 * (cur_col t + 2) > fbW fb") auto
  have "8 * cur_col t1 + 8 \<le> fbW fb"
    using assms(1) by (auto simp: t1_def text_newline_def fb_ok_def)
  from put_refines [OF assms(1) s1(2) assms(3) this] obtain s2 where s2:
    "do { s \<leftarrow> for_each (draw_row c) [0..<16] s1; x \<leftarrow> checked_add (POSITION_X s) 8; Some (s\<lparr>POSITION_X := x\<rparr>) } = Some s2"
    "displays fb s2 (text_put c t1)" "same_outside fb (vram s1) (vram s2)" by blast
  have "print_char fb c s = Some s2"
    using False s1(1) s2(1) by (simp add: print_char_def a)
  with s2(2) same_outside_trans [OF s1(3) s2(3)] False show ?thesis
    by (intro exI [of _ s2]) (simp add: text_char_def t1_def)
qed

section \<open>What the console promises\<close>

definition text_print :: "nat \<Rightarrow> nat \<Rightarrow> nat list \<Rightarrow> text_screen \<Rightarrow> text_screen" where
  "text_print W H cs t = fold (text_char W H) cs t"

lemma print_chars_refine:
  assumes "fb_ok fb"
  shows "displays fb s t \<Longrightarrow> \<forall>c \<in> set cs. c < 128 \<Longrightarrow>
    \<exists>s'. for_each (print_char fb) cs s = Some s' \<and> displays fb s' (text_print (fbW fb) (fbH fb) cs t)
      \<and> same_outside fb (vram s) (vram s')"
proof (induction cs arbitrary: s t)
  case Nil
  then show ?case by (simp add: text_print_def)
next
  case (Cons c cs)
  from print_char_refines [OF assms Cons.prems(1)] Cons.prems(2) obtain s1 where s1:
    "print_char fb c s = Some s1" "displays fb s1 (text_char (fbW fb) (fbH fb) c t)" "same_outside fb (vram s) (vram s1)"
    by auto
  from Cons.IH [OF s1(2)] Cons.prems(2) obtain s2 where s2: "for_each (print_char fb) cs s1 = Some s2"
    "displays fb s2 (text_print (fbW fb) (fbH fb) cs (text_char (fbW fb) (fbH fb) c t))" "same_outside fb (vram s1) (vram s2)"
    by auto
  with s1(1) same_outside_trans [OF s1(3) s2(3)] show ?case
    by (intro exI [of _ s2]) (simp add: text_print_def)
qed

lemma print_framebuffer: "displays fb s t \<Longrightarrow> terminal_print cs s = for_each (print_char fb) cs s"
  by (simp add: terminal_print_def displays_def)

definition blank :: text_screen where
  "blank = \<lparr>cells = \<lambda>_ _. None, backdrop = \<lambda>_ _. 0, cur_row = 0, cur_col = 0\<rparr>"

lemma displays_blank:
  assumes "fb_ok fb" "framebuffer s = Some fb" "POSITION_X s = 0" "POSITION_Y s = 0"
    and "\<And>x y. x < fbW fb \<Longrightarrow> y < fbH fb \<Longrightarrow> px fb (vram s) x y = 0"
  shows "displays fb s blank"
  using assms by (simp add: displays_def blank_def cursor_ok_def shown_def fb_ok_def)

lemma px_zero [simp]: "px fb (\<lambda>_. 0) x y = 0"
  by (simp add: px_def rd32_def mem_read_def map_replicate_const)

text \<open>
  Property C7. The console refines the text screen: when the framebuffer shows a text screen, printing a string
  of ASCII characters returns, and the framebuffer then shows the text screen with the string written at its cursor,
  lines wrapped at the right edge and the screen scrolled at the bottom; no byte outside the framebuffer changes.
\<close>

theorem terminal_print_refines:
  assumes "fb_ok fb" and "displays fb s t" and "\<forall>c \<in> set cs. c < 128"
  shows "\<exists>s'. terminal_print cs s = Some s' \<and> displays fb s' (text_print (fbW fb) (fbH fb) cs t)
    \<and> same_outside fb (vram s) (vram s')"
  using print_chars_refine [OF assms] print_framebuffer [OF assms(2)] by simp

definition small_fb :: fb_info where
  "small_fb = \<lparr>fb_addr = 0x1000, fb_width = 64, fb_height = 40, fb_pitch = 260\<rparr>"

definition small_term :: termstate where
  "small_term = \<lparr>vram = \<lambda>_. 0, framebuffer = Some small_fb, POSITION_X = 0, POSITION_Y = 0\<rparr>"

lemma small_fb_ok: "fb_ok small_fb"
  by (simp add: fb_ok_def small_fb_def)

lemma small_displays: "displays small_fb small_term blank"
  by (rule displays_blank) (simp_all add: small_fb_ok, simp_all add: small_term_def)

theorem terminal_print_refines_witness:
  "\<exists>s'. terminal_print [79, 75, 10, 111, 107] small_term = Some s'
    \<and> displays small_fb s' (text_print 64 40 [79, 75, 10, 111, 107] blank)"
  using terminal_print_refines [OF small_fb_ok small_displays, of "[79, 75, 10, 111, 107]"]
  by (auto simp: small_fb_def)

text \<open>
  \<open>terminal_print\<close> panics exactly when the string has a character outside ASCII, which the font table has no
  row for.
\<close>

theorem terminal_print_panics:
  assumes "fb_ok fb" and "displays fb s t"
  shows "terminal_print cs s = None \<longleftrightarrow> (\<exists>c \<in> set cs. 128 \<le> c)"
proof (cases "\<exists>c \<in> set cs. 128 \<le> c")
  case False
  then show ?thesis using print_chars_refine [OF assms, of cs] print_framebuffer [OF assms(2), of cs] by fastforce
next
  case True
  then obtain as c bs where cs: "cs = as @ c # bs" and c: "128 \<le> c" and as: "\<forall>c \<in> set as. c < 128"
    using split_list_first_prop [of cs "\<lambda>c. 128 \<le> c"] by (metis not_le)
  from print_chars_refine [OF assms as] obtain s1 where s1: "for_each (print_char fb) as s = Some s1" by blast
  have "print_char fb c s1 = None"
    using c by (simp add: print_char_def draw_char_panics split: Option.bind_splits)
  then have "for_each (print_char fb) cs s = None"
    by (simp add: cs for_each_append s1)
  with True show ?thesis by (simp add: print_framebuffer [OF assms(2)])
qed

theorem terminal_print_panics_witness: "terminal_print [72, 233] small_term = None"
  using terminal_print_panics [OF small_fb_ok small_displays, of "[72, 233]"] by simp

text \<open>Reading a cell back: the printable character whose dots are the white pixels of the cell.\<close>

definition read_cell :: "fb_info \<Rightarrow> mem \<Rightarrow> nat \<Rightarrow> nat \<Rightarrow> nat option" where
  "read_cell fb m r c = find (\<lambda>k. \<forall>l \<in> set [0..<16]. \<forall>i \<in> set [0..<8].
     glyph_dot k l i \<longleftrightarrow> px fb m (8 * c + i) (16 * r + l) = white) [32..<127]"

lemma glyph_dot_bit: "i < 8 \<Longrightarrow> glyph_dot c l i \<longleftrightarrow> bit (FONT8X16 ! c ! l) (7 - i)"
proof -
  assume i: "i < 8"
  have "drop_bit i (push_bit 7 1 :: u8) = push_bit (7 - i) 1"
    using i by (intro bit_word_eqI) (auto simp: bit_simps simp del: push_bit_of_1)
  then have "drop_bit i (0x80 :: u8) = push_bit (7 - i) 1" by simp
  then show ?thesis
    using and_exp_eq_0_iff_not_bit [of "FONT8X16 ! c ! l" "7 - i"] by (simp add: glyph_dot_def push_bit_of_1)
qed

lemma same_dots:
  assumes "32 \<le> c" "c < 127" "32 \<le> d" "d < 127"
    and "\<And>l i. l < 16 \<Longrightarrow> i < 8 \<Longrightarrow> glyph_dot c l i = glyph_dot d l i"
  shows "c = d"
proof (rule glyph_inj [OF assms(1-4)])
  have "FONT8X16 ! c ! l = FONT8X16 ! d ! l" if "l < 16" for l
  proof (rule bit_word_eqI)
    fix n assume "n < LENGTH(8)"
    then show "bit (FONT8X16 ! c ! l) n = bit (FONT8X16 ! d ! l) n"
      using assms(5) [OF that, of "7 - n"] glyph_dot_bit [of "7 - n"] by simp
  qed
  then show "glyph c = glyph d"
    using assms(2,4) by (intro nth_equalityI) (simp_all add: glyph_def length_glyph)
qed

lemma find_self: "k \<in> set ks \<Longrightarrow> find (\<lambda>j. j = k) ks = Some k"
  by (induction ks) auto

lemma read_cell_shown:
  assumes "\<And>x y. x < fbW fb \<Longrightarrow> y < fbH fb \<Longrightarrow> px fb m x y = shown t x y"
    and "cells t r c = Some k" "32 \<le> k" "k < 127" "\<And>x y. backdrop t x y = 0"
    and "8 * c + 8 \<le> fbW fb" "16 * r + 16 \<le> fbH fb"
  shows "read_cell fb m r c = Some k"
proof -
  have px: "px fb m (8 * c + i) (16 * r + l) = white \<longleftrightarrow> glyph_dot k l i" if "l < 16" "i < 8" for l i
    using assms that by (simp add: shown_def white_def pixel_word_def)
  have "read_cell fb m r c = find (\<lambda>j. j = k) [32..<127]"
    unfolding read_cell_def
  proof (rule find_cong [OF refl])
    fix j assume "j \<in> set [32..<127]"
    then have j: "32 \<le> j" "j < 127" by (simp_all only: set_upt atLeastLessThan_iff)
    have "(\<forall>l\<in>set [0..<16]. \<forall>i\<in>set [0..<8]. glyph_dot j l i = (px fb m (8 * c + i) (16 * r + l) = white))
        \<longleftrightarrow> (\<forall>l < 16. \<forall>i < 8. glyph_dot j l i = glyph_dot k l i)"
      unfolding set_upt using px by auto
    also have "\<dots> \<longleftrightarrow> j = k"
      using same_dots [OF j assms(3,4)] by blast
    finally show "(\<forall>l\<in>set [0..<16]. \<forall>i\<in>set [0..<8]. glyph_dot j l i = (px fb m (8 * c + i) (16 * r + l) = white)) = (j = k)" .
  qed
  also have "\<dots> = Some k"
    using assms(3,4) by (intro find_self) (simp only: set_upt atLeastLessThan_iff)
  finally show ?thesis .
qed

text \<open>A line that fits the row of the cursor.\<close>

lemma text_print_line:
  assumes "8 * (cur_col t + length cs + 1) \<le> W" "10 \<notin> set cs"
  shows "text_print W H cs t = t\<lparr>cells := \<lambda>r c. if r = cur_row t \<and> cur_col t \<le> c \<and> c < cur_col t + length cs
      then Some (cs ! (c - cur_col t)) else cells t r c, cur_col := cur_col t + length cs\<rparr>"
  using assms
proof (induction cs arbitrary: t)
  case Nil
  have "(\<lambda>r c. if r = cur_row t \<and> cur_col t \<le> c \<and> c < cur_col t + length ([] :: nat list)
      then Some (([] :: nat list) ! (c - cur_col t)) else cells t r c) = cells t" by (auto simp: fun_eq_iff dest: leD)
  then show ?case by (simp add: text_print_def)
next
  case (Cons k ks)
  have step: "text_char W H k t = text_put k t"
    using Cons.prems by (auto simp: text_char_def)
  have put: "cur_col (text_put k t) = cur_col t + 1" "cur_row (text_put k t) = cur_row t"
    by (simp_all add: text_put_def)
  have "text_print W H (k # ks) t = text_print W H ks (text_put k t)"
    by (simp add: text_print_def step)
  also have "\<dots> = (text_put k t)\<lparr>cells := \<lambda>r c. if r = cur_row t \<and> cur_col t + 1 \<le> c \<and> c < cur_col t + 1 + length ks
      then Some (ks ! (c - (cur_col t + 1))) else cells (text_put k t) r c, cur_col := cur_col t + 1 + length ks\<rparr>"
    using Cons.IH [of "text_put k t"] Cons.prems put by (simp cong: if_cong)
  also have "(\<lambda>r c. if r = cur_row t \<and> cur_col t + 1 \<le> c \<and> c < cur_col t + 1 + length ks
        then Some (ks ! (c - (cur_col t + 1))) else cells (text_put k t) r c)
      = (\<lambda>r c. if r = cur_row t \<and> cur_col t \<le> c \<and> c < cur_col t + length (k # ks)
        then Some ((k # ks) ! (c - cur_col t)) else cells t r c)"
    by (auto simp: text_put_def fun_eq_iff nth_Cons' not_le le_less_Suc_eq Suc_le_eq)
  also have "(text_put k t)\<lparr>cells := \<lambda>r c. if r = cur_row t \<and> cur_col t \<le> c \<and> c < cur_col t + length (k # ks)
        then Some ((k # ks) ! (c - cur_col t)) else cells t r c, cur_col := cur_col t + 1 + length ks\<rparr>
      = t\<lparr>cells := \<lambda>r c. if r = cur_row t \<and> cur_col t \<le> c \<and> c < cur_col t + length (k # ks)
        then Some ((k # ks) ! (c - cur_col t)) else cells t r c, cur_col := cur_col t + length (k # ks)\<rparr>"
    by (simp add: text_put_def)
  finally show ?case .
qed

lemma pixel_word_black: "pixel_word (0, 0, 0) = 0"
  by (simp add: pixel_word_def)

lemma terminal_clear_eq:
  assumes "fb_ok fb" "framebuffer s = Some fb"
  shows "\<exists>m. terminal_clear s = Some (s\<lparr>vram := m\<rparr>) \<and> (\<forall>x < fbW fb. \<forall>y < fbH fb. px fb m x y = 0)"
proof -
  let ?ps = "concat (map (\<lambda>y. map (\<lambda>x. (x, y)) [0..<fbW fb]) [0..<fbH fb])"
  have "terminal_clear s = Some (s\<lparr>vram := paint fb 0 ?ps (vram s)\<rparr>)"
    using write_pixel_eq [OF assms order_refl order_refl, of 0 0 "(0, 0, 0)"] assms(2)
    by (simp add: terminal_clear_def pixel_word_black)
  moreover have "px fb (paint fb 0 ?ps (vram s)) x y = 0" if "x < fbW fb" "y < fbH fb" for x y
  proof -
    have "on_screen fb ?ps" by (auto simp: on_screen_def)
    moreover have "(x, y) \<in> set ?ps" using that by (auto intro!: bexI [of _ y])
    ultimately show ?thesis using px_paint [OF assms(1) _ that] by simp
  qed
  ultimately show ?thesis by blast
qed

text \<open>
  What is printed can be read off the screen: after \<open>terminal_clear\<close> on a fresh console, a line of
  printable characters that fits the first row stands there cell by cell, each character told from its white pixels.
\<close>

theorem screen_reads_back:
  assumes "fb_ok fb" and "framebuffer s = Some fb" and "POSITION_X s = 0" and "POSITION_Y s = 0"
    and "\<forall>c \<in> set cs. 32 \<le> c \<and> c < 127" and "8 * (length cs + 1) \<le> fbW fb"
  shows "\<exists>s0 s1. terminal_clear s = Some s0 \<and> terminal_print cs s0 = Some s1
    \<and> map (read_cell fb (vram s1) 0) [0..<length cs] = map Some cs"
proof -
  from terminal_clear_eq [OF assms(1,2)] obtain m where m: "terminal_clear s = Some (s\<lparr>vram := m\<rparr>)"
    "\<And>x y. x < fbW fb \<Longrightarrow> y < fbH fb \<Longrightarrow> px fb m x y = 0" by blast
  let ?s0 = "s\<lparr>vram := m\<rparr>" and ?t = "text_print (fbW fb) (fbH fb) cs blank"
  have "displays fb ?s0 blank"
    using assms(2-4) m(2) by (intro displays_blank [OF assms(1)]) simp_all
  moreover have "\<forall>c \<in> set cs. c < 128" using assms(5) by auto
  ultimately obtain s1 where s1: "terminal_print cs ?s0 = Some s1" "displays fb s1 ?t"
    using print_chars_refine [OF assms(1)] print_framebuffer by metis
  have line: "?t = blank\<lparr>cells := \<lambda>r c. if r = 0 \<and> c < length cs then Some (cs ! c) else None, cur_col := length cs\<rparr>"
  proof -
    have "10 \<notin> set cs" using assms(5) by auto
    with text_print_line [of blank cs "fbW fb" "fbH fb"] assms(6) show ?thesis
      by (simp add: blank_def cong: if_cong)
  qed
  have "read_cell fb (vram s1) 0 c = Some (cs ! c)" if c: "c < length cs" for c
  proof (rule read_cell_shown [of fb _ ?t])
    show "\<And>x y. x < fbW fb \<Longrightarrow> y < fbH fb \<Longrightarrow> px fb (vram s1) x y = shown ?t x y"
      using s1(2) by (simp add: displays_def)
    show "cells ?t 0 c = Some (cs ! c)" "\<And>x y. backdrop ?t x y = 0"
      unfolding line using c by (simp_all add: blank_def)
    show "32 \<le> cs ! c" "cs ! c < 127" using assms(5) c by simp_all
    show "8 * c + 8 \<le> fbW fb" "16 * 0 + 16 \<le> fbH fb" using assms(1,6) c by (simp_all add: fb_ok_def)
  qed
  then have "map (read_cell fb (vram s1) 0) [0..<length cs] = map Some cs"
    by (intro nth_equalityI) simp_all
  with m(1) s1(1) show ?thesis by blast
qed

theorem screen_reads_back_witness:
  "\<exists>s0 s1. terminal_clear small_term = Some s0 \<and> terminal_print [79, 75] s0 = Some s1
    \<and> map (read_cell small_fb (vram s1) 0) [0, 1] = [Some 79, Some 75]"
  using screen_reads_back [OF small_fb_ok, of small_term "[79, 75]"] by (simp add: small_term_def small_fb_def upt_rec)

end
