(* ===== verification/Console.thy ===== *)
theory Console
  imports Keyboard Mouse Terminal
begin

text \<open>
  Where the drivers meet the screen: the macros \<^verbatim>\<open>print!\<close> and \<^verbatim>\<open>println!\<close> of \<^verbatim>\<open>kernel/src/terminal/mod.rs\<close>, the
  messages of \<^verbatim>\<open>keyboard_usb.rs\<close> and \<^verbatim>\<open>mouse_usb.rs\<close> as the text they print, the reports on the boot loader's memory map of
  \<^verbatim>\<open>memory/mod.rs\<close>, and what an interrupt handler that prints does to a character the kernel is just drawing.
\<close>

section \<open>Formatted printing\<close>

text \<open>
  \<open>write_fmt\<close> hands the pieces of a message, literals and displayed arguments, to \<open>write_str\<close> one after the other. Integers are
  displayed in decimal.
\<close>

definition codes :: "string \<Rightarrow> nat list" where
  "codes = map of_char"

definition print_fmt :: "string list \<Rightarrow> 'z termstate_scheme \<Rightarrow> 'z termstate_scheme option" where
  "print_fmt pieces = for_each (\<lambda>p. terminal_print (codes p)) pieces"

definition newline :: string where "newline = [CHR 0x0A]"

definition println_fmt :: "string list \<Rightarrow> 'z termstate_scheme \<Rightarrow> 'z termstate_scheme option" where
  "println_fmt pieces t = do { t \<leftarrow> print_fmt pieces t; print_fmt [newline] t }"

fun dec_nat :: "nat \<Rightarrow> string" where
  "dec_nat n = (if n < 10 then [char_of (48 + n)] else dec_nat (n div 10) @ [char_of (48 + n mod 10)])"

declare dec_nat.simps [simp del]

definition dec_int :: "int \<Rightarrow> string" where
  "dec_int i = (if i < 0 then ''-'' @ dec_nat (nat (- i)) else dec_nat (nat i))"

section \<open>The messages of the drivers\<close>

definition button_name :: "mouse_button \<Rightarrow> string" where
  "button_name b = (case b of LeftButton \<Rightarrow> ''left'' | RightButton \<Rightarrow> ''right'' | MiddleButton \<Rightarrow> ''middle'')"

definition print_event :: "console_event \<Rightarrow> 'z termstate_scheme \<Rightarrow> 'z termstate_scheme option" where
  "print_event e =
     (case e of
        Typed ch \<Rightarrow> print_fmt [[ch]]
      | MouseButton b pressed x y \<Rightarrow>
          println_fmt [''Mouse '', button_name b, '' '', if pressed then ''pressed'' else ''released'', '' @ ('',
                       dec_int x, '', '', dec_int y, '')'']
      | MouseMove mx my x y \<Rightarrow>
          println_fmt [''Mouse move dx='', dec_int mx, '' dy='', dec_int my, '' pos=('', dec_int x, '', '', dec_int y, '')''])"

definition print_events :: "console_event list \<Rightarrow> 'z termstate_scheme \<Rightarrow> 'z termstate_scheme option" where
  "print_events es = for_each print_event es"

section \<open>The memory map\<close>

text \<open>\<open>test_get_request_memory_map\<close>, and the version for usable entries that \<open>kmain\<close> calls.\<close>

definition memory_map_line :: "mmap_entry \<Rightarrow> string list" where
  "memory_map_line e =
     [newline @ '' Base: '', dec_nat (unat (entry_base e)), '',  Type: '', cetak_entry_type (entry_type e), '', Length: '',
      dec_nat (unat (entry_length e))]"

definition test_get_request_memory_map :: "mmap_entry list option \<Rightarrow> 'z termstate_scheme \<Rightarrow> 'z termstate_scheme option" where
  "test_get_request_memory_map response t = do {
     t \<leftarrow> print_fmt [''MEMORY MAP FUNCTION DIPANGGIL!'' @ newline] t;
     case response of
       Some entries \<Rightarrow> do {
         t \<leftarrow> print_fmt [''MEMORY MAP ADA RESPONSE'' @ newline] t;
         for_each (\<lambda>e. print_fmt (memory_map_line e)) entries t
       }
     | None \<Rightarrow> print_fmt [''MEMORY MAP TIDAK ADA RESPONSE'' @ newline] t
   }"

definition test_get_request_memory_map_usable :: "mmap_entry list option \<Rightarrow> 'z termstate_scheme \<Rightarrow> 'z termstate_scheme option" where
  "test_get_request_memory_map_usable response t = do {
     t \<leftarrow> print_fmt [''MEMORY MAP FUNCTION DIPANGGIL!'' @ newline] t;
     case response of
       Some entries \<Rightarrow> do {
         t \<leftarrow> print_fmt [''MEMORY MAP ADA RESPONSE'' @ newline] t;
         for_each (\<lambda>e t. if entry_type e = USABLE
           then print_fmt (memory_map_line e @ ['', Total Frame '', dec_nat (unat (entry_length e) div 4096)]) t else Some t) entries t
       }
     | None \<Rightarrow> print_fmt [''MEMORY MAP TIDAK ADA RESPONSE'' @ newline] t
   }"

section \<open>Messages on the screen\<close>

text \<open>
  \<open>prints fb f cs\<close>: on a framebuffer that shows a text screen, \<open>f\<close> returns, the text \<open>cs\<close> stands on the screen at its
  cursor, and nothing outside the framebuffer has changed.
\<close>

definition prints :: "fb_info \<Rightarrow> ('z termstate_scheme \<Rightarrow> 'z termstate_scheme option) \<Rightarrow> nat list \<Rightarrow> bool" where
  "prints fb f cs \<longleftrightarrow> (\<forall>t scr. displays fb t scr \<longrightarrow>
     (\<exists>t'. f t = Some t' \<and> displays fb t' (text_print (fbW fb) (fbH fb) cs scr) \<and> same_outside fb (vram t) (vram t')))"

lemma prints_terminal: "fb_ok fb \<Longrightarrow> \<forall>c \<in> set cs. c < 128 \<Longrightarrow> prints fb (terminal_print cs) cs"
  unfolding prints_def using print_chars_refine print_framebuffer by metis

lemma prints_nothing: "prints fb Some []"
  by (simp add: prints_def text_print_def)

lemma prints_seq:
  fixes f g :: "'z termstate_scheme \<Rightarrow> 'z termstate_scheme option"
  assumes "prints fb f cs" "prints fb g ds"
  shows "prints fb (\<lambda>t. do { t \<leftarrow> f t; g t }) (cs @ ds)"
  unfolding prints_def
proof (intro allI impI)
  fix t :: "'z termstate_scheme" and scr assume "displays fb t scr"
  with assms(1) obtain t1 where t1: "f t = Some t1" "displays fb t1 (text_print (fbW fb) (fbH fb) cs scr)"
    "same_outside fb (vram t) (vram t1)" by (auto simp: prints_def)
  with assms(2) obtain t2 where "g t1 = Some t2"
    "displays fb t2 (text_print (fbW fb) (fbH fb) ds (text_print (fbW fb) (fbH fb) cs scr))" "same_outside fb (vram t1) (vram t2)"
    by (auto simp: prints_def)
  with t1 show "\<exists>t'. do { t \<leftarrow> f t; g t } = Some t' \<and> displays fb t' (text_print (fbW fb) (fbH fb) (cs @ ds) scr)
      \<and> same_outside fb (vram t) (vram t')"
    by (auto simp: text_print_def intro: same_outside_trans)
qed

lemma prints_each:
  assumes "\<And>x. x \<in> set xs \<Longrightarrow> prints fb (f x) (g x)"
  shows "prints fb (for_each f xs) (concat (map g xs))"
  using assms
proof (induction xs)
  case Nil
  have "for_each f [] = Some" by (simp add: fun_eq_iff)
  then show ?case by (simp add: prints_nothing)
next
  case (Cons x xs)
  have "for_each f (x # xs) = (\<lambda>t. do { t \<leftarrow> f x t; for_each f xs t })" by (simp add: fun_eq_iff)
  then show ?case using Cons prints_seq [of fb "f x" "g x"] by simp
qed

text \<open>Without a framebuffer nothing is printed.\<close>

lemma print_fmt_dark: "framebuffer t = None \<Longrightarrow> print_fmt ps t = Some t"
  by (induction ps) (simp_all add: print_fmt_def terminal_print_def)

lemma messages_dark:
  assumes "framebuffer t = None"
  shows "println_fmt ps t = Some t" "test_get_request_memory_map_usable response t = Some t"
proof -
  have "for_each (\<lambda>e t. if entry_type e = USABLE then print_fmt (f e) t else Some t) es t = Some t" for f and es :: "mmap_entry list"
    using assms by (induction es) (simp_all add: print_fmt_dark)
  then show "println_fmt ps t = Some t" "test_get_request_memory_map_usable response t = Some t"
    using assms by (simp_all add: println_fmt_def test_get_request_memory_map_usable_def print_fmt_dark split: option.splits)
qed

text \<open>All the kernel's own messages are ASCII.\<close>

abbreviation ascii :: "string \<Rightarrow> bool" where
  "ascii p \<equiv> (\<forall>c \<in> set p. of_char c < (128 :: nat))"

lemma ascii_dec_nat: "ascii (dec_nat n)"
  by (induction n rule: dec_nat.induct) (subst dec_nat.simps, auto simp: of_char_of)

lemma ascii_dec_int: "ascii (dec_int i)"
  by (simp add: dec_int_def ascii_dec_nat)

lemma prints_fmt: "fb_ok fb \<Longrightarrow> \<forall>p \<in> set ps. ascii p \<Longrightarrow> prints fb (print_fmt ps) (codes (concat ps))"
  unfolding print_fmt_def codes_def map_concat comp_def map_map [symmetric]
  by (auto intro!: prints_each prints_terminal)

lemma prints_line:
  assumes "fb_ok fb" "\<forall>p \<in> set ps. ascii p"
  shows "prints fb (println_fmt ps) (codes (concat ps @ newline))"
proof -
  have "prints fb (\<lambda>t. do { t \<leftarrow> print_fmt ps t; print_fmt [newline] t }) (codes (concat ps) @ codes (concat [newline]))"
    using assms by (intro prints_seq prints_fmt) (auto simp: newline_def)
  then show ?thesis by (simp add: println_fmt_def [abs_def] codes_def)
qed

text \<open>The number a decimal stands for.\<close>

definition num_of :: "string \<Rightarrow> nat" where
  "num_of = foldl (\<lambda>n c. 10 * n + (of_char c - 48)) 0"

lemma num_of_dec: "num_of (dec_nat n) = n"
proof (induction n rule: dec_nat.induct)
  case (1 n)
  then show ?case
    by (subst dec_nat.simps) (auto simp: num_of_def of_char_of)
qed

section \<open>From the report to the screen\<close>

definition event_text :: "console_event \<Rightarrow> string" where
  "event_text e =
     (case e of
        Typed ch \<Rightarrow> [ch]
      | MouseButton b pressed x y \<Rightarrow> ''Mouse '' @ button_name b @ '' '' @ (if pressed then ''pressed'' else ''released'')
          @ '' @ ('' @ dec_int x @ '', '' @ dec_int y @ '')'' @ newline
      | MouseMove mx my x y \<Rightarrow> ''Mouse move dx='' @ dec_int mx @ '' dy='' @ dec_int my @ '' pos=('' @ dec_int x @ '', ''
          @ dec_int y @ '')'' @ newline)"

lemma prints_event:
  assumes "fb_ok fb" "\<And>ch. e = Typed ch \<Longrightarrow> of_char ch < (128 :: nat)"
  shows "prints fb (print_event e) (codes (event_text e))"
proof (cases e)
  case (Typed ch)
  then show ?thesis
    using prints_fmt [OF assms(1), of "[[ch]]"] assms(2) by (simp add: print_event_def [abs_def] event_text_def)
next
  case (MouseButton b p x y)
  have "ascii (button_name b)" by (simp add: button_name_def split: mouse_button.splits)
  then show ?thesis
    using prints_line [OF assms(1), of "[''Mouse '', button_name b, '' '', if p then ''pressed'' else ''released'', '' @ ('',
        dec_int x, '', '', dec_int y, '')'']"] ascii_dec_int
    by (cases p) (simp_all add: print_event_def [abs_def] event_text_def MouseButton)
next
  case (MouseMove mx my x y)
  then show ?thesis
    using prints_line [OF assms(1), of "[''Mouse move dx='', dec_int mx, '' dy='', dec_int my, '' pos=('', dec_int x, '', '',
        dec_int y, '')'']"] ascii_dec_int
    by (simp add: print_event_def [abs_def] event_text_def)
qed

lemma prints_events:
  assumes "fb_ok fb" "\<And>ch. Typed ch \<in> set es \<Longrightarrow> of_char ch < (128 :: nat)"
  shows "prints fb (print_events es) (codes (concat (map event_text es)))"
  unfolding print_events_def [abs_def] codes_def map_concat map_map comp_def
  by (intro prints_each prints_event [OF assms(1), unfolded codes_def]) (use assms(2) in auto)

lemma typed_ascii: "hid_keycode_to_ascii k m = Some ch \<Longrightarrow> of_char ch < (128 :: nat)"
proof -
  assume "hid_keycode_to_ascii k m = Some ch"
  then have "ch \<in> snd ` set key_table" using key_in_table by force
  moreover have "\<forall>ch \<in> snd ` set key_table. of_char ch < (128 :: nat)" by code_simp
  ultimately show ?thesis by blast
qed

text \<open>
  A report of the keyboard can never bring the kernel down through the console: whatever its six key codes are, the
  characters they type are printed and stand on the screen.
\<close>

lemma typed_chars: "ch \<in> set (typed prev m ks) \<Longrightarrow> \<exists>k. hid_keycode_to_ascii k m = Some ch"
  by (induction ks) (auto split: if_splits option.splits)

lemma prints_typed:
  assumes "fb_ok fb"
  shows "prints fb (print_events (map Typed (typed prev m ks))) (codes (typed prev m ks))"
proof -
  have "concat (map event_text (map Typed cs)) = cs" for cs
    by (induction cs) (simp_all add: event_text_def)
  moreover have "of_char ch < (128 :: nat)" if "Typed ch \<in> set (map Typed (typed prev m ks))" for ch
    using that by (auto dest!: typed_chars typed_ascii)
  ultimately show ?thesis using prints_events [OF assms, of "map Typed (typed prev m ks)"] by simp
qed

theorem report_on_screen:
  assumes "fb_ok fb" and "displays fb t scr" and "kbd_report_pending s" and "kbd_state s = Some st"
    and "xhci_instance s = Some x" and "doorbells_ok io x"
  shows "\<exists>s' es t'. poll_keyboard io s = Some s' \<and> console s' = console s @ es \<and> print_events es t = Some t'
    \<and> (let r = read_keyboard_report (ram s) (k_report_buf_virt st) in
       displays fb t' (text_print (fbW fb) (fbH fb) (codes (typed (last_keycodes st) (modifier r) (keycodes r))) scr))
    \<and> same_outside fb (vram t) (vram t')"
proof -
  let ?r = "read_keyboard_report (ram s) (k_report_buf_virt st)"
  let ?cs = "typed (last_keycodes st) (modifier ?r) (keycodes ?r)"
  obtain i c m where "normal_put (k_ring_virt st) (k_ring_phys st) (k_report_buf_phys st, 8)
      (k_enqueue_index st, k_cycle_state st, ram s) = (i, c, m)" by (metis prod_cases3)
  with poll_keyboard_step [OF assms(3-6)] obtain s' where s': "poll_keyboard io s = Some s'" "console s' = console s @ map Typed ?cs"
    by (auto simp: Let_def)
  from prints_typed [OF assms(1)] assms(2) obtain t' where "print_events (map Typed ?cs) t = Some t'"
    "displays fb t' (text_print (fbW fb) (fbH fb) (codes ?cs) scr)" "same_outside fb (vram t) (vram t')"
    unfolding prints_def by blast
  with s' show ?thesis by (auto simp: Let_def)
qed

text \<open>A run of reports, and what it types.\<close>

fun typed_run :: "u8 list \<Rightarrow> KeyboardReport list \<Rightarrow> string" where
  "typed_run prev [] = []"
| "typed_run prev (r # rs) = typed prev (modifier r) (keycodes r) @ typed_run (keycodes r) rs"

lemma keyboard_run:
  "kbd_state s = Some st \<Longrightarrow> console (fold keyboard_handle_report rs s) = console s @ map Typed (typed_run (last_keycodes st) rs)"
proof (induction rs arbitrary: s st)
  case (Cons r rs)
  let ?s = "keyboard_handle_report r s" and ?st = "st\<lparr>last_keycodes := keycodes r\<rparr>"
  have "kbd_state ?s = Some ?st" "console ?s = console s @ map Typed (typed (last_keycodes st) (modifier r) (keycodes r))"
    using Cons.prems by (simp_all add: keyboard_handle_report_def)
  with Cons.IH [of ?s ?st] show ?case by simp
qed simp

text \<open>Printed one by one or as one string, the characters come out the same.\<close>

lemma print_typed:
  assumes "fb_ok fb"
  shows "displays fb t scr \<Longrightarrow> ascii cs \<Longrightarrow> print_events (map Typed cs) t = terminal_print (codes cs) t"
proof (induction cs arbitrary: t scr)
  case (Cons ch cs)
  from print_char_refines [OF assms Cons.prems(1), of "of_char ch"] Cons.prems(2) obtain t1 where t1:
    "print_char fb (of_char ch) t = Some t1" "displays fb t1 (text_char (fbW fb) (fbH fb) (of_char ch) scr)" by auto
  have "print_events (map Typed cs) t1 = terminal_print (codes cs) t1"
    using Cons.IH [OF t1(2)] Cons.prems(2) by simp
  with t1 print_framebuffer [OF Cons.prems(1)] print_framebuffer [OF t1(2)] show ?case
    by (simp add: print_events_def print_event_def print_fmt_def codes_def)
qed (simp add: print_events_def codes_def terminal_print_def split: option.splits)

text \<open>
  Property C30. What is typed can be read off the screen: after \<open>terminal_clear\<close> on a fresh console, any run of keyboard reports that types
  printable characters fitting the first row leaves them there cell by cell, each character told from its
  white pixels.
\<close>

theorem typing_reads_back:
  assumes "kbd_state s = Some st" and "console s = []" and "text = typed_run (last_keycodes st) rs"
    and "fb_ok fb" and "framebuffer t = Some fb" and "POSITION_X t = 0" and "POSITION_Y t = 0"
    and "\<forall>ch \<in> set text. 32 \<le> (of_char ch :: nat) \<and> of_char ch < (127 :: nat)" and "8 * (length text + 1) \<le> fbW fb"
  shows "\<exists>t0 t1. terminal_clear t = Some t0 \<and> print_events (console (fold keyboard_handle_report rs s)) t0 = Some t1
    \<and> map (read_cell fb (vram t1) 0) [0..<length text] = map (\<lambda>ch. Some (of_char ch)) text"
proof -
  have es: "console (fold keyboard_handle_report rs s) = map Typed text"
    using keyboard_run [OF assms(1), of rs] assms(2,3) by simp
  have ok: "\<forall>c \<in> set (codes text). 32 \<le> c \<and> c < 127" "8 * (length (codes text) + 1) \<le> fbW fb"
    using assms(8,9) by (auto simp: codes_def)
  obtain m where m: "terminal_clear t = Some (t\<lparr>vram := m\<rparr>)" "\<And>x y. x < fbW fb \<Longrightarrow> y < fbH fb \<Longrightarrow> px fb m x y = 0"
    using terminal_clear_eq [OF assms(4,5)] by blast
  have "displays fb (t\<lparr>vram := m\<rparr>) blank"
    using assms(5-7) m(2) by (intro displays_blank [OF assms(4)]) simp_all
  moreover have "ascii text" using assms(8) by (meson less_trans numeral_less_iff semiring_norm(76) semiring_norm(78) semiring_norm(80) semiring_norm(81))
  ultimately have "print_events (map Typed text) (t\<lparr>vram := m\<rparr>) = terminal_print (codes text) (t\<lparr>vram := m\<rparr>)"
    using print_typed [OF assms(4)] by blast
  moreover obtain t1 where "terminal_print (codes text) (t\<lparr>vram := m\<rparr>) = Some t1"
    "map (read_cell fb (vram t1) 0) [0..<length (codes text)] = map Some (codes text)"
    using screen_reads_back [OF assms(4-7) ok] m(1) by auto
  ultimately show ?thesis using m(1) es by (auto simp: codes_def comp_def)
qed

text \<open>The keys H (with Shift), I and 1, pressed one after the other.\<close>

theorem typing_reads_back_witness:
  "\<exists>t0 t1. terminal_clear small_term = Some t0
    \<and> print_events (console (fold keyboard_handle_report
        [\<lparr>modifier = 2, reserved = 0, keycodes = [0x0B, 0, 0, 0, 0, 0]\<rparr>, \<lparr>modifier = 0, reserved = 0, keycodes = [0x0B, 0x0C, 0, 0, 0, 0]\<rparr>,
         \<lparr>modifier = 0, reserved = 0, keycodes = [0x1E, 0, 0, 0, 0, 0]\<rparr>] kbd_example)) t0 = Some t1
    \<and> map (read_cell small_fb (vram t1) 0) [0..<3] = [Some 72, Some 105, Some 49]"
proof -
  let ?rs = "[\<lparr>modifier = 2, reserved = 0, keycodes = [0x0B, 0, 0, 0, 0, 0]\<rparr>, \<lparr>modifier = 0, reserved = 0, keycodes = [0x0B, 0x0C, 0, 0, 0, 0]\<rparr>,
      \<lparr>modifier = 0, reserved = 0, keycodes = [0x1E, 0, 0, 0, 0, 0]\<rparr>]"
  let ?st = "the (kbd_state kbd_example)"
  have ex: "kbd_state kbd_example = Some ?st" "console kbd_example = []" "last_keycodes ?st = [5, 0, 0, 0, 0, 0]"
    by (simp_all add: kbd_example_def usb_start_def kernel.extend_def)
  have k: "hid_keycode_to_ascii 0x0B 2 = Some CHR ''H''" "hid_keycode_to_ascii 0x0C 0 = Some CHR ''i''"
    "hid_keycode_to_ascii 0x1E 0 = Some CHR ''1''" by code_simp+
  then have hi: "''Hi1'' = typed_run (last_keycodes ?st) ?rs" by (simp add: ex(3))
  have fb: "framebuffer small_term = Some small_fb" "POSITION_X small_term = 0" "POSITION_Y small_term = 0"
    "\<forall>ch \<in> set ''Hi1''. 32 \<le> (of_char ch :: nat) \<and> of_char ch < (127 :: nat)" "8 * (length ''Hi1'' + 1) \<le> fbW small_fb"
    by (simp_all add: small_term_def small_fb_def)
  have n: "length ''Hi1'' = 3" by simp
  show ?thesis
    using typing_reads_back [OF ex(1,2) hi small_fb_ok fb, unfolded n] by simp
qed

section \<open>A character interrupted\<close>

text \<open>
  Nothing keeps the handler of vector 44 out of \<open>terminal_print\<close>, and both use the same statics. Here it runs between two
  rows of a character: \<open>print_char\<close> with the handler's own printing \<open>isr\<close> after the first \<open>k\<close> rows.
\<close>

definition print_char_interrupted :: "fb_info \<Rightarrow> nat \<Rightarrow> nat \<Rightarrow> ('z termstate_scheme \<Rightarrow> 'z termstate_scheme option)
    \<Rightarrow> 'z termstate_scheme \<Rightarrow> 'z termstate_scheme option" where
  "print_char_interrupted fb c k isr s = do {
     right \<leftarrow> checked_add (POSITION_X s) 16;
     s \<leftarrow> (if right > fb_width fb then next_line fb s else Some s);
     s \<leftarrow> for_each (draw_row c) [0..<k] s;
     s \<leftarrow> isr s;
     s \<leftarrow> for_each (draw_row c) [k..<16] s;
     x \<leftarrow> checked_add (POSITION_X s) 8;
     Some (s\<lparr>POSITION_X := x\<rparr>)
   }"

lemma row_dots_cell:
  assumes "set ls \<subseteq> {..<16}"
  shows "(x, y) \<in> set (row_dots c ls (8 * col) (16 * row)) \<longleftrightarrow>
    x div 8 = col \<and> y div 16 = row \<and> y mod 16 \<in> set ls \<and> glyph_dot c (y mod 16) (x mod 8)"
proof -
  have "8 * col \<le> x \<and> x < 8 * col + 8 \<longleftrightarrow> x div 8 = col" by (auto intro: div_nat_eqI)
  moreover have "16 * row \<le> y \<and> y - 16 * row \<in> set ls \<longleftrightarrow> y div 16 = row \<and> y mod 16 \<in> set ls"
  proof
    assume *: "16 * row \<le> y \<and> y - 16 * row \<in> set ls"
    then have "y - 16 * row < 16" using assms by auto
    with * have "y div 16 = row" by (intro div_nat_eqI) auto
    with * show "y div 16 = row \<and> y mod 16 \<in> set ls" by (auto simp: modulo_nat_def algebra_simps)
  next
    assume "y div 16 = row \<and> y mod 16 \<in> set ls"
    then show "16 * row \<le> y \<and> y - 16 * row \<in> set ls" by (auto simp: modulo_nat_def algebra_simps)
  qed
  ultimately show ?thesis
    by (auto simp: set_row_dots_iff modulo_nat_def algebra_simps)
qed

lemma all_rows: "set [0..<16] \<subseteq> {..<16 :: nat}"
  by (simp add: atLeast0LessThan)

lemma position_steps:
  assumes "fb_ok fb" "unat (POSITION_X s) = 8 * col" "8 * col + 16 \<le> fbW fb"
  shows "checked_add (POSITION_X s) 16 = Some (POSITION_X s + 16)" "\<not> POSITION_X s + 16 > fb_width fb"
    "checked_add (POSITION_X s) 8 = Some (POSITION_X s + 8)" "unat (POSITION_X s + 8) = 8 * (col + 1)"
proof -
  have u: "unat (POSITION_X s + 16) = 8 * col + 16" "unat (POSITION_X s + 8) = 8 * col + 8"
    using assms fb_small [OF assms(1)] by (simp_all add: unat_word_ariths)
  then show "checked_add (POSITION_X s) 16 = Some (POSITION_X s + 16)" "checked_add (POSITION_X s) 8 = Some (POSITION_X s + 8)"
    "unat (POSITION_X s + 8) = 8 * (col + 1)"
    using assms(2) by (simp_all add: checked_add_eq_Some)
  show "\<not> POSITION_X s + 16 > fb_width fb" using u(1) assms(3) by (simp add: word_less_nat_alt)
qed

lemma print_char_in_line:
  assumes "fb_ok fb" "framebuffer s = Some fb" "c < 128" "c \<noteq> 10" "unat (POSITION_X s) = 8 * col" "unat (POSITION_Y s) = 16 * row"
    and "8 * col + 16 \<le> fbW fb" "16 * row + 16 \<le> fbH fb"
  shows "print_char fb c s = Some (s\<lparr>vram := paint fb white (dots c (8 * col) (16 * row)) (vram s), POSITION_X := POSITION_X s + 8\<rparr>)"
proof -
  have "for_each (draw_row c) [0..<16] s = Some (s\<lparr>vram := paint fb white (dots c (8 * col) (16 * row)) (vram s)\<rparr>)"
    using draw_rows [OF assms(1-3), of "[0..<16]"] assms(5-8) by (auto simp: atLeast0LessThan)
  then show ?thesis
    using position_steps [OF assms(1,5,7)] assms(4) by (simp add: print_char_def)
qed

text \<open>
  Property C31. An interrupt that prints tears the character being drawn: when the handler prints \<open>d\<close> after \<open>k\<close> rows of \<open>c\<close>, the upper \<open>k\<close>
  rows of \<open>c\<close> lie under \<open>d\<close> in one cell and the other rows of \<open>c\<close> stand alone in the next, and the cursor is two cells
  further; only for \<open>k = 0\<close> or \<open>k = 16\<close> is \<open>c\<close> drawn in one piece.
\<close>

theorem interrupted_character_is_torn:
  assumes fb: "fb_ok fb" and t: "displays fb t scr" and c: "c < 128" "c \<noteq> 10" and d: "d < 128" "d \<noteq> 10" and k: "k \<le> 16"
    and room: "8 * (cur_col scr + 3) \<le> fbW fb"
  shows "\<exists>t'. print_char_interrupted fb c k (terminal_print [d]) t = Some t'
    \<and> unat (POSITION_X t') = 8 * (cur_col scr + 2) \<and> POSITION_Y t' = POSITION_Y t
    \<and> (\<forall>x < fbW fb. \<forall>y < fbH fb. px fb (vram t') x y =
         (if y div 16 = cur_row scr \<and> x div 8 = cur_col scr
             \<and> (glyph_dot d (y mod 16) (x mod 8) \<or> y mod 16 < k \<and> glyph_dot c (y mod 16) (x mod 8)) then white
          else if y div 16 = cur_row scr \<and> x div 8 = cur_col scr + 1 \<and> k \<le> y mod 16 \<and> glyph_dot c (y mod 16) (x mod 8) then white
          else px fb (vram t) x y))"
proof -
  let ?col = "cur_col scr" and ?row = "cur_row scr"
  have D: "framebuffer t = Some fb" "unat (POSITION_X t) = 8 * ?col" "unat (POSITION_Y t) = 16 * ?row" "16 * ?row + 16 \<le> fbH fb"
    using t by (auto simp: displays_def cursor_ok_def)
  let ?A = "row_dots c [0..<k] (8 * ?col) (16 * ?row)" and ?B = "dots d (8 * ?col) (16 * ?row)"
    and ?C = "row_dots c [k..<16] (8 * (?col + 1)) (16 * ?row)"
  let ?t1 = "t\<lparr>vram := paint fb white ?A (vram t)\<rparr>"
  let ?t2 = "?t1\<lparr>vram := paint fb white ?B (vram ?t1), POSITION_X := POSITION_X t + 8\<rparr>"
  let ?t3 = "?t2\<lparr>vram := paint fb white ?C (vram ?t2)\<rparr>"
  note p = position_steps [OF fb D(2)]
  have p1: "checked_add (POSITION_X t) 16 = Some (POSITION_X t + 16)" "\<not> POSITION_X t + 16 > fb_width fb"
    "unat (POSITION_X t + 8) = 8 * (?col + 1)" using p room by simp_all
  have p2: "checked_add (POSITION_X t + 8) 8 = Some (POSITION_X t + 8 + 8)" "unat (POSITION_X t + 8 + 8) = 8 * (?col + 1 + 1)"
    using position_steps(3,4) [OF fb, of ?t2 "?col + 1"] p1(3) room by simp_all
  have sub: "set [0..<k] \<subseteq> {..<16}" "set [k..<16] \<subseteq> {..<16}" using k by auto
  have 1: "for_each (draw_row c) [0..<k] t = Some ?t1"
    using draw_rows [OF fb D(1) c(1) sub(1)] D room by simp
  have "terminal_print [d] ?t1 = print_char fb d ?t1"
    using D(1) by (simp add: terminal_print_def split: Option.bind_splits)
  also have "\<dots> = Some ?t2"
    using print_char_in_line [OF fb _ d, of ?t1 ?col ?row] D room by simp
  finally have 2: "terminal_print [d] ?t1 = Some ?t2" .
  have 3: "for_each (draw_row c) [k..<16] ?t2 = Some ?t3"
    using draw_rows [OF fb _ c(1) sub(2), of ?t2] D p1(3) room by simp
  have run: "print_char_interrupted fb c k (terminal_print [d]) t = Some (?t3\<lparr>POSITION_X := POSITION_X t + 8 + 8\<rparr>)"
    using p1 p2 1 2 3 by (simp add: print_char_interrupted_def)
  have on: "on_screen fb ?A" "on_screen fb ?B" "on_screen fb ?C"
    using D(4) room k by (auto simp: on_screen_def set_row_dots_iff)
  have "px fb (vram ?t3) x y = (if (x, y) \<in> set ?C then white else if (x, y) \<in> set ?B then white else if (x, y) \<in> set ?A then white
      else px fb (vram t) x y)" if "x < fbW fb" "y < fbH fb" for x y
    using px_paint [OF fb on(3) that] px_paint [OF fb on(2) that] px_paint [OF fb on(1) that] by simp
  moreover have "(x, y) \<in> set ?A \<longleftrightarrow> x div 8 = ?col \<and> y div 16 = ?row \<and> y mod 16 < k \<and> glyph_dot c (y mod 16) (x mod 8)"
    "(x, y) \<in> set ?B \<longleftrightarrow> x div 8 = ?col \<and> y div 16 = ?row \<and> glyph_dot d (y mod 16) (x mod 8)"
    "(x, y) \<in> set ?C \<longleftrightarrow> x div 8 = ?col + 1 \<and> y div 16 = ?row \<and> k \<le> y mod 16 \<and> glyph_dot c (y mod 16) (x mod 8)" for x y
    by (simp_all only: row_dots_cell [OF sub(1)] row_dots_cell [OF sub(2)] row_dots_cell [OF all_rows]) auto
  ultimately show ?thesis
    using run p2(2) by (intro exI [of _ "?t3\<lparr>POSITION_X := POSITION_X t + 8 + 8\<rparr>"]) auto
qed

text \<open>A B arrives after eight rows of an A: the lower half of the A stands in the second cell.\<close>

theorem interrupted_character_is_torn_witness:
  "\<exists>t'. print_char_interrupted small_fb 65 8 (terminal_print [66]) small_term = Some t' \<and> unat (POSITION_X t') = 16
    \<and> px small_fb (vram t') 8 8 = white \<and> px small_fb (vram t') 11 2 = 0"
proof -
  have "glyph_dot 65 8 0" by code_simp
  moreover have "8 * (cur_col blank + 3) \<le> fbW small_fb" by (simp add: blank_def small_fb_def)
  from interrupted_character_is_torn [OF small_fb_ok small_displays _ _ _ _ _ this, of 65 66 8] obtain t' where
    "print_char_interrupted small_fb 65 8 (terminal_print [66]) small_term = Some t'" "unat (POSITION_X t') = 8 * (cur_col blank + 2)"
    "\<And>x y. x < fbW small_fb \<Longrightarrow> y < fbH small_fb \<Longrightarrow> px small_fb (vram t') x y =
       (if y div 16 = cur_row blank \<and> x div 8 = cur_col blank
           \<and> (glyph_dot 66 (y mod 16) (x mod 8) \<or> y mod 16 < 8 \<and> glyph_dot 65 (y mod 16) (x mod 8)) then white
        else if y div 16 = cur_row blank \<and> x div 8 = cur_col blank + 1 \<and> 8 \<le> y mod 16 \<and> glyph_dot 65 (y mod 16) (x mod 8) then white
        else px small_fb (vram small_term) x y)" by auto
  ultimately show ?thesis
    by (intro exI [of _ t']) (simp add: blank_def small_fb_def small_term_def)
qed

section \<open>The memory map on the screen\<close>

text \<open>
  The report that \<open>kmain\<close> prints lists the usable entries and no others, in order, with numbers that read back; it returns whatever the
  boot loader answered.
\<close>

definition usable_line :: "mmap_entry \<Rightarrow> string" where
  "usable_line e = newline @ '' Base: '' @ dec_nat (unat (entry_base e)) @ '',  Type: USABLE, Length: ''
     @ dec_nat (unat (entry_length e)) @ '', Total Frame '' @ dec_nat (unat (entry_length e) div 4096)"

theorem memory_map_on_screen:
  assumes "fb_ok fb"
  shows "prints fb (test_get_request_memory_map_usable response) (codes (''MEMORY MAP FUNCTION DIPANGGIL!'' @ newline @
      (case response of
         Some entries \<Rightarrow> ''MEMORY MAP ADA RESPONSE'' @ newline @ concat (map usable_line (filter (\<lambda>e. entry_type e = USABLE) entries))
       | None \<Rightarrow> ''MEMORY MAP TIDAK ADA RESPONSE'' @ newline)))"
proof -
  let ?head = "''MEMORY MAP FUNCTION DIPANGGIL!'' @ newline"
  have nl: "ascii newline" by (simp add: newline_def)
  have msg: "prints fb (print_fmt [p]) (codes p)" if "ascii p" for p
    using prints_fmt [OF assms, of "[p]"] that by simp
  have line: "prints fb (print_fmt (memory_map_line e @ ['', Total Frame '', dec_nat (unat (entry_length e) div 4096)])) (codes (usable_line e))"
    if "entry_type e = USABLE" for e
    using prints_fmt [OF assms, of "memory_map_line e @ ['', Total Frame '', dec_nat (unat (entry_length e) div 4096)]"] that nl
    by (simp add: memory_map_line_def usable_line_def cetak_entry_type_def ascii_dec_nat ball_Un)
  show ?thesis
  proof (cases response)
    case None
    have "prints fb (\<lambda>t. do { t \<leftarrow> print_fmt [?head] t; print_fmt [''MEMORY MAP TIDAK ADA RESPONSE'' @ newline] t })
        (codes ?head @ codes (''MEMORY MAP TIDAK ADA RESPONSE'' @ newline))"
      by (intro prints_seq msg) (simp_all add: nl ball_Un)
    then show ?thesis by (simp add: None test_get_request_memory_map_usable_def [abs_def] codes_def)
  next
    case (Some es)
    let ?each = "\<lambda>e t. if entry_type e = USABLE
        then print_fmt (memory_map_line e @ ['', Total Frame '', dec_nat (unat (entry_length e) div 4096)]) t else Some t"
    let ?g = "\<lambda>e. if entry_type e = USABLE then codes (usable_line e) else []"
    have "prints fb (?each e) (?g e)" for e
      using line [of e] prints_nothing by (cases "entry_type e = USABLE") simp_all
    then have "prints fb (for_each ?each es) (concat (map ?g es))" by (intro prints_each)
    then have "prints fb (\<lambda>t. do { t \<leftarrow> print_fmt [?head] t;
          do { t \<leftarrow> print_fmt [''MEMORY MAP ADA RESPONSE'' @ newline] t; for_each ?each es t } })
        (codes ?head @ (codes (''MEMORY MAP ADA RESPONSE'' @ newline) @ concat (map ?g es)))"
      by (intro prints_seq msg) (simp_all add: nl ball_Un)
    moreover have "concat (map ?g es) = codes (concat (map usable_line (filter (\<lambda>e. entry_type e = USABLE) es)))"
      by (induction es) (simp_all add: codes_def)
    ultimately show ?thesis by (simp add: Some test_get_request_memory_map_usable_def [abs_def] codes_def)
  qed
qed

end
