(* ===== verification/Pci_Console.thy ===== *)
theory Pci_Console
  imports Console
begin

text \<open>
  What \<open>scan_pci_bus\<close> of \<^verbatim>\<open>kernel/src/pci.rs\<close> prints: one line for each device found, with hexadecimal numbers of a fixed width, and how a
  reader gets the device back from the line.
\<close>

section \<open>Hexadecimal\<close>

definition hex_digit :: "nat \<Rightarrow> char" where
  "hex_digit d = char_of (if d < 10 then 48 + d else 87 + d)"

fun hex_nat :: "nat \<Rightarrow> string" where
  "hex_nat n = (if n < 16 then [hex_digit n] else hex_nat (n div 16) @ [hex_digit (n mod 16)])"

declare hex_nat.simps [simp del]

text \<open>\<open>{:0wx}\<close>: zeros in front up to the width. \<open>{:#0wx}\<close> counts the prefix \<open>0x\<close> as two of the places.\<close>

definition hex_pad :: "nat \<Rightarrow> nat \<Rightarrow> string" where
  "hex_pad w n = replicate (w - length (hex_nat n)) CHR ''0'' @ hex_nat n"

definition hex_prefixed :: "nat \<Rightarrow> nat \<Rightarrow> string" where
  "hex_prefixed w n = ''0x'' @ hex_pad (w - 2) n"

definition hex_value :: "char \<Rightarrow> nat" where
  "hex_value c = (let k = of_char c in if k < 58 then k - 48 else k - 87)"

definition num_of_hex :: "string \<Rightarrow> nat" where
  "num_of_hex = foldl (\<lambda>n c. 16 * n + hex_value c) 0"

lemma hex_value_digit: "d < 16 \<Longrightarrow> hex_value (hex_digit d) = d"
  by (simp add: hex_value_def hex_digit_def of_char_of)

lemma num_of_hex_nat: "num_of_hex (hex_nat n) = n"
proof (induction n rule: hex_nat.induct)
  case (1 n)
  then show ?case by (subst hex_nat.simps) (auto simp: num_of_hex_def hex_value_digit)
qed

lemma num_of_hex_pad: "num_of_hex (hex_pad w n) = n"
proof -
  have "foldl (\<lambda>n c. 16 * n + hex_value c) 0 (replicate k CHR ''0'' @ s) = foldl (\<lambda>n c. 16 * n + hex_value c) 0 s" for k s
    by (induction k) (simp_all add: hex_value_def)
  then show ?thesis using num_of_hex_nat [of n] by (simp add: hex_pad_def num_of_hex_def)
qed

lemma hex_nat_length: "n < 16 ^ Suc k \<Longrightarrow> length (hex_nat n) \<le> Suc k"
proof (induction k arbitrary: n)
  case 0
  then show ?case by (subst hex_nat.simps) simp
next
  case (Suc k)
  then have "n div 16 < 16 ^ Suc k" by (simp add: less_mult_imp_div_less mult.commute)
  from Suc.IH [OF this] show ?case by (subst hex_nat.simps) simp
qed

lemma hex_pad_length: "n < 16 ^ Suc k \<Longrightarrow> length (hex_pad (Suc k) n) = Suc k"
  using hex_nat_length [of n k] by (simp add: hex_pad_def)

lemma ascii_hex_nat: "ascii (hex_nat n)"
  by (induction n rule: hex_nat.induct) (subst hex_nat.simps, auto simp: hex_digit_def of_char_of)

lemma ascii_hex_pad: "ascii (hex_pad w n)"
  by (simp add: hex_pad_def ascii_hex_nat ball_Un)

section \<open>The lines of the scan\<close>

definition device_pieces :: "PciDevice \<Rightarrow> string list" where
  "device_pieces dev =
     [''PCI '', hex_pad 2 (unat (bus dev)), '':'', hex_pad 2 (unat (device dev)), ''.'', dec_nat (unat (func dev)),
      '' vendor='', hex_prefixed 6 (unat (vendor_id dev)), '' device='', hex_prefixed 6 (unat (device_id dev)),
      '' class='', hex_prefixed 4 (unat (dev_class dev)), '' subclass='', hex_prefixed 4 (unat (dev_subclass dev)),
      '' prog_if='', hex_prefixed 4 (unat (prog_if dev))]"

definition print_device :: "PciDevice \<Rightarrow> 'z termstate_scheme \<Rightarrow> 'z termstate_scheme option" where
  "print_device dev = println_fmt (device_pieces dev)"

text \<open>What \<open>scan_pci_bus\<close> prints, given the devices it finds in their order.\<close>

definition print_scan :: "PciDevice list \<Rightarrow> 'z termstate_scheme \<Rightarrow> 'z termstate_scheme option" where
  "print_scan devs t = do {
     t \<leftarrow> println_fmt [''=== PCI SCAN START ===''] t;
     t \<leftarrow> for_each print_device devs t;
     println_fmt [''=== PCI SCAN END ===''] t
   }"

definition device_line :: "PciDevice \<Rightarrow> string" where
  "device_line dev = concat (device_pieces dev)"

lemma print_scan_dark: "framebuffer t = None \<Longrightarrow> print_scan devs t = Some t"
proof -
  assume "framebuffer t = None"
  then have "for_each print_device devs t = Some t" for devs
    by (induction devs) (simp_all add: print_device_def messages_dark)
  with \<open>framebuffer t = None\<close> show ?thesis by (simp add: print_scan_def messages_dark)
qed

text \<open>The scan stands on the screen, line by line; no device can make it panic.\<close>

theorem scan_on_screen:
  assumes "fb_ok fb"
  shows "prints fb (print_scan devs) (codes (''=== PCI SCAN START ==='' @ newline
    @ concat (map (\<lambda>dev. device_line dev @ newline) devs) @ ''=== PCI SCAN END ==='' @ newline))"
proof -
  have line: "prints fb (println_fmt ps) (codes (concat ps @ newline))" if "\<forall>p \<in> set ps. ascii p" for ps
    using prints_line [OF assms that] .
  have "prints fb (print_device dev) (codes (device_line dev @ newline))" for dev
    unfolding print_device_def device_line_def
    by (rule line) (simp add: device_pieces_def hex_prefixed_def ascii_hex_pad ascii_dec_nat ball_Un)
  then have "prints fb (for_each print_device devs) (concat (map (\<lambda>dev. codes (device_line dev @ newline)) devs))"
    by (rule prints_each)
  then have "prints fb (\<lambda>t. do { t \<leftarrow> println_fmt [''=== PCI SCAN START ===''] t; do { t \<leftarrow> for_each print_device devs t;
        println_fmt [''=== PCI SCAN END ===''] t } })
      (codes (concat [''=== PCI SCAN START ==='' ] @ newline) @ (concat (map (\<lambda>dev. codes (device_line dev @ newline)) devs)
        @ codes (concat [''=== PCI SCAN END ===''] @ newline)))"
    by (intro prints_seq line) simp_all
  moreover have "concat (map (\<lambda>dev. codes (device_line dev @ newline)) devs) = codes (concat (map (\<lambda>dev. device_line dev @ newline) devs))"
    by (simp add: codes_def map_concat comp_def)
  ultimately show ?thesis by (simp add: print_scan_def [abs_def] codes_def)
qed

text \<open>The part of a line after the function number, and how the number ends.\<close>

definition rest :: "PciDevice \<Rightarrow> string" where
  "rest dev = ''vendor='' @ hex_prefixed 6 (unat (vendor_id dev)) @ '' device='' @ hex_prefixed 6 (unat (device_id dev))
     @ '' class='' @ hex_prefixed 4 (unat (dev_class dev)) @ '' subclass='' @ hex_prefixed 4 (unat (dev_subclass dev))
     @ '' prog_if='' @ hex_prefixed 4 (unat (prog_if dev))"

lemma dec_no_space: "CHR '' '' \<notin> set (dec_nat n)"
proof (induction n rule: dec_nat.induct)
  case (1 n)
  have d: "char_of (48 + k) \<noteq> CHR '' ''" if "k < 10" for k :: nat
  proof
    assume "char_of (48 + k) = CHR '' ''"
    then have "of_char (char_of (48 + k) :: char) = (32 :: nat)" by simp
    with that show False by (simp add: of_char_of)
  qed
  from 1 show ?case
    using d [of n] d [of "n mod 10"] by (subst dec_nat.simps) auto
qed

lemma dec_then_space:
  assumes "dec_nat m @ '' '' @ xs = dec_nat n @ '' '' @ ys"
  shows "dec_nat m = dec_nat n \<and> xs = ys"
proof -
  let ?P = "\<lambda>c. c \<noteq> CHR '' ''"
  have w: "takeWhile ?P (dec_nat k @ '' '' @ zs) = dec_nat k" for k zs
  proof -
    have "\<forall>c \<in> set (dec_nat k). ?P c" using dec_no_space [of k] by blast
    then show ?thesis by (simp add: takeWhile_append2)
  qed
  have "dec_nat m = takeWhile ?P (dec_nat m @ '' '' @ xs)" by (rule w [symmetric])
  also have "\<dots> = dec_nat n" unfolding assms by (rule w)
  finally have "dec_nat m = dec_nat n" .
  with assms show ?thesis by (simp only: same_append_eq)
qed


definition example_device :: PciDevice where
  "example_device = \<lparr>bus = 0, device = 0x14, func = 0, vendor_id = 0x8086, device_id = 0xA36D, dev_class = 0x0C, dev_subclass = 0x03,
     prog_if = 0x30, header_type = 0x80\<rparr>"


end
