(* ===== verification/Kernel.thy ===== *)
theory Kernel
  imports Interrupt Rsdp Pci_Console
begin

text \<open>
  \<^verbatim>\<open>kernel/src/main.rs\<close>: \<open>kmain\<close> brings the components up in order and ends in \<open>hcf\<close>, the loop that waits for
  interrupts and synchronises the USB devices. The state of the whole kernel is \<open>boot\<close>: that of the drivers and the handler,
  the descriptor tables, the framebuffer, and what the boot loader answered. A panic prints and ends in \<open>hcf\<close>: it
  never comes back, like the loop itself. What \<open>kmain\<close> itself prints goes to the framebuffer; the progress messages of the functions it
  calls are not part of the state.
\<close>

record 'h boot = "'h system" +
  base_revision_supported :: bool
  rsdp_response :: "u64 option"
  display :: termstate
  idt_table :: "IdtEntry list"
  cpu_tables :: tables_cpu

text \<open>What the linker decides: the addresses of the tables and of the interrupt stubs.\<close>

record layout =
  gdt_address :: u64
  idt_address :: u64
  stub_address :: "stub \<Rightarrow> u64"

text \<open>The white line of 100 pixels at the start of \<open>kmain\<close>.\<close>

definition draw_line :: "'z termstate_scheme \<Rightarrow> 'z termstate_scheme option" where
  "draw_line t =
     (case framebuffer t of
        None \<Rightarrow> Some t
      | Some fb \<Rightarrow> do {
          m \<leftarrow> for_each (\<lambda>i m. do {
                 row \<leftarrow> checked_mul (of_nat i) (fb_pitch fb);
                 col \<leftarrow> checked_mul (of_nat i) 4;
                 pixel_offset \<leftarrow> checked_add row col;
                 Some (wr32 m (fb_addr fb + pixel_offset) 0xFFFFFFFF)
               }) [0..<100] (vram t);
          Some (t\<lparr>vram := m\<rparr>)
        })"

text \<open>\<open>println!\<close> in \<open>kmain\<close>.\<close>

definition say :: "string \<Rightarrow> ('h, 'z) boot_scheme \<Rightarrow> ('h, 'z) boot_scheme option" where
  "say message s = do { d \<leftarrow> println_fmt [message] (display s); Some (s\<lparr>display := d\<rparr>) }"

text \<open>One round of \<open>hcf\<close>: \<open>hlt\<close> until the next interrupt is served, then \<open>poll_hotplug\<close>.\<close>

definition hcf_round :: "('h, 'e) machine_scheme \<Rightarrow> ('h, 'z) system_scheme \<Rightarrow> ('h, 'z) system_scheme option" where
  "hcf_round io s = do { s \<leftarrow> isr_tick io s; poll_hotplug io (isr_tick io) s }"

partial_function (option) hcf :: "('h, 'e) machine_scheme \<Rightarrow> ('h, 'z) system_scheme \<Rightarrow> ('h, 'z) system_scheme option" where
  "hcf io s = do { s \<leftarrow> hcf_round io s; hcf io s }"

text \<open>\<open>kmain\<close> up to \<open>hcf\<close>, and with it.\<close>

definition bring_up :: "('h, 'e) machine_scheme \<Rightarrow> layout \<Rightarrow> ('h, 'z) boot_scheme \<Rightarrow> ('h, 'z) boot_scheme option" where
  "bring_up io lay s = do {
     (if base_revision_supported s then Some () else None);
     d \<leftarrow> draw_line (display s);
     let s = s\<lparr>display := d\<rparr>;
     let s = s\<lparr>cpu_tables := load_gdt (gdt_address lay) (cpu_tables s)\<rparr>;
     s \<leftarrow> say ''GDT LOADED'' s;
     let (t, c) = load_idt (stub_address lay) (idt_address lay) (idt_table s) (cpu_tables s);
     let s = s\<lparr>idt_table := t, cpu_tables := c\<rparr>;
     s \<leftarrow> say ''IDT LOADED'' s;
     s \<leftarrow> say ''TES RSDP'' s;
     s \<leftarrow> test_rsdp (rsdp_response s) s;
     let s = disable_pic io s;
     s \<leftarrow> (if lapic s = None then do { (l, s) \<leftarrow> init_lapic io s; Some (s\<lparr>lapic := Some l\<rparr>) } else Some s);
     (ioapic, s) \<leftarrow> init_ioapic io s;
     d \<leftarrow> test_get_request_memory_map_usable (memory_map s) (display s);
     let s = s\<lparr>display := d\<rparr>;
     s \<leftarrow> memory_init s;
     let (devs, h) = scan_pci_bus io (outside s);
     d \<leftarrow> print_scan devs (display s);
     let s = s\<lparr>display := d, outside := h\<rparr>;
     init_usb_controllers io (isr_tick io) s
   }"

definition kmain :: "('h, 'e) machine_scheme \<Rightarrow> layout \<Rightarrow> ('h, 'z) boot_scheme \<Rightarrow> ('h, 'z) boot_scheme option" where
  "kmain io lay s = do { s \<leftarrow> bring_up io lay s; hcf io s }"

text \<open>The panic handler; how a \<open>PanicInfo\<close> is displayed is Rust's affair.\<close>

definition rust_panic :: "('h, 'e) machine_scheme \<Rightarrow> string \<Rightarrow> ('h, 'z) boot_scheme \<Rightarrow> ('h, 'z) boot_scheme option" where
  "rust_panic io info s = do {
     d \<leftarrow> print_fmt [newline, info, newline] (display s);
     hcf io (s\<lparr>display := d\<rparr>)
   }"

section \<open>The main loop\<close>

lemma hcf_never_returns: "hcf io s = None"
proof (cases "hcf io s")
  case (Some r)
  then have False
    by (rule hcf.raw_induct [where P = "\<lambda>_ _ _. False", rotated]) (auto simp: bind_eq_Some_conv)
  then show ?thesis ..
qed

text \<open>
  \<open>kmain\<close> never returns: whatever the hardware does, the call ends in a panic, in a loop of a component or in the
  loop of \<open>hcf\<close>, as its type \<open>!\<close> says.
\<close>

theorem kmain_never_returns: "kmain io lay s = None"
  by (simp add: kmain_def hcf_never_returns)

lemma rust_panic_never_returns: "rust_panic io info s = None"
  by (simp add: rust_panic_def hcf_never_returns split: Option.bind_splits)

text \<open>
  Hotplug reaches the drivers: when the controller, while the main loop sleeps, posts a port status change event and
  interrupts, the same round of the loop takes the event off the ring and synchronises the devices with the ports,
  with the flag taken back first.
\<close>

theorem port_change_synchronises:
  assumes hw: "hw_step io (outside s) (ram s) = (h', m', True)"
    and x: "xhci_instance s = Some x" "events_ok io x"
    and e: "trb_cycle (next_event x m') = cycle_state x" "trb_type (next_event x m') = 34"
    and q: "\<not> kbd_report_pending s" "\<not> mouse_report_pending s" "lapic s = Some l" "lapic_ok l"
  shows "\<exists>h. hcf_round io s = discover_and_init_hid_devices io (isr_tick io)
    (s\<lparr>outside := h, ram := m', xhci_instance := Some (advance_dequeue x), port_change_pending := False\<rparr>)"
proof -
  have "trb_type (next_event x m') \<noteq> 32" using e(2) by simp
  from isr_tick_event [OF hw x e(1) this q] obtain h where
    "isr_tick io s = Some ((dispatch_event (next_event x m') (s\<lparr>outside := h', ram := m'\<rparr>))
       \<lparr>outside := h, xhci_instance := Some (advance_dequeue x)\<rparr>)" by blast
  moreover have "dispatch_event (next_event x m') (s\<lparr>outside := h', ram := m'\<rparr>) = s\<lparr>outside := h', ram := m', port_change_pending := True\<rparr>"
    using e(2) by (simp add: dispatch_event_if)
  ultimately have "hcf_round io s = discover_and_init_hid_devices io (isr_tick io)
      (s\<lparr>ram := m', outside := h, xhci_instance := Some (advance_dequeue x), port_change_pending := False\<rparr>)"
    by (simp add: hcf_round_def poll_hotplug_def)
  also have "s\<lparr>ram := m', outside := h, xhci_instance := Some (advance_dequeue x), port_change_pending := False\<rparr> =
      s\<lparr>outside := h, ram := m', xhci_instance := Some (advance_dequeue x), port_change_pending := False\<rparr>"
    by simp
  finally show ?thesis by (intro exI [of _ h])
qed

definition port_event_machine :: "unit machine" where
  "port_event_machine = quiet_machine
     \<lparr>hw_step := \<lambda>h m. (h, trb_write m (trb_slot 0xFFFF800000010000 31) (port_event True), True)\<rparr>"

text \<open>No port is connected and none was: the round returns with nothing to do.\<close>

theorem port_change_synchronises_witness:
  "\<exists>h. hcf_round port_event_machine idle_system = discover_and_init_hid_devices port_event_machine (isr_tick port_event_machine)
    (idle_system\<lparr>outside := h, ram := trb_write (ram idle_system) (trb_slot 0xFFFF800000010000 31) (port_event True),
       xhci_instance := Some (advance_dequeue xhci_example), port_change_pending := False\<rparr>)"
proof -
  let ?m = "trb_write (ram idle_system) (trb_slot 0xFFFF800000010000 31) (port_event True)"
  have ne: "next_event xhci_example ?m = port_event True"
    by (simp add: next_event_def xhci_example_def trb_slot_write)
  have f: "hw_step port_event_machine (outside idle_system) (ram idle_system) = (outside idle_system, ?m, True)"
    "xhci_instance idle_system = Some xhci_example" "events_ok port_event_machine xhci_example"
    "trb_cycle (next_event xhci_example ?m) = cycle_state xhci_example" "trb_type (next_event xhci_example ?m) = 34"
    "\<not> kbd_report_pending idle_system" "\<not> mouse_report_pending idle_system"
    "lapic idle_system = Some \<lparr>lapic_base = 0xFFFF8000FEE00000\<rparr>" "lapic_ok \<lparr>lapic_base = 0xFFFF8000FEE00000\<rparr>"
    unfolding ne by (simp_all add: port_event_machine_def port_event_def trb_cycle_def trb_type_def bool_u32_def
        events_ok_def runtime_regs_ok_def quiet_machine_def xhci_example_def idle_system_def system_start_def usb_start_def
        usb.extend_def kernel.extend_def kernel_start_def pgstate.extend_def lapic_ok_def)
  from port_change_synchronises [OF f] show ?thesis .
qed

end
