(* ===== verification/Kernel_Invariant.thy ===== *)
theory Kernel_Invariant
  imports Kernel
begin

text \<open>
  An invariant of the whole kernel: the enqueue and dequeue indices stay inside their rings, the statics the interrupt
  handler routes reports by agree with the drivers' states, and the registry has no port twice. The operations of
  the USB modules keep it as long as whatever runs while they wait keeps it (the locale \<open>driver_world\<close>), which the
  interrupt handler does; booting establishes it.
\<close>

section \<open>The memory operations leave the layers above alone\<close>

lemma push_free_more: "push_free f s = Some s' \<Longrightarrow> memstate.more s' = memstate.more s"
  by (auto simp: push_free_def bind_eq_Some_conv)

lemma push_region_more: "push_region a l s = Some s' \<Longrightarrow> memstate.more s' = memstate.more s"
proof (induction a l s rule: push_region.induct)
  case (1 addr limit s)
  from "1.prems" show ?case
    by (subst (asm) push_region.simps)
      (auto simp: bind_eq_Some_conv push_free_more split: option.splits if_splits dest!: "1.IH")
qed

lemma push_entries_more: "push_entries es s = Some s' \<Longrightarrow> memstate.more s' = memstate.more s"
  by (induction es arbitrary: s) (auto simp: bind_eq_Some_conv push_region_more split: if_splits)

lemma fa_init_more: "fa_init s = Some s' \<Longrightarrow> memstate.more s' = memstate.more s"
  by (auto simp: fa_init_def bind_eq_Some_conv push_entries_more split: option.splits)

lemma allocate_more: "allocate s = Some (r, s') \<Longrightarrow> memstate.more s' = memstate.more s"
proof -
  assume a: "allocate s = Some (r, s')"
  then obtain s1 where s1: "(if \<not> fa_initialized s then fa_init s else Some s) = Some s1"
    by (auto simp: allocate_def bind_eq_Some_conv)
  then have "memstate.more s1 = memstate.more s" by (auto simp: fa_init_more split: if_splits)
  moreover have "memstate.more s' = memstate.more s1"
    using a unfolding allocate_def s1 Option.bind.bind_lunit
    by (cases "fa_head s1") (auto simp: bind_eq_Some_conv Let_def split: option.split_asm)
  ultimately show ?thesis by simp
qed

lemma upper_layers:
  "memstate.more s' = memstate.more s \<Longrightarrow> heapstate.more s' = heapstate.more s"
  "heapstate.more p' = heapstate.more p \<Longrightarrow> pgstate.more p' = pgstate.more p"
  "memstate.more p' = memstate.more p \<Longrightarrow> pgstate.more p' = pgstate.more p"
  by (cases s, cases s', simp) (cases p, cases p', simp)+

lemma heap_loop_more: "heap_loop n low ex s = Some (r, s') \<Longrightarrow> heapstate.more s' = heapstate.more s"
proof (induction n arbitrary: low ex s)
  case (Suc n)
  then obtain f s1 where a: "allocate s = Some (f, s1)" by (auto simp: bind_eq_Some_conv)
  have "heapstate.more s' = heapstate.more s1"
    using Suc a by (auto split: option.splits if_splits)
  with upper_layers(1) [OF allocate_more [OF a]] show ?case by simp
qed simp

lemma memory_init_more: "memory_init s = Some s' \<Longrightarrow> heapstate.more s' = heapstate.more s"
  by (auto simp: memory_init_def init_heap_def bind_eq_Some_conv split: if_splits option.splits dest!: heap_loop_more)

lemma hhdm_or_unavailable_same: "hhdm_or_unavailable p s = Some (r, s') \<Longrightarrow> s' = s"
  by (auto simp: hhdm_or_unavailable_def bind_eq_Some_conv)

lemma next_table_or_create_more:
  assumes "next_table_or_create e s = Some (r, s')"
  shows "pgstate.more s' = pgstate.more s"
proof (cases "rd64 (ram s) e AND HUGE_PAGE = 0 \<and> rd64 (ram s) e AND PRESENT = 0")
  case True
  with assms obtain f s1 where a: "allocate s = Some (f, s1)"
    by (auto simp: next_table_or_create_def try_bind_eq_Some bind_eq_Some_conv)
  have "pgstate.more s' = pgstate.more s1"
    using assms True a
    by (cases f) (auto simp: next_table_or_create_def dest!: hhdm_or_unavailable_same)
  with upper_layers(3) [OF allocate_more [OF a]] show ?thesis by simp
next
  case False
  with assms show ?thesis
    by (auto simp: next_table_or_create_def dest!: hhdm_or_unavailable_same split: if_splits)
qed

lemma pml4_virt_more: "pml4_virt s = Some (r, s') \<Longrightarrow> s' = s"
  by (auto simp: pml4_virt_def hhdm_or_unavailable_def bind_eq_Some_conv)

lemma map_page_more: "map_page v p fl s = Some (r, s') \<Longrightarrow> pgstate.more s' = pgstate.more s"
  by (auto simp: map_page_def Let_def try_bind_eq_Some split: prod.splits if_splits
      dest!: pml4_virt_more next_table_or_create_more)

lemma map_mmio_page_more: "map_mmio_page a s = Some (v, s') \<Longrightarrow> pgstate.more s' = pgstate.more s"
proof -
  assume "map_mmio_page a s = Some (v, s')"
  then obtain w p r s1 where m: "map_page w p (WRITABLE OR NO_CACHE) s = Some (r, s1)"
    and c: "(case r of Inr _ \<Rightarrow> Some (w, s1) | Inl AlreadyMapped \<Rightarrow> Some (w, s1) | Inl _ \<Rightarrow> None) = Some (v, s')"
    unfolding map_mmio_page_def Let_def bind_eq_Some_conv by fast
  from c have "s' = s1" by (auto split: sum.splits PagingError.splits)
  with map_page_more [OF m] show ?thesis by simp
qed

lemma find_table_more: "find_table a i n s = Some (r, s') \<Longrightarrow> pgstate.more s' = pgstate.more s"
proof (induction n arbitrary: i s)
  case (Suc n)
  then obtain t q s1 where m: "map_page t t (WRITABLE OR PRESENT) s = Some (q, s1)"
    and "s' = s1 \<or> find_table a (Suc i) n s1 = Some (r, s')"
    by (auto simp: Let_def bind_eq_Some_conv split: if_splits)
  with Suc.IH [of "Suc i" s1] map_page_more [OF m] show ?case by auto
qed simp

lemma test_rsdp_more: "test_rsdp p s = Some s' \<Longrightarrow> pgstate.more s' = pgstate.more s"
  by (auto simp: test_rsdp_def find_MADT_def Let_def bind_eq_Some_conv split: option.splits dest!: map_page_more find_table_more)

section \<open>The invariant\<close>

definition indices_in_rings :: "XHCI \<Rightarrow> bool" where
  "indices_in_rings x \<longleftrightarrow> dequeue_index x < EVENT_RING_SIZE \<and> cmd_enqueue_index x < COMMAND_RING_SIZE - 1
     \<and> ep0_enqueue_index x < CONTROL_RING_SIZE - 1"

definition kbd_agrees :: "('h, 'z) usb_scheme \<Rightarrow> bool" where
  "kbd_agrees s \<longleftrightarrow>
     (case kbd_state s of
        None \<Rightarrow> kbd_dci s = 0 \<and> kbd_slot_id s = 0 \<and> \<not> kbd_report_pending s
      | Some st \<Rightarrow> kbd_dci s = k_dci st \<and> kbd_slot_id s = k_slot_id st \<and> k_enqueue_index st < KBD_RING_SIZE - 1)"

definition mouse_agrees :: "('h, 'z) usb_scheme \<Rightarrow> bool" where
  "mouse_agrees s \<longleftrightarrow>
     (case mouse_state s of
        None \<Rightarrow> mouse_dci s = 0 \<and> mouse_slot_id s = 0 \<and> \<not> mouse_report_pending s
      | Some st \<Rightarrow> mouse_dci s = m_dci st \<and> mouse_slot_id s = m_slot_id st \<and> m_enqueue_index st < MOUSE_RING_SIZE - 1)"

definition kernel_inv :: "('h, 'z) usb_scheme \<Rightarrow> bool" where
  "kernel_inv s \<longleftrightarrow> (\<forall>x. xhci_instance s = Some x \<longrightarrow> indices_in_rings x) \<and> kbd_agrees s \<and> mouse_agrees s
     \<and> distinct (map ap_root_port (active_ports s))"

lemmas kernel_inv_defs = kernel_inv_def kbd_agrees_def mouse_agrees_def

text \<open>It says nothing about memory, devices and the other statics.\<close>

lemma kernel_inv_update [simp]:
  "kernel_inv (s\<lparr>ram := m\<rparr>) = kernel_inv s" "kernel_inv (s\<lparr>outside := h\<rparr>) = kernel_inv s"
  "kernel_inv (s\<lparr>completion_pending := b\<rparr>) = kernel_inv s" "kernel_inv (s\<lparr>completion_code := c\<rparr>) = kernel_inv s"
  "kernel_inv (s\<lparr>completion_slot := c\<rparr>) = kernel_inv s" "kernel_inv (s\<lparr>transfer_completion_pending := b\<rparr>) = kernel_inv s"
  "kernel_inv (s\<lparr>transfer_completion_code := c\<rparr>) = kernel_inv s" "kernel_inv (s\<lparr>transfer_completion_length := c\<rparr>) = kernel_inv s"
  "kernel_inv (s\<lparr>port_change_pending := b\<rparr>) = kernel_inv s" "kernel_inv (s\<lparr>kbd_report_len := c\<rparr>) = kernel_inv s"
  "kernel_inv (s\<lparr>mouse_report_len := c\<rparr>) = kernel_inv s" "kernel_inv (s\<lparr>console := es\<rparr>) = kernel_inv s"
  by (simp_all add: kernel_inv_defs cong: option.case_cong)

lemma kernel_inv_more: "pgstate.more s' = pgstate.more s \<Longrightarrow> kernel_inv s' = kernel_inv s"
  for s s' :: "('h, 'z) usb_scheme"
  by (cases s, cases s') (simp add: kernel_inv_defs cong: option.case_cong)

lemma kernel_inv_xhci: "kernel_inv s \<Longrightarrow> indices_in_rings x \<Longrightarrow> kernel_inv (s\<lparr>xhci_instance := Some x\<rparr>)"
  by (simp add: kernel_inv_defs cong: option.case_cong)

lemma kernel_inv_indices: "kernel_inv s \<Longrightarrow> xhci_instance s = Some x \<Longrightarrow> indices_in_rings x"
  by (simp add: kernel_inv_def)

section \<open>The transport\<close>

lemma dispatch_event_inv: "kernel_inv s \<Longrightarrow> kernel_inv (dispatch_event t s)"
  by (auto simp: dispatch_event_if for_kbd_def for_mouse_def kernel_inv_defs split: option.splits)

lemma advance_dequeue_inv: "indices_in_rings x \<Longrightarrow> indices_in_rings (advance_dequeue x)"
  by (auto simp: indices_in_rings_def advance_dequeue_def EVENT_RING_SIZE_def Let_def)

lemma interrupter0_frame: "interrupter0 io x s = Some (a, s') \<Longrightarrow> \<exists>h. s' = s\<lparr>outside := h\<rparr>"
  using mmio_read32_frame [of io "virt_base x + 0x18" s]
  by (auto simp: interrupter0_def rtsoff_def bind_eq_Some_conv split: prod.splits)

lemma poll_event_ring_inv:
  assumes "poll_event_ring io x s = Some (x', s')" "indices_in_rings x" "kernel_inv s"
  shows "indices_in_rings x'" "kernel_inv s'"
proof -
  from assms(1) have "x' = x \<and> s' = s \<or> (\<exists>a s1 v. x' = advance_dequeue x
      \<and> interrupter0 io (advance_dequeue x) (dispatch_event (trb_read (ram s) (trb_slot (event_ring_virt x) (dequeue_index x))) s)
        = Some (a, s1) \<and> s' = write_erdp io a v s1)"
    by (auto simp: poll_event_ring_def Let_def bind_eq_Some_conv split: if_splits)
  then show "indices_in_rings x'" "kernel_inv s'"
    using assms(2,3) by (auto simp: advance_dequeue_inv dispatch_event_inv write_erdp_def mmio_write64_def dest!: interrupter0_frame)
qed

lemma enqueue_command_inv:
  "enqueue_command p st ty slot (x, s) = (x', s') \<Longrightarrow> indices_in_rings x \<Longrightarrow> kernel_inv s \<Longrightarrow>
     indices_in_rings x' \<and> kernel_inv s'"
  for s :: "('h, 'z) usb_scheme"
  by (auto simp: enqueue_command_def Let_def indices_in_rings_def COMMAND_RING_SIZE_def split: if_splits)

lemma send_command_inv:
  "send_command io p st ty slot x s = Some (x', s') \<Longrightarrow> indices_in_rings x \<Longrightarrow> kernel_inv s \<Longrightarrow>
     indices_in_rings x' \<and> kernel_inv s'"
  for s :: "('h, 'z) usb_scheme"
  by (auto simp: send_command_def bind_eq_Some_conv split: prod.splits dest!: enqueue_command_inv ring_doorbell_frame)

lemma ep0_fold_inv:
  "fold ep0_put ts (x, s) = (x', s') \<Longrightarrow> indices_in_rings x \<Longrightarrow> kernel_inv s \<Longrightarrow> indices_in_rings x' \<and> kernel_inv s'"
  for s :: "('h, 'z) usb_scheme"
proof (induction ts arbitrary: x s)
  case (Cons t ts)
  obtain x1 s1 where e: "ep0_put t (x, s) = (x1, s1)" by fastforce
  then have "indices_in_rings x1 \<and> kernel_inv s1"
    using Cons.prems(2,3)
    by (cases t) (auto simp: ep0_put_def ep0_enqueue_trb_def Let_def indices_in_rings_def CONTROL_RING_SIZE_def split: if_splits)
  with Cons.IH [of x1 s1] Cons.prems(1) e show ?case by simp
qed simp

lemma box_zeroed_inv: "box_zeroed io n al s = Some (a, s') \<Longrightarrow> kernel_inv s \<Longrightarrow> kernel_inv s'"
  by (auto simp: box_zeroed_def bind_eq_Some_conv)

lemma phys_or_error_same: "phys_or_error v s = Some (r, s') \<Longrightarrow> s' = s"
  by (auto simp: phys_or_error_def split: option.splits)

lemma normal_trb_index:
  "enqueue_normal_trb rv rp sz buf len (i, c, m) = (i', c', m') \<Longrightarrow> i < sz - 1 \<Longrightarrow> i' < sz - 1"
  by (auto simp: enqueue_normal_trb_def Let_def split: if_splits)

lemma enqueue_normal_inv:
  assumes "enqueue_normal_trb_and_ring io x rv rp i c sz slot dci buf len s = Some (i', c', s')" "i < sz - 1"
  shows "i' < sz - 1" "\<exists>m h. s' = s\<lparr>ram := m, outside := h\<rparr>"
  using assms normal_trb_index enqueue_normal_frame [OF assms(1)]
  by (auto simp: enqueue_normal_trb_and_ring_def bind_eq_Some_conv split: prod.splits)

section \<open>The drivers\<close>

lemma keyboard_report_inv: "kernel_inv s \<Longrightarrow> kernel_inv (keyboard_handle_report r s)"
  by (auto simp: keyboard_handle_report_def kernel_inv_defs split: option.splits)

lemma keyboard_arm_inv: "keyboard_arm_next_report io s = Some s' \<Longrightarrow> kernel_inv s \<Longrightarrow> kernel_inv s'"
proof (cases "kbd_state s")
  case (Some st)
  assume e: "keyboard_arm_next_report io s = Some s'" and i: "kernel_inv s"
  then obtain x j c t where q: "enqueue_normal_trb_and_ring io x (k_ring_virt st) (k_ring_phys st) (k_enqueue_index st)
      (k_cycle_state st) KBD_RING_SIZE (k_slot_id st) (k_dci st) (k_report_buf_phys st) (of_nat REPORT_LEN) s = Some (j, c, t)"
    and s': "s' = t\<lparr>kbd_state := Some (st\<lparr>k_enqueue_index := j, k_cycle_state := c\<rparr>)\<rparr>"
    by (auto simp: keyboard_arm_next_report_def Some bind_eq_Some_conv)
  have "k_enqueue_index st < KBD_RING_SIZE - 1" using i by (simp add: kernel_inv_defs Some)
  note j = enqueue_normal_inv [OF q this]
  then show ?thesis
    using i Some by (auto simp: s' kernel_inv_defs cong: option.case_cong)
qed (simp add: keyboard_arm_next_report_def)

lemma keyboard_started:
  assumes "keyboard_arm_next_report io (s\<lparr>kbd_dci := d, kbd_slot_id := n, kbd_state := Some st\<rparr>) = Some s'"
    and "kernel_inv s" "k_dci st = d" "k_slot_id st = n" "k_enqueue_index st = 0"
  shows "kernel_inv s'"
proof (rule keyboard_arm_inv [OF assms(1)])
  show "kernel_inv (s\<lparr>kbd_dci := d, kbd_slot_id := n, kbd_state := Some st\<rparr>)"
    using assms(2-5) by (simp add: kernel_inv_defs KBD_RING_SIZE_def cong: option.case_cong)
qed

lemma poll_keyboard_inv: "poll_keyboard io s = Some s' \<Longrightarrow> kernel_inv s \<Longrightarrow> kernel_inv s'"
proof -
  assume e: "poll_keyboard io s = Some s'" and i: "kernel_inv s"
  let ?s = "s\<lparr>kbd_report_pending := False\<rparr>"
  have "kernel_inv ?s" using i by (auto simp: kernel_inv_defs split: option.splits)
  then show ?thesis
    using e i by (auto simp: poll_keyboard_def Let_def split: if_splits option.splits
        intro: keyboard_arm_inv keyboard_report_inv)
qed

lemma shutdown_keyboard_inv: "kernel_inv s \<Longrightarrow> kernel_inv (shutdown_keyboard io slot s)"
  by (auto simp: shutdown_keyboard_def box_drop_def kernel_inv_defs split: option.splits)

lemma mouse_report_inv: "mouse_handle_report r s = Some s' \<Longrightarrow> kernel_inv s \<Longrightarrow> kernel_inv s'"
  by (auto simp: mouse_handle_report_def bind_eq_Some_conv Let_def kernel_inv_defs split: option.splits)

lemma mouse_arm_inv: "mouse_arm_next_report io s = Some s' \<Longrightarrow> kernel_inv s \<Longrightarrow> kernel_inv s'"
proof (cases "mouse_state s")
  case (Some st)
  assume e: "mouse_arm_next_report io s = Some s'" and i: "kernel_inv s"
  then obtain x j c t where q: "enqueue_normal_trb_and_ring io x (m_ring_virt st) (m_ring_phys st) (m_enqueue_index st)
      (m_cycle_state st) MOUSE_RING_SIZE (m_slot_id st) (m_dci st) (m_report_buf_phys st) (of_nat REPORT_BUF_LEN) s = Some (j, c, t)"
    and s': "s' = t\<lparr>mouse_state := Some (st\<lparr>m_enqueue_index := j, m_cycle_state := c\<rparr>)\<rparr>"
    by (auto simp: mouse_arm_next_report_def Some bind_eq_Some_conv)
  have "m_enqueue_index st < MOUSE_RING_SIZE - 1" using i by (simp add: kernel_inv_defs Some split: option.splits)
  note j = enqueue_normal_inv [OF q this]
  then show ?thesis
    using i Some by (auto simp: s' kernel_inv_defs split: option.splits)
qed (simp add: mouse_arm_next_report_def)

lemma mouse_started:
  assumes "mouse_arm_next_report io (s\<lparr>mouse_dci := d, mouse_slot_id := n, mouse_state := Some st\<rparr>) = Some s'"
    and "kernel_inv s" "m_dci st = d" "m_slot_id st = n" "m_enqueue_index st = 0"
  shows "kernel_inv s'"
proof (rule mouse_arm_inv [OF assms(1)])
  show "kernel_inv (s\<lparr>mouse_dci := d, mouse_slot_id := n, mouse_state := Some st\<rparr>)"
    using assms(2-5) by (simp add: kernel_inv_defs MOUSE_RING_SIZE_def cong: option.case_cong)
qed

lemma poll_mouse_inv: "poll_mouse io s = Some s' \<Longrightarrow> kernel_inv s \<Longrightarrow> kernel_inv s'"
proof -
  assume e: "poll_mouse io s = Some s'" and i: "kernel_inv s"
  let ?s = "s\<lparr>mouse_report_pending := False\<rparr>"
  have "kernel_inv ?s" using i by (auto simp: kernel_inv_defs split: option.splits)
  then show ?thesis
    using e i by (auto simp: poll_mouse_def Let_def bind_eq_Some_conv split: if_splits option.splits
        intro: mouse_arm_inv mouse_report_inv)
qed

lemma shutdown_mouse_inv: "kernel_inv s \<Longrightarrow> kernel_inv (shutdown_mouse io slot s)"
  by (auto simp: shutdown_mouse_def box_drop_def kernel_inv_defs split: option.splits)

section \<open>The initialisation of the controller\<close>

lemma poll_forever_never_returns: "poll_forever io x s = None"
proof (cases "poll_forever io x s")
  case (Some r)
  then have False
    using poll_forever.raw_induct [of "\<lambda>_ _ _ _. False" "((io, x), s)" r] by (auto simp: bind_eq_Some_conv)
  then show ?thesis ..
qed

lemma map_bar_pages_more: "map_bar_pages is a s = Some s' \<Longrightarrow> pgstate.more s' = pgstate.more s"
proof (induction "is" arbitrary: s)
  case (Cons i js)
  then obtain b v s1 where "map_mmio_page b s = Some (v, s1)" "map_bar_pages js a s1 = Some s'"
    by (auto simp: bind_eq_Some_conv)
  with Cons.IH show ?case using map_mmio_page_more by metis
qed simp

lemma XHCI_new_inv:
  assumes "XHCI_new io b dev s = Some (x, s')"
  shows "indices_in_rings x \<and> kernel_inv s' = kernel_inv s"
proof -
  obtain n h where h: "get_bar0_size io dev (outside s) = (n, h)" by fastforce
  with assms obtain v s1 c where m: "map_mmio_page (address b) (s\<lparr>outside := h\<rparr>) = Some (v, s1)"
    "map_bar_pages c (address b) s1 = Some s'"
    and x: "dequeue_index x = 0" "cmd_enqueue_index x = 0" "ep0_enqueue_index x = 0"
    by (auto simp: XHCI_new_def Let_def bind_eq_Some_conv split: if_splits)
  have "pgstate.more s' = pgstate.more (s\<lparr>outside := h\<rparr>)"
    using map_mmio_page_more [OF m(1)] map_bar_pages_more [OF m(2)] by simp
  from kernel_inv_more [OF this] x show ?thesis
    by (simp add: indices_in_rings_def EVENT_RING_SIZE_def COMMAND_RING_SIZE_def CONTROL_RING_SIZE_def)
qed

lemma setup_msix_inv: "setup_msix io x dev v a s = Some (b, s') \<Longrightarrow> kernel_inv s \<Longrightarrow> kernel_inv s'"
  by (auto simp: setup_msix_def bind_eq_Some_conv Let_def mmio_write32_def split: option.splits)

lemma spin_while_inv:
  assumes rd: "\<forall>s v t. rd s = (v, t) \<longrightarrow> I s \<longrightarrow> I t" and "spin_while rd busy s = Some s'" and "I s"
  shows "I s'"
proof -
  have "(\<forall>s v t. rd s = (v, t) \<longrightarrow> I s \<longrightarrow> I t) \<longrightarrow> I s \<longrightarrow> I s'"
    by (rule spin_while.raw_induct [where P = "\<lambda>rd _ s s'. (\<forall>s v t. rd s = (v, t) \<longrightarrow> I s \<longrightarrow> I t) \<longrightarrow> I s \<longrightarrow> I s'", OF _ assms(2)])
      (auto simp: Let_def split: prod.splits if_splits)
  with rd assms(3) show ?thesis by blast
qed

lemma mmio_read_inv:
  "mmio_read8 io a s = (u, s') \<Longrightarrow> kernel_inv s' = kernel_inv s" "mmio_read32 io a t = (v, t') \<Longrightarrow> kernel_inv t' = kernel_inv t"
  for s t :: "('h, 'z) usb_scheme"
  by (auto simp: mmio_read8_def mmio_read32_def split: prod.splits)

lemma mmio_write_inv [simp]:
  "kernel_inv (mmio_write32 io a v s) = kernel_inv s" "kernel_inv (mmio_write64 io a w s) = kernel_inv s"
  by (simp_all add: mmio_write32_def mmio_write64_def)

lemmas register_defs = op_regs_def cap_length_def read_usbcmd_def write_usbcmd_def read_usbsts_def write_config_def
  write_dcbaap_def write_crcr_def write_erdp_def max_slots_def hcsparams1_def

lemma op_regs_inv: "op_regs io x s = (a, s') \<Longrightarrow> kernel_inv s' = kernel_inv s" for s :: "('h, 'z) usb_scheme"
  by (auto simp: register_defs split: prod.splits dest: mmio_read_inv)

lemma wait_running_inv: "kernel_inv (wait_running io op n s) = kernel_inv s" for s :: "('h, 'z) usb_scheme"
  by (induction n arbitrary: s) (auto simp: read_usbsts_def Let_def split: prod.splits dest: mmio_read_inv)

lemma start_controller_inv: "kernel_inv (start_controller io x s) = kernel_inv s" for s :: "('h, 'z) usb_scheme"
  by (auto simp: start_controller_def Let_def wait_running_inv read_usbcmd_def write_usbcmd_def split: prod.splits
      dest!: op_regs_inv mmio_read_inv)

lemma mmio_read32_eq: "mmio_read32 io a s = (fst (mrd32 io a (outside s)), s\<lparr>outside := snd (mrd32 io a (outside s))\<rparr>)"
  by (simp add: mmio_read32_def split: prod.splits)

lemma setup_event_ring_inv:
  assumes "setup_event_ring io x s = Some (x', s')" "cmd_enqueue_index x < COMMAND_RING_SIZE - 1"
    and "ep0_enqueue_index x < CONTROL_RING_SIZE - 1" "kernel_inv s"
  shows "indices_in_rings x' \<and> kernel_inv s'"
  using assms
  by (auto simp: setup_event_ring_def Let_def bind_eq_Some_conv indices_in_rings_def EVENT_RING_SIZE_def interrupter_access_defs
      mmio_read32_eq dest!: box_zeroed_inv interrupter0_frame)

lemma init_xhci_inv:
  assumes "init_xhci io x s = Some (x', s')" "indices_in_rings x" "kernel_inv s"
  shows "indices_in_rings x' \<and> kernel_inv s'"
proof -
  let ?rd = "\<lambda>rd. \<forall>s v t. rd s = (v, t) \<longrightarrow> kernel_inv s \<longrightarrow> kernel_inv t"
  have rd: "?rd (read_usbsts io op)" "?rd (read_usbcmd io op)" for op
    by (auto simp: read_usbsts_def read_usbcmd_def dest: mmio_read_inv)
  obtain op t0 where op: "op_regs io x s = (op, t0)" by fastforce
  obtain c t1 where c: "read_usbcmd io op t0 = (c, t1)" by fastforce
  let ?t1 = "write_usbcmd io op (c AND NOT USBCMD_RUN_OR_STOP) t1"
  from assms(1) obtain t2 where t2: "spin_while (read_usbsts io op) (\<lambda>v. v AND USBSTS_HCH = 0) ?t1 = Some t2"
    by (auto simp: init_xhci_def op c bind_eq_Some_conv)
  obtain c' t3 where c': "read_usbcmd io op t2 = (c', t3)" by fastforce
  let ?t3 = "write_usbcmd io op (c' OR USBCMD_HCRST) t3"
  from assms(1) obtain t4 t5 where t4: "spin_while (read_usbcmd io op) (\<lambda>v. v AND USBCMD_HCRST \<noteq> 0) ?t3 = Some t4"
    and t5: "spin_while (read_usbsts io op) (\<lambda>v. v AND USBSTS_CNR \<noteq> 0) t4 = Some t5"
    by (auto simp: init_xhci_def op c t2 c' bind_eq_Some_conv)
  obtain n t6 where n: "max_slots io x t5 = (n, t6)" by fastforce
  have "kernel_inv ?t1"
    using assms(3) op_regs_inv [OF op] rd(2) c by (auto simp: write_usbcmd_def)
  then have "kernel_inv t2" by (rule spin_while_inv [OF rd(1) t2])
  then have "kernel_inv ?t3" using rd(2) c' by (auto simp: write_usbcmd_def)
  then have "kernel_inv t4" by (rule spin_while_inv [OF rd(2) t4])
  then have "kernel_inv t5" by (rule spin_while_inv [OF rd(1) t5])
  then have "kernel_inv t6" using n by (auto simp: max_slots_def hcsparams1_def split: prod.splits dest: mmio_read_inv)
  with assms(1) obtain y t7 t8 where y: "setup_event_ring io y t7 = Some (x', t8)" "s' = start_controller io x' t8"
    and rest: "cmd_enqueue_index y = 0" "ep0_enqueue_index y = ep0_enqueue_index x" "kernel_inv t7"
    by (auto simp: init_xhci_def op c t2 c' t4 t5 n bind_eq_Some_conv write_config_def write_dcbaap_def write_crcr_def
        dest!: box_zeroed_inv)
  with setup_event_ring_inv [OF y(1)] rest assms(2) y(2) show ?thesis
    by (simp add: start_controller_inv indices_in_rings_def COMMAND_RING_SIZE_def)
qed

section \<open>The operations that wait\<close>

text \<open>
  \<open>tick\<close> is whatever runs while the code waits. When it keeps the invariant, so does every operation of the USB modules.
\<close>

locale driver_world =
  fixes io :: "('h, 'e) machine_scheme" and tick :: "('h, 'z) usb_scheme \<Rightarrow> ('h, 'z) usb_scheme option"
  assumes tick_keeps: "tick s = Some s' \<Longrightarrow> kernel_inv s \<Longrightarrow> kernel_inv s'"
begin

lemma wait_flag_keeps: "wait_flag tick flag n s = Some (b, s') \<Longrightarrow> kernel_inv s \<Longrightarrow> kernel_inv s'"
  by (induction n arbitrary: s) (auto simp: bind_eq_Some_conv split: if_splits dest: tick_keeps)

lemma with_xhci_keeps:
  assumes "with_xhci f s = Some s'" "kernel_inv s"
    and "\<And>x x' t. f x s = Some (x', t) \<Longrightarrow> indices_in_rings x \<Longrightarrow> indices_in_rings x' \<and> kernel_inv t"
  shows "kernel_inv s'"
  using assms by (auto simp: with_xhci_def bind_eq_Some_conv intro!: kernel_inv_xhci dest: kernel_inv_indices)

lemma issue_command_keeps:
  assumes e: "issue_command io tick prep p ty slot s = Some (r, s')" and i: "kernel_inv s"
    and prep: "\<And>x. indices_in_rings x \<Longrightarrow> indices_in_rings (prep x)"
  shows "kernel_inv s'"
proof -
  from e obtain s1 b where w: "with_xhci (\<lambda>x s. send_command io p 0 ty slot (prep x) s) (s\<lparr>completion_pending := False\<rparr>) = Some s1"
    and f: "wait_flag tick completion_pending WAIT_LIMIT s1 = Some (b, s')"
    unfolding issue_command_def Let_def bind_eq_Some_conv by (auto simp del: kernel_inv_update)
  have "kernel_inv s1"
  proof (rule with_xhci_keeps [OF w])
    show "kernel_inv (s\<lparr>completion_pending := False\<rparr>)" using i by simp
  next
    fix x x' t
    assume "send_command io p 0 ty slot (prep x) (s\<lparr>completion_pending := False\<rparr>) = Some (x', t)" "indices_in_rings x"
    from send_command_inv [OF this(1) prep [OF this(2)]] i show "indices_in_rings x' \<and> kernel_inv t" by simp
  qed
  then show ?thesis using wait_flag_keeps [OF f] by blast
qed

lemma control_transfer_keeps:
  assumes e: "control_transfer io tick slot ts s = Some (r, s')" and i: "kernel_inv s"
  shows "kernel_inv s'"
proof -
  from e obtain s1 b where w: "with_xhci (\<lambda>x s. do {
       let (x, s) = fold ep0_put ts (x, s);
       s \<leftarrow> ring_doorbell io x (ucast slot) 1 s;
       Some (x, s) }) (s\<lparr>transfer_completion_pending := False\<rparr>) = Some s1"
    and f: "wait_flag tick transfer_completion_pending WAIT_LIMIT s1 = Some (b, s')"
    unfolding control_transfer_def Let_def bind_eq_Some_conv by (auto simp del: kernel_inv_update)
  have "kernel_inv s1"
    using i by (intro with_xhci_keeps [OF w])
      (auto simp: bind_eq_Some_conv split: prod.splits dest!: ep0_fold_inv ring_doorbell_frame)
  then show ?thesis using wait_flag_keeps [OF f] by blast
qed

lemma enable_slot_keeps: "enable_slot io tick s = Some (r, s') \<Longrightarrow> kernel_inv s \<Longrightarrow> kernel_inv s'"
  by (auto simp: enable_slot_def try_bind_eq_Some dest: issue_command_keeps)

lemma disable_slot_keeps: "disable_slot io tick slot s = Some (r, s') \<Longrightarrow> kernel_inv s \<Longrightarrow> kernel_inv s'"
  by (auto simp: disable_slot_def try_bind_eq_Some bind_eq_Some_conv dest: issue_command_keeps)

lemma address_device_keeps:
  "address_device io tick slot port speed s = Some (r, s') \<Longrightarrow> kernel_inv s \<Longrightarrow> kernel_inv s'"
  by (auto simp: address_device_def try_bind_eq_Some bind_eq_Some_conv Let_def
      dest!: box_zeroed_inv phys_or_error_same issue_command_keeps)
    (auto simp: indices_in_rings_def CONTROL_RING_SIZE_def)

lemma get_device_descriptor_keeps:
  "get_device_descriptor io tick slot s = Some (r, s') \<Longrightarrow> kernel_inv s \<Longrightarrow> kernel_inv s'"
  by (auto simp: get_device_descriptor_def try_bind_eq_Some bind_eq_Some_conv Let_def split: if_splits
      dest!: box_zeroed_inv phys_or_error_same control_transfer_keeps)

lemma control_transfer_in_keeps:
  "control_transfer_in io tick slot a b v i p l s = Some (r, s') \<Longrightarrow> kernel_inv s \<Longrightarrow> kernel_inv s'"
  by (auto simp: control_transfer_in_def try_bind_eq_Some Let_def split: if_splits dest!: control_transfer_keeps)

lemma control_transfer_no_data_keeps:
  "control_transfer_no_data io tick slot a b v i s = Some (r, s') \<Longrightarrow> kernel_inv s \<Longrightarrow> kernel_inv s'"
  by (auto simp: control_transfer_no_data_def try_bind_eq_Some Let_def dest!: control_transfer_keeps)

lemma find_endpoints_keeps:
  "get_configuration_descriptor_and_find_interrupt_endpoints io tick slot s = Some (r, s') \<Longrightarrow> kernel_inv s \<Longrightarrow> kernel_inv s'"
  by (auto simp: get_configuration_descriptor_and_find_interrupt_endpoints_def try_bind_eq_Some bind_eq_Some_conv
      dest!: box_zeroed_inv phys_or_error_same control_transfer_in_keeps)

lemma configure_endpoint_keeps:
  "configure_endpoint io tick slot port ep s = Some (r, s') \<Longrightarrow> kernel_inv s \<Longrightarrow> kernel_inv s'"
  by (auto simp: configure_endpoint_def try_bind_eq_Some bind_eq_Some_conv Let_def
      dest!: box_zeroed_inv phys_or_error_same issue_command_keeps)

lemma init_keyboard_keeps: "init_keyboard io tick slot ep n s = Some s' \<Longrightarrow> kernel_inv s \<Longrightarrow> kernel_inv s'"
  by (auto simp: init_keyboard_def bind_eq_Some_conv Let_def
      dest!: control_transfer_no_data_keeps box_zeroed_inv keyboard_started)

lemma init_mouse_keeps: "init_mouse io tick slot ep n s = Some s' \<Longrightarrow> kernel_inv s \<Longrightarrow> kernel_inv s'"
  by (auto simp: init_mouse_def bind_eq_Some_conv Let_def
      dest!: control_transfer_no_data_keeps box_zeroed_inv mouse_started)

lemma dispatch_endpoint_keeps: "dispatch_endpoint io tick slot port ep s = Some (k, s') \<Longrightarrow> kernel_inv s \<Longrightarrow> kernel_inv s'"
  by (auto simp: dispatch_endpoint_def bind_eq_Some_conv case_sum_eq_Some split: if_splits
      dest!: configure_endpoint_keeps init_keyboard_keeps init_mouse_keeps)

lemma dispatch_endpoints_keeps:
  "dispatch_endpoints io tick slot port eps a b s = Some (a', b', s') \<Longrightarrow> kernel_inv s \<Longrightarrow> kernel_inv s'"
proof (induction eps arbitrary: a b s)
  case (Cons ep eps)
  then obtain k s1 where d: "dispatch_endpoint io tick slot port ep s = Some (k, s1)"
    by (auto simp: bind_eq_Some_conv)
  with Cons.prems(2) have "kernel_inv s1" by (rule dispatch_endpoint_keeps [rotated])
  with Cons d show ?case by (auto split: option.splits DeviceKind.splits)
qed simp

lemma init_one_device_keeps:
  "init_one_device io tick port speed s = Some (r, s') \<Longrightarrow> kernel_inv s \<Longrightarrow> kernel_inv s'"
  by (auto simp: init_one_device_def Let_def bind_eq_Some_conv case_sum_eq_Some
      dest!: enable_slot_keeps address_device_keeps get_device_descriptor_keeps find_endpoints_keeps
        control_transfer_no_data_keeps dispatch_endpoints_keeps)

lemma shutdown_device_keeps: "shutdown_device io tick e s = Some s' \<Longrightarrow> kernel_inv s \<Longrightarrow> kernel_inv s'"
  by (auto simp: shutdown_device_def Let_def bind_eq_Some_conv shutdown_keyboard_inv shutdown_mouse_inv
      dest!: disable_slot_keeps split: if_splits)

lemma drop_disconnected_keeps_inv:
  "drop_disconnected io tick ps es s = Some (es', s') \<Longrightarrow> kernel_inv s \<Longrightarrow> kernel_inv s'"
  by (induction es arbitrary: s es') (auto simp: bind_eq_Some_conv split: if_splits dest: shutdown_device_keeps)

lemma connect_new_keeps:
  "connect_new io tick ps es s = Some (es', s') \<Longrightarrow> kernel_inv s \<Longrightarrow> kernel_inv s'"
proof (induction ps arbitrary: s es)
  case (Cons p ps)
  then show ?case
    by (cases p) (auto simp: bind_eq_Some_conv split: if_splits dest: init_one_device_keeps)
qed simp

lemma discover_keeps:
  assumes "discover_and_init_hid_devices io tick s = Some s'" "kernel_inv s"
  shows "kernel_inv s'"
proof -
  obtain x where x: "xhci_instance s = Some x" using assms(1) by (auto simp: discover_and_init_hid_devices_def bind_eq_Some_conv)
  obtain ps s1 where ps: "scan_ports io x s = (ps, s1)" by fastforce
  obtain h where s1: "s1 = s\<lparr>outside := h\<rparr>" using scan_ports_frame [OF ps] by blast
  from assms(1) x ps obtain es s2 es' s3 where d: "drop_disconnected io tick ps (active_ports s1) s1 = Some (es, s2)"
    and c: "connect_new io tick ps es s2 = Some (es', s3)" and s': "s' = s3\<lparr>active_ports := es'\<rparr>"
    by (auto simp: discover_and_init_hid_devices_def bind_eq_Some_conv)
  note ok = scan_ports_indices [OF ps]
  have "distinct (map ap_root_port es)"
    using drop_disconnected_keeps [OF ok d] assms(2) by (simp add: s1 kernel_inv_def distinct_map_filter)
  then have "distinct (map ap_root_port es')"
    using connect_new_adds [OF ok c] by blast
  moreover have "kernel_inv s3"
    using connect_new_keeps [OF c drop_disconnected_keeps_inv [OF d]] assms(2) s1 by simp
  ultimately show ?thesis by (simp add: s' kernel_inv_defs cong: option.case_cong)
qed

lemma poll_hotplug_keeps: "poll_hotplug io tick s = Some s' \<Longrightarrow> kernel_inv s \<Longrightarrow> kernel_inv s'"
  by (auto simp: poll_hotplug_def Let_def split: if_splits dest: discover_keeps)

lemma init_xhci_controller_keeps:
  assumes "init_xhci_controller io tick ctrl s = Some s'" "kernel_inv s"
  shows "kernel_inv s'"
proof -
  from assms(1) obtain b h x0 s1 msix s2 x s3 where
      new: "XHCI_new io b ctrl (s\<lparr>outside := h\<rparr>) = Some (x0, s1)"
    and m: "setup_msix io x0 ctrl 44 0 s1 = Some (msix, s2)" and ini: "init_xhci io x0 s2 = Some (x, s3)"
    and r: "(let (ports, s) = scan_ports io x s3 in
       if msix then (let s = (if xhci_instance s = None then s\<lparr>xhci_instance := Some x\<rparr> else s) in discover_and_init_hid_devices io tick s)
       else poll_forever io x s) = Some s'"
    by (auto simp: init_xhci_controller_def Let_def bind_eq_Some_conv)
  have "indices_in_rings x0 \<and> kernel_inv s1" using XHCI_new_inv [OF new] assms(2) by simp
  then have i3: "indices_in_rings x \<and> kernel_inv s3" using setup_msix_inv [OF m] init_xhci_inv [OF ini] by blast
  obtain ps h' where "scan_ports io x s3 = (ps, s3\<lparr>outside := h'\<rparr>)"
    using scan_ports_frame [of io x s3] by (metis surj_pair)
  with r have "discover_and_init_hid_devices io tick
      (if xhci_instance s3 = None then s3\<lparr>outside := h', xhci_instance := Some x\<rparr> else s3\<lparr>outside := h'\<rparr>) = Some s'"
    by (cases msix) (simp_all add: poll_forever_never_returns)
  then show ?thesis
    by (rule discover_keeps) (use i3 in \<open>simp add: kernel_inv_xhci\<close>)
qed

lemma init_usb_controllers_keeps: "init_usb_controllers io tick s = Some s' \<Longrightarrow> kernel_inv s \<Longrightarrow> kernel_inv s'"
proof -
  have c: "init_controllers io tick cs t = Some t' \<Longrightarrow> kernel_inv t \<Longrightarrow> kernel_inv t'" for cs t t'
    by (induction cs arbitrary: t) (auto simp: bind_eq_Some_conv split: if_splits dest: init_xhci_controller_keeps)
  assume "init_usb_controllers io tick s = Some s'" "kernel_inv s"
  then show ?thesis by (auto simp: init_usb_controllers_def split: prod.splits intro: c)
qed

end

section \<open>The interrupt handler as the world of the drivers\<close>

lemma handle_xhci_irq_inv: "handle_xhci_irq io s = Some s' \<Longrightarrow> kernel_inv s \<Longrightarrow> kernel_inv s'"
proof (cases "xhci_instance s")
  case (Some x)
  assume e: "handle_xhci_irq io s = Some s'" and i: "kernel_inv s"
  from e Some obtain x1 s1 s2 where p: "poll_event_ring io x s = Some (x1, s1)"
    and k: "poll_keyboard io (s1\<lparr>xhci_instance := Some x1\<rparr>) = Some s2" "poll_mouse io s2 = Some s'"
    by (auto simp: handle_xhci_irq_def bind_eq_Some_conv)
  have "kernel_inv (s1\<lparr>xhci_instance := Some x1\<rparr>)"
    using poll_event_ring_inv [OF p kernel_inv_indices [OF i Some] i] by (simp add: kernel_inv_xhci)
  then show ?thesis using k poll_keyboard_inv poll_mouse_inv by blast
qed (auto simp: handle_xhci_irq_def bind_eq_Some_conv dest: poll_keyboard_inv poll_mouse_inv)

lemma isr_tick_inv: "isr_tick io s = Some s' \<Longrightarrow> kernel_inv s \<Longrightarrow> kernel_inv s'"
  by (auto simp: isr_tick_def common_interrupt_handler_def send_eoi_def lapic_write_def bind_eq_Some_conv Let_def
      split: prod.splits if_splits option.splits dest!: handle_xhci_irq_inv)

interpretation isr: driver_world io "isr_tick io" for io :: "('h, 'e) machine_scheme"
  by unfold_locales (rule isr_tick_inv)

lemma hcf_round_inv: "hcf_round io s = Some s' \<Longrightarrow> kernel_inv s \<Longrightarrow> kernel_inv s'"
  by (auto simp: hcf_round_def bind_eq_Some_conv dest: isr_tick_inv isr.poll_hotplug_keeps)

section \<open>From boot on\<close>

text \<open>The statics of the USB modules as the linker lays them out, and every state at the top of the main loop.\<close>

definition statics_initial :: "('h, 'z) usb_scheme \<Rightarrow> bool" where
  "statics_initial s \<longleftrightarrow> xhci_instance s = None \<and> kbd_state s = None \<and> mouse_state s = None \<and> active_ports s = []
     \<and> kbd_dci s = 0 \<and> kbd_slot_id s = 0 \<and> \<not> kbd_report_pending s
     \<and> mouse_dci s = 0 \<and> mouse_slot_id s = 0 \<and> \<not> mouse_report_pending s"

inductive main_loop :: "('h, 'e) machine_scheme \<Rightarrow> layout \<Rightarrow> ('h, 'z) boot_scheme \<Rightarrow> bool"
  for io :: "('h, 'e) machine_scheme" and lay :: layout where
  booted: "statics_initial s \<Longrightarrow> bring_up io lay s = Some s' \<Longrightarrow> main_loop io lay s'"
| round: "main_loop io lay s \<Longrightarrow> hcf_round io s = Some s' \<Longrightarrow> main_loop io lay s'"

lemma init_lapic_inv: "init_lapic io s = Some (l, s') \<Longrightarrow> kernel_inv s \<Longrightarrow> kernel_inv s'"
  by (auto simp: init_lapic_def enable_apic_def lapic_write_def bind_eq_Some_conv Let_def split: prod.splits
      dest!: map_mmio_page_more kernel_inv_more)

lemma init_ioapic_inv: "init_ioapic io s = Some (a, s') \<Longrightarrow> kernel_inv s \<Longrightarrow> kernel_inv s'"
  by (auto simp: init_ioapic_def set_redirect_def ioapic_write_def bind_eq_Some_conv Let_def split: prod.splits
      dest!: map_mmio_page_more kernel_inv_more)

lemma kernel_inv_boot [simp]:
  "kernel_inv (s\<lparr>display := d\<rparr>) = kernel_inv s" "kernel_inv (s\<lparr>cpu_tables := c\<rparr>) = kernel_inv s"
  "kernel_inv (s\<lparr>idt_table := t\<rparr>) = kernel_inv s" "kernel_inv (s\<lparr>lapic := l\<rparr>) = kernel_inv s"
  by (simp_all add: kernel_inv_defs cong: option.case_cong)

lemma say_inv: "say message s = Some s' \<Longrightarrow> kernel_inv s \<Longrightarrow> kernel_inv s'"
  by (auto simp: say_def bind_eq_Some_conv)

lemma test_rsdp_inv: "test_rsdp p s = Some s' \<Longrightarrow> kernel_inv s \<Longrightarrow> kernel_inv s'"
  by (simp add: kernel_inv_more [OF test_rsdp_more])

lemma memory_init_inv: "memory_init s = Some s' \<Longrightarrow> kernel_inv s \<Longrightarrow> kernel_inv s'"
  by (simp add: kernel_inv_more [OF upper_layers(2) [OF memory_init_more]])

lemma disable_pic_inv: "kernel_inv (disable_pic io s) = kernel_inv s" for s :: "('h, 'z) usb_scheme"
  by (simp add: disable_pic_def)

lemma case_prod_snd: "(case p of (a, b) \<Rightarrow> f b) = f (snd p)"
  by (simp add: split_def)

lemma bring_up_inv: "bring_up io lay s = Some s' \<Longrightarrow> kernel_inv s \<Longrightarrow> kernel_inv s'"
proof -
  assume "bring_up io lay s = Some s'" "kernel_inv s"
  then show ?thesis
    by (auto simp: bring_up_def Let_def split_def bind_eq_Some_conv disable_pic_inv split: if_split_asm
        dest!: say_inv test_rsdp_inv init_lapic_inv init_ioapic_inv memory_init_inv isr.init_usb_controllers_keeps)
qed

lemma statics_initial_inv: "statics_initial s \<Longrightarrow> kernel_inv s"
  by (simp add: statics_initial_def kernel_inv_defs)

text \<open>
  Property C4. In every state at the top of the main loop, from boot on and whatever the hardware did, the ring indices of the controller driver
  and of the report rings are inside their rings, the statics by which the interrupt handler routes reports are those of
  the drivers' states, no report is pending for a driver that is not there, and no port is in the registry twice.
\<close>

theorem main_loop_invariant:
  assumes "main_loop io lay s"
  shows "kernel_inv s"
  using assms by (induction rule: main_loop.induct) (auto intro: statics_initial_inv bring_up_inv hcf_round_inv)

text \<open>
  A machine without USB controllers comes up and idles. Its page tables are one frame whose entries all point back to it, so that
  every address is mapped already; one frame is free.
\<close>

definition idle_ram :: mem where
  "idle_ram a =
     (let k = a - 0xFFFF800000001000 in
      if k < 0x1000 then (if k AND 7 = 0 then 3 else if k AND 7 = 1 then 0x10 else 0)
      else if k < 0x1008 then 0xFF else 0)"

definition idle_pages :: pgstate where
  "idle_pages = pg_base\<lparr>ram := idle_ram\<rparr>"

definition idle_boot :: "unit boot" where
  "idle_boot = system.extend (system_start (usb_start idle_pages ()))
     \<lparr>base_revision_supported = True, rsdp_response = None,
      display = \<lparr>vram = \<lambda>_. 0, framebuffer = None, POSITION_X = 0, POSITION_Y = 0\<rparr>,
      idt_table = idt_initial,
      cpu_tables = \<lparr>gdtr = \<lparr>tp_limit = 0, tp_base = 0\<rparr>, idtr = \<lparr>tp_limit = 0, tp_base = 0\<rparr>,
        seg_cs = 0, seg_ds = 0, seg_es = 0, seg_ss = 0\<rparr>\<rparr>"

definition idle_layout :: layout where
  "idle_layout = \<lparr>gdt_address = 0xFFFFFFFF80001000, idt_address = 0xFFFFFFFF80002000, stub_address = \<lambda>_. 0xFFFFFFFF80003000\<rparr>"

lemma idle_boot_fields:
  "hhdm_offset idle_boot = Some 0xFFFF800000000000" "cr3 idle_boot = 0x1000" "ram idle_boot = idle_ram"
  "fa_initialized idle_boot" "fa_head idle_boot = Some 0x2000" "lapic idle_boot = None" "rsdp_response idle_boot = None"
  "base_revision_supported idle_boot" "framebuffer (display idle_boot) = None" "statics_initial idle_boot"
  by (simp_all add: idle_boot_def idle_pages_def pg_base_def system_start_def usb_start_def kernel_start_def statics_initial_def
      system.extend_def usb.extend_def kernel.extend_def pgstate.extend_def)

lemma idle_entries:
  "rd64 idle_ram 0xFFFF800000001800 = 0x1003" "rd64 idle_ram 0xFFFF800000001000 = 0x1003"
  "rd64 idle_ram 0xFFFF800000001018 = 0x1003" "rd64 idle_ram 0xFFFF800000001FB0 = 0x1003"
  "rd64 idle_ram 0xFFFF800000002000 = NULL_MARK"
  by (simp_all add: rd64_def mem_read_def idle_ram_def upt_rec NULL_MARK_def)

lemma idle_map_mmio_page:
  assumes "hhdm_offset s = Some 0xFFFF800000000000" "cr3 s = 0x1000" "ram s = idle_ram"
  shows "map_mmio_page 0 s = Some (0xFFFF800000000000, s)" "map_mmio_page 0xFEC00000 s = Some (0xFFFF8000FEC00000, s)"
  using assms
  by (simp_all add: map_mmio_page_def map_page_def physical_to_virtual_def checked_add_def table_indices_def pml4_virt_def
      hhdm_or_unavailable_def next_table_or_create_def entry_at_def idle_entries PAGE_SIZE_def ADDR_MASK_def PRESENT_def
      HUGE_PAGE_def Let_def)

lemma idle_apics:
  assumes "hhdm_offset s = Some 0xFFFF800000000000" "cr3 s = 0x1000" "ram s = idle_ram"
  shows "\<exists>h. init_lapic quiet_machine s = Some (\<lparr>lapic_base = 0xFFFF800000000000\<rparr>, s\<lparr>outside := h\<rparr>)"
    "\<exists>h. init_ioapic quiet_machine s = Some (\<lparr>ioapic_base = 0xFFFF8000FEC00000\<rparr>, s\<lparr>outside := h\<rparr>)"
  using idle_map_mmio_page [of "s\<lparr>outside := ()\<rparr>"] idle_map_mmio_page [of s] assms
  by (simp_all add: init_lapic_def enable_apic_def quiet_machine_def lapic_write_def checked_add_def mmio_write32_def
      APIC_SPURIOUS_VECTOR_REG_def init_ioapic_def set_redirect_def ioapic_write_def)

lemma idle_memory_init:
  assumes "hhdm_offset s = Some 0xFFFF800000000000" "ram s = idle_ram" "fa_initialized s" "fa_head s = Some 0x2000"
  shows "\<exists>s'. memory_init s = Some s'"
proof -
  have "fa_inv s [0x2000]"
    using assms by (simp add: fa_inv_def free_list_def frame_ok_def hhdm_ok_def hhdm_def aligned_def mask_eq_exp_minus_1
        next_of_def idle_entries)
  from init_heap_eq [OF this] show ?thesis by (auto simp: memory_init_def)
qed

lemma quiet_no_controllers: "find_usb_controllers quiet_machine h = ([], ())"
proof -
  have p: "\<exists>dev. probe_function quiet_machine b d f h = (Some dev, ()) \<and> dev_class dev = 0 \<and> header_type dev = 0" for b d f h
    by (simp add: probe_function_def config_read_u16_def config_read_u32_def config_read_u8_def quiet_machine_def)
  have "fst (scan_devices quiet_machine (\<lambda>dev. dev_class dev = 0x0C \<and> dev_subclass dev = 0x03) bds h) = []" for bds h
  proof (induction bds arbitrary: h)
    case (Cons bd bds)
    obtain b d where "bd = (b, d)" by (cases bd)
    then show ?case
      using Cons p [of b d 0 h] by (auto simp: scan_device_def split: prod.splits)
  qed simp
  then show ?thesis by (simp add: find_usb_controllers_def prod_eq_iff)
qed

lemma idle_bring_up: "\<exists>s. bring_up quiet_machine idle_layout idle_boot = Some s"
proof -
  obtain t c where t: "load_idt (stub_address idle_layout) (idt_address idle_layout) (idt_table idle_boot)
      (load_gdt (gdt_address idle_layout) (cpu_tables idle_boot)) = (t, c)" by fastforce
  let ?s = "idle_boot\<lparr>display := display idle_boot, idt_table := t, cpu_tables := c, outside := ()\<rparr>"
  obtain h where l: "init_lapic quiet_machine ?s = Some (\<lparr>lapic_base = 0xFFFF800000000000\<rparr>, ?s\<lparr>outside := h\<rparr>)"
    using idle_apics(1) [of ?s] idle_boot_fields by auto
  let ?s2 = "?s\<lparr>outside := h, lapic := Some \<lparr>lapic_base = 0xFFFF800000000000\<rparr>\<rparr>"
  obtain h2 where a: "init_ioapic quiet_machine ?s2 = Some (\<lparr>ioapic_base = 0xFFFF8000FEC00000\<rparr>, ?s2\<lparr>outside := h2\<rparr>)"
    using idle_apics(2) [of ?s2] idle_boot_fields by auto
  obtain s3 where m: "memory_init (?s2\<lparr>outside := h2\<rparr>) = Some s3"
    using idle_memory_init [of "?s2\<lparr>outside := h2\<rparr>"] idle_boot_fields by auto
  have "display s3 = display (?s2\<lparr>outside := h2\<rparr>)"
    using memory_init_more [OF m] by (cases s3; cases "?s2\<lparr>outside := h2\<rparr>") simp
  then have dark: "framebuffer (display s3) = None" using idle_boot_fields by simp
  have "init_usb_controllers quiet_machine (isr_tick quiet_machine) (s3\<lparr>display := d, outside := u\<rparr>) = Some (s3\<lparr>display := d, outside := ()\<rparr>)" for d u
    by (simp add: init_usb_controllers_def quiet_no_controllers)
  then show ?thesis
    using l a m by (simp add: bring_up_def Let_def draw_line_def t idle_boot_fields test_rsdp_def disable_pic_def case_prod_snd say_def messages_dark
        print_scan_dark [OF dark])
qed

theorem main_loop_invariant_witness:
  "\<exists>s :: unit boot. main_loop quiet_machine idle_layout s \<and> kernel_inv s"
proof -
  obtain s where s: "bring_up quiet_machine idle_layout idle_boot = Some s" using idle_bring_up by blast
  then have m: "main_loop quiet_machine idle_layout s"
    using idle_boot_fields by (blast intro: main_loop.booted)
  from main_loop_invariant [OF m] m show ?thesis by blast
qed

end
