(* ===== verification/Contexts.thy ===== *)
theory Contexts
  imports Slot_Commands
begin

text \<open>
  The \<open>repr(C)\<close> structures of \<^verbatim>\<open>kernel/src/usb/xhci.rs\<close> that the controller reads by DMA: slot, endpoint and input
  contexts as records, their layout in memory, and the values \<open>address_device\<close> and \<open>configure_endpoint\<close> give
  their fields. \<open>Xhci_Device\<close> has these functions as the stores they do; here the stores are shown to build exactly these
  values.
\<close>

section \<open>The structures\<close>

record SlotContext =
  slot_dword0 :: u32
  slot_dword1 :: u32
  slot_dword2 :: u32
  slot_dword3 :: u32
  slot_reserved :: "u32 list"

record EndpointContext =
  ep_dword0 :: u32
  ep_dword1 :: u32
  tr_dequeue_lo :: u32
  tr_dequeue_hi :: u32
  ep_dword4 :: u32
  ep_reserved :: "u32 list"

record InputControlContext =
  drop_flags :: u32
  add_flags :: u32
  control_reserved :: "u32 list"

record InputContext =
  input_control :: InputControlContext
  input_slot :: SlotContext
  input_ep0 :: EndpointContext

record InputContextFull =
  full_control :: InputControlContext
  full_slot :: SlotContext
  full_endpoints :: "EndpointContext list"

record DeviceContext =
  device_slot :: SlotContext
  device_endpoints :: "EndpointContext list"

text \<open>\<open>core::mem::zeroed()\<close> of each.\<close>

definition zero_slot :: SlotContext where
  "zero_slot = \<lparr>slot_dword0 = 0, slot_dword1 = 0, slot_dword2 = 0, slot_dword3 = 0, slot_reserved = [0, 0, 0, 0]\<rparr>"

definition zero_endpoint :: EndpointContext where
  "zero_endpoint = \<lparr>ep_dword0 = 0, ep_dword1 = 0, tr_dequeue_lo = 0, tr_dequeue_hi = 0, ep_dword4 = 0, ep_reserved = [0, 0, 0]\<rparr>"

definition zero_control :: InputControlContext where
  "zero_control = \<lparr>drop_flags = 0, add_flags = 0, control_reserved = [0, 0, 0, 0, 0, 0]\<rparr>"

definition InputContext_zeroed :: InputContext where
  "InputContext_zeroed = \<lparr>input_control = zero_control, input_slot = zero_slot, input_ep0 = zero_endpoint\<rparr>"

definition InputContextFull_zeroed :: InputContextFull where
  "InputContextFull_zeroed = \<lparr>full_control = zero_control, full_slot = zero_slot, full_endpoints = replicate 31 zero_endpoint\<rparr>"

definition DeviceContext_zeroed :: DeviceContext where
  "DeviceContext_zeroed = \<lparr>device_slot = zero_slot, device_endpoints = replicate 31 zero_endpoint\<rparr>"

text \<open>The array of device contexts, the rings and the entry of the event ring segment table, as their constructors make them.\<close>

definition Dcbaa_new :: "u64 list" where "Dcbaa_new = replicate 256 0"
definition CommandRing_new :: "Trb list" where "CommandRing_new = replicate COMMAND_RING_SIZE Trb_empty"
definition EventRingSegment_new :: "Trb list" where "EventRingSegment_new = replicate EVENT_RING_SIZE Trb_empty"
definition TransferRing_new :: "Trb list" where "TransferRing_new = replicate CONTROL_RING_SIZE Trb_empty"

record ErstEntry =
  ring_segment_base :: u64
  ring_segment_size :: u32
  erst_reserved :: u32

section \<open>Their layout\<close>

text \<open>Words of 32 bits in a row, and the structures from the words that start at index \<open>i\<close>.\<close>

definition words_at :: "mem \<Rightarrow> u64 \<Rightarrow> nat \<Rightarrow> u32 list" where
  "words_at m a n = map (\<lambda>i. rd32 m (a + of_nat (4 * i))) [0..<n]"

definition slot_of :: "u32 list \<Rightarrow> nat \<Rightarrow> SlotContext" where
  "slot_of ws i = \<lparr>slot_dword0 = ws ! i, slot_dword1 = ws ! (i + 1), slot_dword2 = ws ! (i + 2), slot_dword3 = ws ! (i + 3),
     slot_reserved = [ws ! (i + 4), ws ! (i + 5), ws ! (i + 6), ws ! (i + 7)]\<rparr>"

definition endpoint_of :: "u32 list \<Rightarrow> nat \<Rightarrow> EndpointContext" where
  "endpoint_of ws i = \<lparr>ep_dword0 = ws ! i, ep_dword1 = ws ! (i + 1), tr_dequeue_lo = ws ! (i + 2), tr_dequeue_hi = ws ! (i + 3),
     ep_dword4 = ws ! (i + 4), ep_reserved = [ws ! (i + 5), ws ! (i + 6), ws ! (i + 7)]\<rparr>"

definition control_of :: "u32 list \<Rightarrow> nat \<Rightarrow> InputControlContext" where
  "control_of ws i = \<lparr>drop_flags = ws ! i, add_flags = ws ! (i + 1),
     control_reserved = [ws ! (i + 2), ws ! (i + 3), ws ! (i + 4), ws ! (i + 5), ws ! (i + 6), ws ! (i + 7)]\<rparr>"

definition InputContext_at :: "mem \<Rightarrow> u64 \<Rightarrow> InputContext" where
  "InputContext_at m a = (let ws = words_at m a 24 in
     \<lparr>input_control = control_of ws 0, input_slot = slot_of ws 8, input_ep0 = endpoint_of ws 16\<rparr>)"

definition InputContextFull_at :: "mem \<Rightarrow> u64 \<Rightarrow> InputContextFull" where
  "InputContextFull_at m a = (let ws = words_at m a 264 in
     \<lparr>full_control = control_of ws 0, full_slot = slot_of ws 8, full_endpoints = map (\<lambda>e. endpoint_of ws (16 + 8 * e)) [0..<31]\<rparr>)"

definition DeviceContext_at :: "mem \<Rightarrow> u64 \<Rightarrow> DeviceContext" where
  "DeviceContext_at m a = (let ws = words_at m a 256 in
     \<lparr>device_slot = slot_of ws 0, device_endpoints = map (\<lambda>e. endpoint_of ws (8 + 8 * e)) [0..<31]\<rparr>)"

definition Dcbaa_at :: "mem \<Rightarrow> u64 \<Rightarrow> u64 list" where
  "Dcbaa_at m a = map (\<lambda>i. rd64 m (a + of_nat (8 * i))) [0..<256]"

definition trbs_at :: "mem \<Rightarrow> u64 \<Rightarrow> nat \<Rightarrow> Trb list" where
  "trbs_at m a n = map (\<lambda>j. trb_read m (trb_slot a j)) [0..<n]"

definition ErstEntry_at :: "mem \<Rightarrow> u64 \<Rightarrow> ErstEntry" where
  "ErstEntry_at m a = \<lparr>ring_segment_base = rd64 m a, ring_segment_size = rd32 m (a + 8), erst_reserved = rd32 m (a + 12)\<rparr>"

text \<open>Stores and fills, seen on the words.\<close>

lemma length_words_at [simp]: "length (words_at m a n) = n"
  by (simp add: words_at_def)

lemma word_cells:
  assumes "i < n" "j < n" "4 * n < 2 ^ 64"
  shows "i \<noteq> j \<Longrightarrow> disj (a + of_nat (4 * i)) 4 (a + of_nat (4 * j)) 4"
    "unat (a + of_nat (4 * i) - a :: u64) + 4 \<le> 4 * n"
proof -
  have *: "disj (a + of_nat (4 * p)) 4 (a + of_nat (4 * q)) 4" if "p < q" "q < n" for p q
    using that assms(3) by (intro offsets_disj) simp_all
  show "i \<noteq> j \<Longrightarrow> disj (a + of_nat (4 * i)) 4 (a + of_nat (4 * j)) 4"
    using * [of i j] * [of j i] assms by (cases "i < j") (auto simp: disj_sym)
  show "unat (a + of_nat (4 * i) - a :: u64) + 4 \<le> 4 * n"
    using assms by (simp add: unat_of_nat del: of_nat_mult)
qed

lemma words_write:
  assumes "i < n" "4 * n < 2 ^ 64"
  shows "words_at (wr32 m (a + of_nat (4 * i)) v) a n = (words_at m a n)[i := v]"
proof (rule nth_equalityI)
  fix j assume "j < length (words_at (wr32 m (a + of_nat (4 * i)) v) a n)"
  then have "j < n" by simp
  then show "words_at (wr32 m (a + of_nat (4 * i)) v) a n ! j = (words_at m a n)[i := v] ! j"
    using word_cells(1) [OF assms(1) _ assms(2), of j a] assms(1)
    by (cases "i = j") (auto simp: words_at_def rd32_wr32_same c32.rd_wr_sep simp del: of_nat_mult)
qed simp

lemma words_fill:
  assumes "4 * n \<le> k" "k < 2 ^ 64"
  shows "words_at (mem_fill m a 0 k) a n = replicate n 0"
proof (rule nth_equalityI)
  fix i assume "i < length (words_at (mem_fill m a 0 k) a n)"
  then have i: "i < n" by simp
  then have "rd32 (mem_fill m a 0 k) (a + of_nat (4 * i)) = 0"
    using word_cells(2) [OF i i, of a] assms by (intro rd32_fill_zero) (auto simp del: of_nat_mult)
  with i show "words_at (mem_fill m a 0 k) a n ! i = replicate n 0 ! i"
    by (simp add: words_at_def del: of_nat_mult)
qed simp

lemma zeroed_structures:
  "InputContext_at (mem_fill m a 0 128) a = InputContext_zeroed"
  "InputContextFull_at (mem_fill m a 0 1088) a = InputContextFull_zeroed"
  "DeviceContext_at (mem_fill m a 0 1024) a = DeviceContext_zeroed"
  by (simp_all add: InputContext_at_def InputContextFull_at_def DeviceContext_at_def words_fill Let_def control_of_def
      slot_of_def endpoint_of_def InputContext_zeroed_def InputContextFull_zeroed_def DeviceContext_zeroed_def
      zero_control_def zero_slot_def zero_endpoint_def map_replicate_const) (auto intro!: nth_equalityI)

section \<open>The values the driver gives them\<close>

text \<open>The assignments of \<open>address_device\<close> to the fields of its input context.\<close>

definition address_input_context :: "u64 \<Rightarrow> u8 \<Rightarrow> u8 \<Rightarrow> InputContext" where
  "address_input_context ring_phys root_port speed =
     (let ctx = InputContext_zeroed;
          ctx = ctx\<lparr>input_control := (input_control ctx)\<lparr>add_flags := 3\<rparr>\<rparr>;
          ctx = ctx\<lparr>input_slot := (input_slot ctx)\<lparr>slot_dword0 := push_bit 27 1 OR push_bit 20 (ucast speed),
                                               slot_dword1 := push_bit 16 (ucast root_port)\<rparr>\<rparr>
      in ctx\<lparr>input_ep0 := (input_ep0 ctx)\<lparr>ep_dword1 := push_bit 3 4 OR push_bit 1 3 OR push_bit 16 (max_packet_size_of speed),
                tr_dequeue_lo := addr_low ring_phys, tr_dequeue_hi := addr_high ring_phys, ep_dword4 := 8\<rparr>\<rparr>)"

text \<open>The assignments of \<open>configure_endpoint\<close>; \<open>idx\<close> is the index of the endpoint's context.\<close>

definition interrupt_endpoint :: "u64 \<Rightarrow> EndpointInfo \<Rightarrow> EndpointContext \<Rightarrow> EndpointContext" where
  "interrupt_endpoint ring_phys ep c =
     c\<lparr>ep_dword0 := push_bit 16 (saturating_sub (ucast (ep_interval ep)) 1),
       ep_dword1 := push_bit 3 7 OR push_bit 1 3 OR push_bit 16 (ucast (ep_max_packet_size ep)),
       tr_dequeue_lo := addr_low ring_phys, tr_dequeue_hi := addr_high ring_phys,
       ep_dword4 := ucast (ep_max_packet_size ep)\<rparr>"

definition configure_input_context :: "u32 \<Rightarrow> nat \<Rightarrow> u8 \<Rightarrow> u64 \<Rightarrow> EndpointInfo \<Rightarrow> InputContextFull" where
  "configure_input_context dci idx root_port ring_phys ep =
     (let ctx = InputContextFull_zeroed;
          ctx = ctx\<lparr>full_control := (full_control ctx)\<lparr>add_flags := push_bit 0 1 OR push_bit (unat dci) 1\<rparr>\<rparr>;
          ctx = ctx\<lparr>full_slot := (full_slot ctx)\<lparr>slot_dword0 := push_bit 27 dci OR push_bit 20 3,
                                             slot_dword1 := push_bit 16 (ucast root_port)\<rparr>\<rparr>
      in ctx\<lparr>full_endpoints := (full_endpoints ctx)[idx := interrupt_endpoint ring_phys ep (full_endpoints ctx ! idx)]\<rparr>)"

text \<open>
  \<open>address_device\<close> builds the input context as the structure it is: the seven stores into the zeroed box leave
  there the value of the assignments to the fields, every other field still zero.
\<close>

theorem address_context_stored:
  "InputContext_at (write_input_context a ring_phys root_port speed (mem_fill m a 0 128)) a
     = address_input_context ring_phys root_port speed"
proof -
  note w = words_write [where a = a and n = 24]
  have "words_at (write_input_context a ring_phys root_port speed (mem_fill m a 0 128)) a 24 =
    (replicate 24 0)[1 := 3, 8 := push_bit 27 1 OR push_bit 20 (ucast speed), 9 := push_bit 16 (ucast root_port),
       17 := push_bit 3 4 OR push_bit 1 3 OR push_bit 16 (max_packet_size_of speed), 18 := addr_low ring_phys,
       19 := addr_high ring_phys, 20 := 8]"
    using w [of 1] w [of 8] w [of 9] w [of 17] w [of 18] w [of 19] w [of 20]
    by (simp add: write_input_context_def Let_def words_fill)
  then show ?thesis
    by (simp add: InputContext_at_def Let_def address_input_context_def control_of_def slot_of_def endpoint_of_def
        InputContext_zeroed_def zero_control_def zero_slot_def zero_endpoint_def)
qed

text \<open>The same for \<open>configure_endpoint\<close>, whose endpoint context is one of 31.\<close>

lemma endpoint_of_update:
  assumes "j < 31" "idx < 31" "length ws = 264"
  shows "endpoint_of (ws[16 + 8 * idx := v0, 17 + 8 * idx := v1, 18 + 8 * idx := v2, 19 + 8 * idx := v3, 20 + 8 * idx := v4]) (16 + 8 * j) =
    (if j = idx then (endpoint_of ws (16 + 8 * j))\<lparr>ep_dword0 := v0, ep_dword1 := v1, tr_dequeue_lo := v2, tr_dequeue_hi := v3, ep_dword4 := v4\<rparr>
     else endpoint_of ws (16 + 8 * j))"
proof (cases "j = idx")
  case True
  with assms show ?thesis by (simp add: endpoint_of_def)
next
  case False
  then have "16 + 8 * idx + p \<noteq> 16 + 8 * j + q" if "p < 8" "q < 8" for p q using that by presburger
  from this [of 0] this [of 1] this [of 2] this [of 3] this [of 4] False show ?thesis
    by (simp add: endpoint_of_def)
qed

theorem configure_context_stored:
  assumes "idx < 31"
  shows "InputContextFull_at (write_endpoint_context a dci idx root_port ring_phys ep (mem_fill m a 0 1088)) a
     = configure_input_context dci idx root_port ring_phys ep"
proof -
  note w = words_write [where a = a and n = 264]
  let ?flags = "push_bit 0 1 OR push_bit (unat dci) 1 :: u32"
  let ?d0 = "push_bit 27 dci OR push_bit 20 3" and ?d1 = "push_bit 16 (ucast root_port) :: u32"
  let ?e = "interrupt_endpoint ring_phys ep zero_endpoint"
  have ws: "words_at (write_endpoint_context a dci idx root_port ring_phys ep (mem_fill m a 0 1088)) a 264 =
    ((replicate 264 0)[1 := ?flags, 8 := ?d0, 9 := ?d1])[16 + 8 * idx := ep_dword0 ?e, 17 + 8 * idx := ep_dword1 ?e,
       18 + 8 * idx := tr_dequeue_lo ?e, 19 + 8 * idx := tr_dequeue_hi ?e, 20 + 8 * idx := ep_dword4 ?e]" (is "?ws = ?new")
    using w [of 1] w [of 8] w [of 9] w [of "16 + 8 * idx"] w [of "17 + 8 * idx"] w [of "18 + 8 * idx"]
      w [of "19 + 8 * idx"] w [of "20 + 8 * idx"] assms
    by (simp add: write_endpoint_context_def Let_def words_fill interrupt_endpoint_def algebra_simps)
  have small: "?new ! i = (replicate 264 0)[1 := ?flags, 8 := ?d0, 9 := ?d1] ! i" if "i < 16" for i
    using that by simp
  have "endpoint_of ?new (16 + 8 * j) = (replicate 31 zero_endpoint)[idx := ?e] ! j" if "j < 31" for j
  proof -
    have "endpoint_of ((replicate 264 0)[1 := ?flags, 8 := ?d0, 9 := ?d1]) (16 + 8 * j) = zero_endpoint"
      using that by (simp add: endpoint_of_def zero_endpoint_def)
    then show ?thesis
      using that assms by (subst endpoint_of_update) (simp_all add: interrupt_endpoint_def nth_list_update)
  qed
  then have "map (\<lambda>j. endpoint_of ?new (16 + 8 * j)) [0..<31] = (replicate 31 zero_endpoint)[idx := ?e]"
    by (intro nth_equalityI) simp_all
  moreover have "control_of ?new 0 = zero_control\<lparr>add_flags := ?flags\<rparr>"
    "slot_of ?new 8 = zero_slot\<lparr>slot_dword0 := ?d0, slot_dword1 := ?d1\<rparr>"
    by (simp_all add: control_of_def slot_of_def zero_control_def zero_slot_def)
  ultimately show ?thesis
    using assms by (simp add: InputContextFull_at_def ws configure_input_context_def InputContextFull_zeroed_def Let_def)
qed

section \<open>Regions of memory that are left alone\<close>

definition keeps :: "u64 \<times> nat \<Rightarrow> mem \<Rightarrow> mem \<Rightarrow> bool" where
  "keeps r m m' \<longleftrightarrow> (\<forall>i < snd r. m' (fst r + of_nat i) = m (fst r + of_nat i))"

fun apart :: "(u64 \<times> nat) list \<Rightarrow> bool" where
  "apart [] = True"
| "apart ((a, n) # rs) = ((\<forall>(b, k) \<in> set rs. disj a n b k) \<and> apart rs)"

lemma keeps_trans: "keeps r m m' \<Longrightarrow> keeps r m' m'' \<Longrightarrow> keeps r m m''"
  by (simp add: keeps_def)

lemma keeps_stores:
  "disj a k (fst r) (snd r) \<Longrightarrow> keeps r m (mem_fill m a v k)"
  "disj a 4 (fst r) (snd r) \<Longrightarrow> keeps r m (wr32 m a w)"
  "disj a 8 (fst r) (snd r) \<Longrightarrow> keeps r m (wr64 m a u)"
  by (auto simp: keeps_def wr32_def wr64_def intro!: mem_fill_other mem_write_other dest: disj_outside)

lemma keeps_inside:
  assumes "disj a n (fst r) (snd r)" "unat (b - a) + k \<le> n" "0 < k" "0 < snd r"
  shows "disj b k (fst r) (snd r)"
  using assms by (intro disj_subrange [OF assms(1)]) simp_all

lemma keeps_trb_write:
  assumes "disj a 16 (fst r) (snd r)" "0 < snd r"
  shows "keeps r m (trb_write m a t)"
  unfolding trb_write_def using assms
  by (intro keeps_trans [OF keeps_trans [OF keeps_stores(3) keeps_stores(2)] keeps_stores(2)] keeps_inside [OF assms(1)]) simp_all

lemma keeps_read: "keeps (a, n) m m' \<Longrightarrow> mem_read m' a n = mem_read m a n"
  by (simp add: keeps_def mem_read_def)

lemma keeps_sub:
  assumes "keeps (a, n) m m'" "unat (b - a) + k \<le> n"
  shows "keeps (b, k) m m'"
proof -
  have "m' (b + of_nat i) = m (b + of_nat i)" if "i < k" for i
  proof -
    have "b + of_nat i = a + of_nat (unat (b - a) + i)" by simp
    then show ?thesis using assms that by (simp add: keeps_def del: of_nat_add)
  qed
  then show ?thesis by (simp add: keeps_def)
qed

lemma keeps_cells:
  "keeps (a, 8) m m' \<Longrightarrow> rd64 m' a = rd64 m a" "keeps (a, 4) m m' \<Longrightarrow> rd32 m' a = rd32 m a"
  by (simp_all add: rd64_def rd32_def keeps_read)

lemma keeps_trb: "keeps (a, 16) m m' \<Longrightarrow> trb_read m' a = trb_read m a"
  using keeps_sub [of a 16 m m' a 8] keeps_sub [of a 16 m m' "a + 8" 4] keeps_sub [of a 16 m m' "a + 12" 4]
  by (simp add: trb_read_def keeps_cells)

lemma keeps_words:
  assumes "keeps (a, k) m m'" "4 * n \<le> k" "k < 2 ^ 64"
  shows "words_at m' a n = words_at m a n"
proof -
  have "rd32 m' (a + of_nat (4 * i)) = rd32 m (a + of_nat (4 * i))" if "i < n" for i
    using word_cells(2) [OF that that, of a] assms by (intro keeps_cells(2) keeps_sub [OF assms(1)]) (simp del: of_nat_mult)
  then show ?thesis by (simp add: words_at_def del: of_nat_mult)
qed

lemma keeps_structures:
  "keeps (a, 128) m m' \<Longrightarrow> InputContext_at m' a = InputContext_at m a"
  "keeps (a, 1024) m m' \<Longrightarrow> DeviceContext_at m' a = DeviceContext_at m a"
  by (simp_all add: InputContext_at_def DeviceContext_at_def keeps_words)

lemma trbs_zeroed: "n < 2 ^ 32 \<Longrightarrow> trbs_at (mem_fill m a 0 (16 * n)) a n = replicate n Trb_empty"
  using trb_read_zeroed [of _ n m a] by (auto simp: trbs_at_def intro!: nth_equalityI)

lemma keeps_trbs:
  assumes "keeps (a, 16 * n) m m'" "n < 2 ^ 32"
  shows "trbs_at m' a n = trbs_at m a n"
proof -
  have "trb_read m' (trb_slot a j) = trb_read m (trb_slot a j)" if "j < n" for j
  proof (rule keeps_trb, rule keeps_sub [OF assms(1)])
    have "unat (16 * of_nat j :: u64) = 16 * j"
      using that assms(2) by (simp add: unat_word_ariths unat_of_nat)
    then show "unat (trb_slot a j - a) + 16 \<le> 16 * n" using that by (simp add: trb_slot_def)
  qed
  then show ?thesis by (simp add: trbs_at_def)
qed

text \<open>The fresh structures in zeroed memory.\<close>

lemma fresh_structures:
  "Dcbaa_at (mem_fill m a 0 2048) a = Dcbaa_new" "trbs_at (mem_fill m a 0 512) a 32 = CommandRing_new"
  "trbs_at (mem_fill m a 0 512) a 32 = EventRingSegment_new" "trbs_at (mem_fill m a 0 256) a 16 = TransferRing_new"
proof -
  have "rd64 (mem_fill m a 0 2048) (a + of_nat (8 * i)) = 0" if "i < 256" for i
    using that by (intro rd64_fill_zero) (simp_all add: unat_of_nat del: of_nat_mult)
  then show "Dcbaa_at (mem_fill m a 0 2048) a = Dcbaa_new"
    by (intro nth_equalityI) (simp_all add: Dcbaa_at_def Dcbaa_new_def)
qed (use trbs_zeroed [of 32 m a] trbs_zeroed [of 16 m a] in \<open>simp_all add: CommandRing_new_def EventRingSegment_new_def
    TransferRing_new_def COMMAND_RING_SIZE_def EVENT_RING_SIZE_def CONTROL_RING_SIZE_def\<close>)

lemma keeps_fresh:
  "keeps (a, 2048) m m' \<Longrightarrow> Dcbaa_at m' a = Dcbaa_at m a" "keeps (a, 512) m m' \<Longrightarrow> trbs_at m' a 32 = trbs_at m a 32"
  "keeps (a, 256) m m' \<Longrightarrow> trbs_at m' a 16 = trbs_at m a 16"
proof -
  assume k: "keeps (a, 2048) m m'"
  have "rd64 m' (a + of_nat (8 * i)) = rd64 m (a + of_nat (8 * i))" if "i < 256" for i
    using that by (intro keeps_cells(1) keeps_sub [OF k]) (simp add: unat_of_nat del: of_nat_mult)
  then show "Dcbaa_at m' a = Dcbaa_at m a" by (simp add: Dcbaa_at_def)
qed (use keeps_trbs [of a 32 m m'] keeps_trbs [of a 16 m m'] in simp_all)

lemma keeps_writes:
  "(\<And>b v. (b, v) \<in> set ws \<Longrightarrow> disj b 4 (fst r) (snd r)) \<Longrightarrow> keeps r m (fold (\<lambda>(b, v) m. wr32 m b v) ws m)"
proof (induction ws arbitrary: m)
  case (Cons w ws)
  obtain b v where w: "w = (b, v)" by (cases w)
  have "keeps r m (wr32 m b v)" using Cons.prems [of b v] by (intro keeps_stores(2)) (simp add: w)
  moreover have "keeps r (wr32 m b v) (fold (\<lambda>(b, v) m. wr32 m b v) ws (wr32 m b v))"
    using Cons.prems by (intro Cons.IH) auto
  ultimately show ?case by (auto simp: w intro: keeps_trans)
qed (simp add: keeps_def)

lemma keeps_input_context:
  assumes "disj a 128 (fst r) (snd r)" "0 < snd r"
  shows "keeps r m (write_input_context a ring_phys root_port speed m)"
  unfolding write_input_context_words
proof (rule keeps_writes)
  fix b v assume "(b, v) \<in> set (map (\<lambda>(x, v). (a + x, v)) (input_words ring_phys root_port speed))"
  then have "unat (b - a) + 4 \<le> 128" by (auto simp: input_words_def)
  with assms show "disj b 4 (fst r) (snd r)" by (intro keeps_inside [OF assms(1)]) simp_all
qed

section \<open>What the controller finds\<close>

text \<open>The result of a command whose state, when the doorbell has rung, is \<open>s\<close>.\<close>

definition command_result :: "(('h, 'z) kernel_scheme \<Rightarrow> ('h, 'z) kernel_scheme) \<Rightarrow> ('h, 'z) kernel_scheme
    \<Rightarrow> (XhciError + unit) \<times> ('h, 'z) kernel_scheme" where
  "command_result f s =
     (let n = first_up f completion_pending WAIT_LIMIT s; s' = (f ^^ n) s
      in (if n = WAIT_LIMIT then Inl CompletionTimeout
          else if completion_code s' = 1 then Inr () else Inl CommandFailed, s'))"

text \<open>
  Property C13. What the controller finds when \<open>address_device\<close> rings the doorbell: in the next slot of the command ring an Address
  Device command for the slot that points at an input context with exactly the values of the source; in the slot's entry of the device
  context array the address of a zeroed device context; and a zeroed ring for endpoint 0, at which the driver
  starts with index 0 and cycle state 1. The call then returns what the completion of that command says.
\<close>

theorem address_device_hands_over:
  assumes x: "xhci_instance s = Some x" "doorbells_ok io x" and off: "hhdm_offset s = Some off"
    and heap: "heap_alloc io 256 64 (outside s) = Some (ring, h1)" "heap_alloc io 1024 64 h1 = Some (dev, h2)"
      "heap_alloc io 128 64 h2 = Some (input, h3)"
    and high: "off \<le> ring" "off \<le> dev" "off \<le> input"
    and apart: "apart [(ring, 256), (dev, 1024), (input, 128), (dcbaa_entry x slot_id, 8),
        (trb_slot (cmd_ring_virt x) (cmd_enqueue_index x), 16)]"
  shows "\<exists>s1 x1. address_device io (\<lambda>s. Some (f s)) slot_id root_port speed s = Some (command_result f s1)
    \<and> trb_read (ram s1) (trb_slot (cmd_ring_virt x) (cmd_enqueue_index x))
        = cmd_trb (input - off, 0, TRB_TYPE_ADDRESS_DEVICE, slot_id) (cmd_cycle_state x)
    \<and> InputContext_at (ram s1) input = address_input_context (ring - off) root_port speed
    \<and> rd64 (ram s1) (dcbaa_entry x slot_id) = dev - off \<and> DeviceContext_at (ram s1) dev = DeviceContext_zeroed
    \<and> trbs_at (ram s1) ring 16 = TransferRing_new
    \<and> xhci_instance s1 = Some x1 \<and> ep0_ring_virt x1 = ring \<and> ep0_ring_phys x1 = ring - off
    \<and> ep0_enqueue_index x1 = 0 \<and> ep0_cycle_state x1"
proof -
  let ?e = "dcbaa_entry x slot_id" and ?c = "trb_slot (cmd_ring_virt x) (cmd_enqueue_index x)"
  define m1 where "m1 = mem_fill (ram s) ring 0 256"
  define m2 where "m2 = wr64 (mem_fill m1 dev 0 1024) ?e (dev - off)"
  define m3 where "m3 = write_input_context input (ring - off) root_port speed (mem_fill m2 input 0 128)"
  let ?s3 = "s\<lparr>outside := h3, ram := m3\<rparr>"
  let ?prep = "\<lambda>x. x\<lparr>ep0_ring_virt := ring, ep0_ring_phys := ring - off, ep0_enqueue_index := 0, ep0_cycle_state := True\<rparr>"
  have phys: "phys_or_error v (s\<lparr>outside := h, ram := m\<rparr>) = Some (Inr (v - off), s\<lparr>outside := h, ram := m\<rparr>)" if "off \<le> v" for v h m
    using virtual_to_physical_eq [of "s\<lparr>outside := h, ram := m\<rparr>" off v] off that by (simp add: phys_or_error_def)
  have "address_device io (\<lambda>s. Some (f s)) slot_id root_port speed s =
      issue_command io (\<lambda>s. Some (f s)) ?prep (input - off) TRB_TYPE_ADDRESS_DEVICE slot_id ?s3"
    using x(1) high by (simp add: address_device_def box_zeroed_def heap phys m1_def m2_def m3_def)
  moreover have "doorbells_ok io (?prep x)" using x(2) by (simp add: doorbells_ok_def)
  ultimately obtain h where "address_device io (\<lambda>s. Some (f s)) slot_id root_port speed s =
      Some (command_result f (command_sent (?prep x) (input - off, 0, TRB_TYPE_ADDRESS_DEVICE, slot_id) h ?s3))"
    using issue_command_outcome [of ?s3 x io ?prep f "input - off" TRB_TYPE_ADDRESS_DEVICE slot_id] x(1)
    by (auto simp: command_result_def Let_def)
  moreover define m4 where "m4 = trb_write m3 ?c (cmd_trb (input - off, 0, TRB_TYPE_ADDRESS_DEVICE, slot_id) (cmd_cycle_state x))"
  let ?s1 = "command_sent (?prep x) (input - off, 0, TRB_TYPE_ADDRESS_DEVICE, slot_id) h ?s3"
  have ram: "ram ?s1 = m4" by (simp add: command_sent_def cmd_put_eq m4_def)
  obtain x1 where x1: "xhci_instance ?s1 = Some x1" "ep0_ring_virt x1 = ring" "ep0_ring_phys x1 = ring - off"
      "ep0_enqueue_index x1 = 0" "ep0_cycle_state x1"
    by (simp add: command_sent_def cmd_put_eq split: if_splits)
  have d: "disj ring 256 dev 1024" "disj ring 256 input 128" "disj ring 256 ?e 8" "disj ring 256 ?c 16" "disj dev 1024 input 128"
    "disj dev 1024 ?e 8" "disj dev 1024 ?c 16" "disj input 128 ?e 8" "disj input 128 ?c 16" "disj ?e 8 ?c 16"
    using apart by simp_all
  note sym = d [THEN disj_sym [THEN iffD1]]
  have last: "keeps r m2 m4" if "disj input 128 (fst r) (snd r)" "disj ?c 16 (fst r) (snd r)" "0 < snd r" for r
    unfolding m3_def m4_def
    by (intro keeps_trans [OF keeps_trans [OF keeps_stores(1) keeps_input_context] keeps_trb_write]) (use that in simp_all)
  have "trb_read m4 ?c = cmd_trb (input - off, 0, TRB_TYPE_ADDRESS_DEVICE, slot_id) (cmd_cycle_state x)"
    by (simp add: m4_def trb_read_write_same)
  moreover have "InputContext_at m4 input = InputContext_at m3 input"
    unfolding m4_def by (intro keeps_structures(1) keeps_trb_write) (simp_all add: sym)
  then have "InputContext_at m4 input = address_input_context (ring - off) root_port speed"
    by (simp add: m3_def address_context_stored)
  moreover have "rd64 m4 ?e = dev - off"
    using keeps_cells(1) [OF last [of "(?e, 8)"]] d sym by (simp add: m2_def rd64_wr64_same)
  moreover have "keeps (dev, 1024) (mem_fill m1 dev 0 1024) m4"
    by (rule keeps_trans [OF _ last]) (simp_all add: m2_def keeps_stores d sym)
  then have "DeviceContext_at m4 dev = DeviceContext_zeroed"
    using keeps_structures(2) zeroed_structures(3) by metis
  moreover have "keeps (ring, 256) m1 m4"
    by (rule keeps_trans [OF keeps_trans [OF _ keeps_stores(3)] last [unfolded m2_def]]) (simp_all add: keeps_stores d sym)
  then have "trbs_at m4 ring 16 = TransferRing_new"
    using keeps_fresh(3) [of ring m1 m4] fresh_structures(4) [of "ram s" ring] by (simp add: m1_def)
  ultimately show ?thesis
    using x1 ram by (intro exI [of _ ?s1] exI [of _ x1]) simp
qed

text \<open>A machine whose heap hands out one block after the other; its state is the address of the next.\<close>

definition bump_machine :: "u64 machine" where
  "bump_machine =
     \<lparr>inb = \<lambda>p h. (0, h), outb = \<lambda>p v h. h, inl = \<lambda>p h. (0, h), outl = \<lambda>p v h. h,
      rdmsr = \<lambda>r h. (0, h), wrmsr = \<lambda>r v h. h, mrd8 = \<lambda>a h. (0, h), mrd32 = \<lambda>a h. (0, h),
      mwr32 = \<lambda>a v h. h, mwr64 = \<lambda>a v h. h, heap_alloc = \<lambda>n al h. Some (h, h + of_nat n), heap_free = \<lambda>a h. h,
      hw_step = \<lambda>h m. (h, m, False)\<rparr>"

definition address_example :: "u64 kernel" where
  "address_example = kernel_start pg_example 0xFFFF800000100000 \<lparr>xhci_instance := Some xhci_example\<rparr>"

theorem address_device_hands_over_witness:
  "\<exists>s1. address_device bump_machine (\<lambda>s. Some (s\<lparr>completion_pending := True, completion_code := 1\<rparr>)) 2 1 3 address_example
      = Some (command_result (\<lambda>s. s\<lparr>completion_pending := True, completion_code := 1\<rparr>) s1)
    \<and> InputContext_at (ram s1) 0xFFFF800000100500 = address_input_context 0x100000 1 3
    \<and> rd64 (ram s1) 0xFFFF800000030010 = 0x100100"
proof -
  have a: "apart [(0xFFFF800000100000, 256), (0xFFFF800000100100, 1024), (0xFFFF800000100500, 128),
      (dcbaa_entry xhci_example 2, 8), (trb_slot (cmd_ring_virt xhci_example) (cmd_enqueue_index xhci_example), 16)]"
    by (simp add: dcbaa_entry_def trb_slot_def xhci_example_def disj_def)
  have "xhci_instance address_example = Some xhci_example" "doorbells_ok bump_machine xhci_example"
    "hhdm_offset address_example = Some 0xFFFF800000000000"
    "heap_alloc bump_machine 256 64 (outside address_example) = Some (0xFFFF800000100000, 0xFFFF800000100100)"
    by (simp_all add: address_example_def doorbells_ok_def bump_machine_def xhci_example_def kernel_start_def pgstate.extend_def
        pg_example_def pg_base_def)
  from address_device_hands_over [OF this _ _ _ _ _ a, of "0xFFFF800000100500" "0xFFFF800000100580"
      "\<lambda>s. s\<lparr>completion_pending := True, completion_code := 1\<rparr>" 1 3]
  show ?thesis
    by (force simp: bump_machine_def dcbaa_entry_def xhci_example_def)
qed

end
