(* ===== verification/Controller_Start.thy ===== *)
theory Controller_Start
  imports Contexts
begin

text \<open>
  What \<open>init_xhci\<close> of \<^verbatim>\<open>kernel/src/usb/xhci.rs\<close> does to the controller: a machine that keeps a record of every register access
  is put around an arbitrary one, and the record is the promise of the function. Next to it stands what the structures it hands
  over by DMA hold when the controller starts.
\<close>

section \<open>Recording register accesses\<close>

datatype access = Read8 u64 u8 | Read u64 u32 | Write u64 u32 | Write64 u64 u64

definition traced :: "('h, 'e) machine_scheme \<Rightarrow> ('h \<times> access list) machine" where
  "traced io =
     \<lparr>inb = \<lambda>p (h, l). let (v, h) = inb io p h in (v, h, l), outb = \<lambda>p v (h, l). (outb io p v h, l),
      inl = \<lambda>p (h, l). let (v, h) = inl io p h in (v, h, l), outl = \<lambda>p v (h, l). (outl io p v h, l),
      rdmsr = \<lambda>r (h, l). let (v, h) = rdmsr io r h in (v, h, l), wrmsr = \<lambda>r v (h, l). (wrmsr io r v h, l),
      mrd8 = \<lambda>a (h, l). let (v, h) = mrd8 io a h in (v, h, l @ [Read8 a v]),
      mrd32 = \<lambda>a (h, l). let (v, h) = mrd32 io a h in (v, h, l @ [Read a v]),
      mwr32 = \<lambda>a v (h, l). (mwr32 io a v h, l @ [Write a v]),
      mwr64 = \<lambda>a v (h, l). (mwr64 io a v h, l @ [Write64 a v]),
      heap_alloc = \<lambda>n al (h, l). do { (a, h) \<leftarrow> heap_alloc io n al h; Some (a, h, l) },
      heap_free = \<lambda>a (h, l). (heap_free io a h, l),
      hw_step = \<lambda>(h, l) m. let (h, m, irq) = hw_step io h m in ((h, l), m, irq)\<rparr>"

text \<open>The same accesses on a state, one fact each.\<close>

lemma traced_accesses:
  "mrd8 io a h = (v8, h') \<Longrightarrow> mmio_read8 (traced io) a (s\<lparr>outside := (h, l)\<rparr>) = (v8, s\<lparr>outside := (h', l @ [Read8 a v8])\<rparr>)"
  "mrd32 io a h = (v, h') \<Longrightarrow> mmio_read32 (traced io) a (s\<lparr>outside := (h, l)\<rparr>) = (v, s\<lparr>outside := (h', l @ [Read a v])\<rparr>)"
  "mmio_write32 (traced io) a v (s\<lparr>outside := (h, l)\<rparr>) = s\<lparr>outside := (mwr32 io a v h, l @ [Write a v])\<rparr>"
  "mmio_write64 (traced io) a w (s\<lparr>outside := (h, l)\<rparr>) = s\<lparr>outside := (mwr64 io a w h, l @ [Write64 a w])\<rparr>"
  "heap_alloc io n al h = Some (b, h') \<Longrightarrow> box_zeroed (traced io) n al (s\<lparr>outside := (h, l)\<rparr>)
     = Some (b, s\<lparr>ram := mem_fill (ram s) b 0 n, outside := (h', l)\<rparr>)"
  by (simp_all add: mmio_read8_def mmio_read32_def mmio_write32_def mmio_write64_def box_zeroed_def traced_def)

section \<open>Polling a register\<close>

text \<open>
  A register settles when, read again and again, it sooner or later gives a value that is not busy. \<open>polled\<close>
  is the record of the loop: busy values, and one that is not.
\<close>

definition next_read :: "('h, 'e) machine_scheme \<Rightarrow> u64 \<Rightarrow> 'h \<Rightarrow> 'h" where
  "next_read io a h = snd (mrd32 io a h)"

definition settles :: "('h, 'e) machine_scheme \<Rightarrow> u64 \<Rightarrow> (u32 \<Rightarrow> bool) \<Rightarrow> bool" where
  "settles io a busy \<longleftrightarrow> (\<forall>h. \<exists>n. \<not> busy (fst (mrd32 io a ((next_read io a ^^ n) h))))"

definition polled :: "u64 \<Rightarrow> (u32 \<Rightarrow> bool) \<Rightarrow> access list \<Rightarrow> bool" where
  "polled a busy l \<longleftrightarrow> (\<exists>vs v. l = map (Read a) (vs @ [v]) \<and> (\<forall>v \<in> set vs. busy v) \<and> \<not> busy v)"

lemma polled_now: "\<not> busy v \<Longrightarrow> polled a busy [Read a v]"
  unfolding polled_def by (intro exI [of _ "[]"] exI [of _ v]) simp

lemma polled_again: "busy v \<Longrightarrow> polled a busy l \<Longrightarrow> polled a busy (Read a v # l)"
proof -
  assume "busy v" "polled a busy l"
  then obtain vs w where "l = map (Read a) (vs @ [w])" "\<forall>v \<in> set (v # vs). busy v" "\<not> busy w"
    by (auto simp: polled_def)
  then show ?thesis
    unfolding polled_def by (intro exI [of _ "v # vs"] exI [of _ w]) simp
qed

lemma spin_polls:
  assumes "settles io a busy"
  shows "\<exists>h' p. spin_while (mmio_read32 (traced io) a) busy (s\<lparr>outside := (h, l)\<rparr>) = Some (s\<lparr>outside := (h', l @ p)\<rparr>)
    \<and> polled a busy p"
proof -
  obtain n where "\<not> busy (fst (mrd32 io a ((next_read io a ^^ n) h)))" using assms by (auto simp: settles_def)
  then show ?thesis
  proof (induction n arbitrary: h l)
    case 0
    obtain v h' where r: "mrd32 io a h = (v, h')" by fastforce
    with 0 show ?case
      by (intro exI [of _ h'] exI [of _ "[Read a v]"]) (simp add: spin_while.simps traced_accesses polled_now)
  next
    case (Suc n)
    obtain v h' where r: "mrd32 io a h = (v, h')" by fastforce
    show ?case
    proof (cases "busy v")
      case False
      with r show ?thesis
        by (intro exI [of _ h'] exI [of _ "[Read a v]"]) (simp add: spin_while.simps traced_accesses polled_now)
    next
      case True
      have "next_read io a h = h'" using r by (simp add: next_read_def)
      with Suc.prems have "\<not> busy (fst (mrd32 io a ((next_read io a ^^ n) h')))" by (simp add: funpow_swap1)
      from Suc.IH [OF this, of "l @ [Read a v]"] obtain h2 p where
        "spin_while (mmio_read32 (traced io) a) busy (s\<lparr>outside := (h', l @ [Read a v])\<rparr>) = Some (s\<lparr>outside := (h2, (l @ [Read a v]) @ p)\<rparr>)"
        "polled a busy p" by blast
      with r True show ?thesis
        by (intro exI [of _ h2] exI [of _ "Read a v # p"])
          (subst spin_while.simps, simp add: traced_accesses polled_again)
    qed
  qed
qed

text \<open>The loop of \<open>start_controller\<close> gives up after its limit.\<close>

lemma wait_running_polls:
  "\<exists>h' vs. wait_running (traced io) op n (s\<lparr>outside := (h, l)\<rparr>) = s\<lparr>outside := (h', l @ map (Read (op + 0x04)) vs)\<rparr>
    \<and> length vs \<le> n"
proof (induction n arbitrary: h l)
  case 0
  show ?case by (intro exI [of _ h] exI [of _ "[]"]) simp
next
  case (Suc n)
  obtain v h' where r: "mrd32 io (op + 0x04) h = (v, h')" by fastforce
  show ?case
  proof (cases "v AND USBSTS_HCH = 0")
    case True
    with r show ?thesis
      by (intro exI [of _ h'] exI [of _ "[v]"]) (simp add: read_usbsts_def traced_accesses)
  next
    case False
    from Suc.IH [of h' "l @ [Read (op + 0x04) v]"] obtain h2 vs where
      "wait_running (traced io) op n (s\<lparr>outside := (h', l @ [Read (op + 0x04) v])\<rparr>)
        = s\<lparr>outside := (h2, (l @ [Read (op + 0x04) v]) @ map (Read (op + 0x04)) vs)\<rparr>" "length vs \<le> n" by blast
    with r False show ?thesis
      by (intro exI [of _ h2] exI [of _ "v # vs"]) (simp add: read_usbsts_def traced_accesses)
  qed
qed

section \<open>The parts of the initialisation\<close>

definition caplength :: "('h, 'e) machine_scheme \<Rightarrow> XHCI \<Rightarrow> u8 \<Rightarrow> bool" where
  "caplength io x n \<longleftrightarrow> (\<forall>h. fst (mrd8 io (virt_base x) h) = n)"

definition heap_serves :: "('h, 'e) machine_scheme \<Rightarrow> u64 \<Rightarrow> bool" where
  "heap_serves io off \<longleftrightarrow> (\<forall>n al h. \<exists>a h'. heap_alloc io n al h = Some (a, h') \<and> off \<le> a)"

lemma op_regs_traced:
  assumes "caplength io x n"
  shows "\<exists>h'. op_regs (traced io) x (s\<lparr>outside := (h, l)\<rparr>) = (virt_base x + ucast n, s\<lparr>outside := (h', l @ [Read8 (virt_base x) n])\<rparr>)"
proof -
  obtain v h' where r: "mrd8 io (virt_base x) h = (v, h')" by fastforce
  then have "v = n" using assms by (metis caplength_def fst_conv)
  with r show ?thesis by (intro exI [of _ h']) (simp add: op_regs_def cap_length_def traced_accesses)
qed

lemma phys_unwrap_high: "hhdm_offset s = Some off \<Longrightarrow> off \<le> v \<Longrightarrow> phys_unwrap v s = Some (v - off)"
  by (simp add: phys_unwrap_def virtual_to_physical_eq)

lemma interrupter0_traced:
  assumes "runtime_regs_ok io x"
  shows "\<exists>h' rts. interrupter0 (traced io) x (s\<lparr>outside := (h, l)\<rparr>) =
    Some (virt_base x + ucast (rts AND NOT 0x1F) + 0x20, s\<lparr>outside := (h', l @ [Read (virt_base x + 0x18) rts])\<rparr>)"
proof -
  obtain rts h' where r: "mrd32 io (virt_base x + 0x18) h = (rts, h')" by fastforce
  let ?v = "rts AND NOT 0x1F"
  have b: "unat (virt_base x) + unat ?v + 0x20 < 2 ^ 64"
    using assms r by (metis fst_conv runtime_regs_ok_def)
  then have 1: "checked_add (virt_base x) (ucast ?v) = Some (virt_base x + ucast ?v)"
    by (simp add: checked_add_def unsigned_ucast_eq take_bit_nat_eq_self)
  have "unat (virt_base x + ucast ?v) = unat (virt_base x) + unat ?v"
    using b by (subst unat_word_ariths) (simp add: unsigned_ucast_eq take_bit_nat_eq_self)
  then have 2: "checked_add (virt_base x + ucast ?v) 0x20 = Some (virt_base x + ucast ?v + 0x20)"
    using b by (simp add: checked_add_def)
  show ?thesis
    by (intro exI [of _ h'] exI [of _ rts]) (use 1 2 in \<open>simp add: interrupter0_def rtsoff_def traced_accesses(2) [OF r]\<close>)
qed

lemma ram_outside: "s\<lparr>outside := h, ram := m\<rparr> = s\<lparr>ram := m, outside := h\<rparr>"
  by simp

lemma setup_event_ring_traced:
  assumes regs: "runtime_regs_ok io x" and off: "hhdm_offset s = Some off"
    and heap: "heap_alloc io 512 64 h = Some (seg, h1)" "off \<le> seg" "heap_alloc io 64 64 h1 = Some (erst, h2)" "off \<le> erst"
  shows "\<exists>h' rts iman. setup_event_ring (traced io) x (s\<lparr>outside := (h, l)\<rparr>) =
    (let ir0 = virt_base x + ucast (rts AND NOT 0x1F) + 0x20;
         m = wr32 (wr64 (mem_fill (mem_fill (ram s) seg 0 512) erst 0 64) erst (seg - off)) (erst + 8) 32
     in Some (x\<lparr>event_ring_virt := seg, event_ring_phys := seg - off, dequeue_index := 0, cycle_state := True\<rparr>,
       s\<lparr>ram := m, outside := (h', l @ [Read (virt_base x + 0x18) rts, Write (ir0 + 0x08) 1, Write64 (ir0 + 0x18) (seg - off),
           Write64 (ir0 + 0x10) (erst - off), Read ir0 iman, Write ir0 (iman OR push_bit 1 1)])\<rparr>))"
proof -
  let ?m1 = "mem_fill (ram s) seg 0 512"
  let ?m = "wr32 (wr64 (mem_fill ?m1 erst 0 64) erst (seg - off)) (erst + 8) 32"
  obtain h3 rts where i: "interrupter0 (traced io) x (s\<lparr>ram := ?m, outside := (h2, l)\<rparr>) =
      Some (virt_base x + ucast (rts AND NOT 0x1F) + 0x20, s\<lparr>ram := ?m, outside := (h3, l @ [Read (virt_base x + 0x18) rts])\<rparr>)"
    using interrupter0_traced [OF regs, where s = "s\<lparr>ram := ?m\<rparr>" and h = h2 and l = l] by blast
  let ?ir0 = "virt_base x + ucast (rts AND NOT 0x1F) + 0x20"
  obtain iman h4 where r: "mrd32 io ?ir0 (mwr64 io (?ir0 + 0x10) (erst - off) (mwr64 io (?ir0 + 0x18) (seg - off) (mwr32 io (?ir0 + 0x08) 1 h3)))
      = (iman, h4)" by fastforce
  have p: "phys_unwrap seg (s\<lparr>ram := k, outside := j\<rparr>) = Some (seg - off)" "phys_unwrap erst (s\<lparr>ram := k, outside := j\<rparr>) = Some (erst - off)" for k j
    using off heap by (simp_all add: phys_unwrap_high)
  show ?thesis
    by (rule exI [of _ "mwr32 io ?ir0 (iman OR push_bit 1 1) h4"], rule exI [of _ rts], rule exI [of _ iman])
      (use i r in \<open>simp add: setup_event_ring_def traced_accesses(5) [OF heap(1)] traced_accesses(5) [OF heap(3)] p EVENT_RING_SIZE_def
        ram_outside interrupter_access_defs traced_accesses Let_def\<close>)
qed

lemma start_controller_traced:
  assumes "caplength io x n"
  shows "\<exists>h' c vs. start_controller (traced io) x (s\<lparr>outside := (h, l)\<rparr>) =
      (let op = virt_base x + ucast n in
       s\<lparr>outside := (h', l @ [Read8 (virt_base x) n, Read op c, Write op ((c OR USBCMD_INTE) OR USBCMD_RUN_OR_STOP)]
           @ map (Read (op + 0x04)) vs)\<rparr>)
    \<and> length vs \<le> 1000000"
proof -
  let ?op = "virt_base x + ucast n"
  obtain h1 where o: "op_regs (traced io) x (s\<lparr>outside := (h, l)\<rparr>) = (?op, s\<lparr>outside := (h1, l @ [Read8 (virt_base x) n])\<rparr>)"
    using op_regs_traced [OF assms] by blast
  obtain c h2 where r: "mrd32 io ?op h1 = (c, h2)" by fastforce
  let ?l = "l @ [Read8 (virt_base x) n, Read ?op c, Write ?op ((c OR USBCMD_INTE) OR USBCMD_RUN_OR_STOP)]"
  obtain h3 vs where "wait_running (traced io) ?op 1000000 (s\<lparr>outside := (mwr32 io ?op ((c OR USBCMD_INTE) OR USBCMD_RUN_OR_STOP) h2, ?l)\<rparr>)
      = s\<lparr>outside := (h3, ?l @ map (Read (?op + 0x04)) vs)\<rparr>" "length vs \<le> 1000000"
    using wait_running_polls [where io = io and op = ?op and n = 1000000 and s = s and l = ?l
        and h = "mwr32 io ?op ((c OR USBCMD_INTE) OR USBCMD_RUN_OR_STOP) h2"] by blast
  then show ?thesis
    by (intro exI [of _ h3] exI [of _ c] exI [of _ vs])
      (simp add: start_controller_def o read_usbcmd_def write_usbcmd_def traced_accesses(2) [OF r] traced_accesses(3) Let_def)
qed

section \<open>The whole initialisation\<close>

text \<open>The memory that \<open>init_xhci\<close> leaves, from its four boxes.\<close>

definition init_memory :: "u64 \<Rightarrow> u64 \<Rightarrow> u64 \<Rightarrow> u64 \<Rightarrow> u64 \<Rightarrow> mem \<Rightarrow> mem" where
  "init_memory off dcbaa ring seg erst m =
     wr32 (wr64 (mem_fill (mem_fill (mem_fill (mem_fill m dcbaa 0 2048) ring 0 512) seg 0 512) erst 0 64) erst (seg - off)) (erst + 8) 32"

lemma init_memory_holds:
  assumes "apart [(dcbaa, 2048), (ring, 512), (seg, 512), (erst, 64)]"
  shows "Dcbaa_at (init_memory off dcbaa ring seg erst m) dcbaa = Dcbaa_new"
    "trbs_at (init_memory off dcbaa ring seg erst m) ring 32 = CommandRing_new"
    "trbs_at (init_memory off dcbaa ring seg erst m) seg 32 = EventRingSegment_new"
    "ErstEntry_at (init_memory off dcbaa ring seg erst m) erst =
       \<lparr>ring_segment_base = seg - off, ring_segment_size = 32, erst_reserved = 0\<rparr>"
proof -
  let ?m1 = "mem_fill m dcbaa 0 2048"
  let ?m2 = "mem_fill ?m1 ring 0 512"
  let ?m3 = "mem_fill ?m2 seg 0 512"
  let ?m4 = "mem_fill ?m3 erst 0 64"
  let ?m = "init_memory off dcbaa ring seg erst m"
  have d: "disj dcbaa 2048 ring 512" "disj dcbaa 2048 seg 512" "disj dcbaa 2048 erst 64" "disj ring 512 seg 512"
    "disj ring 512 erst 64" "disj seg 512 erst 64" using assms by simp_all
  note sym = d [THEN disj_sym [THEN iffD1]]
  have last: "keeps r ?m3 ?m" if "disj erst 64 (fst r) (snd r)" "0 < snd r" for r
    unfolding init_memory_def
    by (rule keeps_trans [OF keeps_trans [OF keeps_stores(1) keeps_stores(3)] keeps_stores(2)])
      (use that in \<open>simp_all add: keeps_inside [OF that(1)]\<close>)
  have "keeps (seg, 512) ?m3 ?m" by (rule last) (simp_all add: sym)
  then show "trbs_at ?m seg 32 = EventRingSegment_new"
    using keeps_fresh(2) fresh_structures(3) by metis
  have "keeps (ring, 512) ?m2 ?m"
    by (rule keeps_trans [OF keeps_stores(1) last]) (simp_all add: sym)
  then show "trbs_at ?m ring 32 = CommandRing_new"
    using keeps_fresh(2) fresh_structures(2) by metis
  have "keeps (dcbaa, 2048) ?m1 ?m"
    by (rule keeps_trans [OF keeps_trans [OF keeps_stores(1) keeps_stores(1)] last]) (simp_all add: sym)
  then show "Dcbaa_at ?m dcbaa = Dcbaa_new"
    using keeps_fresh(1) fresh_structures(1) by metis
  have cells: "disj erst 8 (erst + 8) 4" "disj erst 8 (erst + 12) 4" "disj (erst + 8) 4 (erst + 12) 4" "disj (erst + 8) 4 erst 8"
    by (rule trb_fields_disj)+
  have "rd32 ?m4 (erst + 12) = 0" by (intro rd32_fill_zero) simp_all
  with cells show "ErstEntry_at ?m erst = \<lparr>ring_segment_base = seg - off, ring_segment_size = 32, erst_reserved = 0\<rparr>"
    by (simp add: ErstEntry_at_def init_memory_def rd64_wr32_disj rd64_wr64_same rd32_wr32_same c32.rd_wr_sep rd32_wr64_disj)
qed

lemma status_reads: "read_usbsts io op = mmio_read32 io (op + 0x04)" "read_usbcmd io op = mmio_read32 io op"
  by (simp_all add: fun_eq_iff read_usbsts_def read_usbcmd_def)

text \<open>The resets, up to the first access that programs the controller.\<close>

definition reset_controller :: "('h, 'e) machine_scheme \<Rightarrow> u64 \<Rightarrow> ('h, 'z) kernel_scheme \<Rightarrow> ('h, 'z) kernel_scheme option" where
  "reset_controller io op s = do {
     let (cmd, s) = read_usbcmd io op s;
     let s = write_usbcmd io op (cmd AND NOT USBCMD_RUN_OR_STOP) s;
     s \<leftarrow> spin_while (read_usbsts io op) (\<lambda>v. v AND USBSTS_HCH = 0) s;
     let (cmd, s) = read_usbcmd io op s;
     let s = write_usbcmd io op (cmd OR USBCMD_HCRST) s;
     s \<leftarrow> spin_while (read_usbcmd io op) (\<lambda>v. v AND USBCMD_HCRST \<noteq> 0) s;
     spin_while (read_usbsts io op) (\<lambda>v. v AND USBSTS_CNR \<noteq> 0) s
   }"

lemma init_xhci_resets:
  "init_xhci io x s = (let (op, s) = op_regs io x s in do {
     s \<leftarrow> reset_controller io op s;
     let (slots, s) = max_slots io x s;
     let s = write_config io op (ucast slots) s;
     (dcbaa, s) \<leftarrow> box_zeroed io 2048 64 s;
     dcbaa_phys \<leftarrow> phys_unwrap dcbaa s;
     let s = write_dcbaap io op dcbaa_phys s;
     (ring, s) \<leftarrow> box_zeroed io 512 64 s;
     ring_phys \<leftarrow> phys_unwrap ring s;
     let s = write_crcr io op ((ring_phys AND NOT 0x3F) OR 1) s;
     let x = x\<lparr>cmd_ring_virt := ring, cmd_ring_phys := ring_phys, cmd_enqueue_index := 0,
               cmd_cycle_state := True, dcbaa_virt := dcbaa\<rparr>;
     (x, s) \<leftarrow> setup_event_ring io x s;
     Some (x, start_controller io x s)
   })"
  by (simp add: init_xhci_def reset_controller_def Let_def split_def)

lemma polled_resets:
  assumes "settles io (op + 0x04) (\<lambda>v. v AND USBSTS_HCH = 0)" "settles io op (\<lambda>v. v AND USBCMD_HCRST \<noteq> 0)"
    "settles io (op + 0x04) (\<lambda>v. v AND USBSTS_CNR \<noteq> 0)"
  shows "\<exists>h' c1 halted c2 reset ready. reset_controller (traced io) op (s\<lparr>outside := (h, l)\<rparr>)
    = Some (s\<lparr>outside := (h', l @ [Read op c1, Write op (c1 AND NOT USBCMD_RUN_OR_STOP)] @ halted
        @ [Read op c2, Write op (c2 OR USBCMD_HCRST)] @ reset @ ready)\<rparr>)
    \<and> polled (op + 0x04) (\<lambda>v. v AND USBSTS_HCH = 0) halted \<and> polled op (\<lambda>v. v AND USBCMD_HCRST \<noteq> 0) reset
    \<and> polled (op + 0x04) (\<lambda>v. v AND USBSTS_CNR \<noteq> 0) ready"
proof -
  obtain c1 h1 where r1: "mrd32 io op h = (c1, h1)" by fastforce
  let ?l1 = "l @ [Read op c1, Write op (c1 AND NOT USBCMD_RUN_OR_STOP)]"
  obtain h2 halted where p1: "spin_while (mmio_read32 (traced io) (op + 0x04)) (\<lambda>v. v AND USBSTS_HCH = 0)
      (s\<lparr>outside := (mwr32 io op (c1 AND NOT USBCMD_RUN_OR_STOP) h1, ?l1)\<rparr>) = Some (s\<lparr>outside := (h2, ?l1 @ halted)\<rparr>)"
    "polled (op + 0x04) (\<lambda>v. v AND USBSTS_HCH = 0) halted"
    using spin_polls [OF assms(1), where s = s and l = ?l1 and h = "mwr32 io op (c1 AND NOT USBCMD_RUN_OR_STOP) h1"] by blast
  obtain c2 h3 where r2: "mrd32 io op h2 = (c2, h3)" by fastforce
  let ?l2 = "(?l1 @ halted) @ [Read op c2, Write op (c2 OR USBCMD_HCRST)]"
  obtain h4 reset where p2: "spin_while (mmio_read32 (traced io) op) (\<lambda>v. v AND USBCMD_HCRST \<noteq> 0)
      (s\<lparr>outside := (mwr32 io op (c2 OR USBCMD_HCRST) h3, ?l2)\<rparr>) = Some (s\<lparr>outside := (h4, ?l2 @ reset)\<rparr>)"
    "polled op (\<lambda>v. v AND USBCMD_HCRST \<noteq> 0) reset"
    using spin_polls [OF assms(2), where s = s and l = ?l2 and h = "mwr32 io op (c2 OR USBCMD_HCRST) h3"] by blast
  obtain h5 ready where p3: "spin_while (mmio_read32 (traced io) (op + 0x04)) (\<lambda>v. v AND USBSTS_CNR \<noteq> 0)
      (s\<lparr>outside := (h4, ?l2 @ reset)\<rparr>) = Some (s\<lparr>outside := (h5, (?l2 @ reset) @ ready)\<rparr>)"
    "polled (op + 0x04) (\<lambda>v. v AND USBSTS_CNR \<noteq> 0) ready"
    using spin_polls [OF assms(3), where s = s and l = "?l2 @ reset" and h = h4] by blast
  show ?thesis
    by (rule exI [of _ h5], rule exI [of _ c1], rule exI [of _ halted], rule exI [of _ c2], rule exI [of _ reset], rule exI [of _ ready])
      (use r1 r2 p1 p2 p3 in \<open>simp add: reset_controller_def status_reads write_usbcmd_def traced_accesses\<close>)
qed

text \<open>The record of \<open>setup_event_ring\<close> and that of \<open>start_controller\<close>.\<close>

definition event_ring_record :: "u64 \<Rightarrow> u32 \<Rightarrow> u64 \<Rightarrow> u64 \<Rightarrow> u32 \<Rightarrow> access list" where
  "event_ring_record base rts seg_phys erst_phys iman =
     (let ir0 = base + ucast (rts AND NOT 0x1F) + 0x20 in
      [Read (base + 0x18) rts, Write (ir0 + 0x08) 1, Write64 (ir0 + 0x18) seg_phys, Write64 (ir0 + 0x10) erst_phys,
       Read ir0 iman, Write ir0 (iman OR push_bit 1 1)])"

definition start_record :: "u64 \<Rightarrow> u8 \<Rightarrow> u32 \<Rightarrow> u32 list \<Rightarrow> access list" where
  "start_record base n cmd polls =
     (let op = base + ucast n in
      [Read8 base n, Read op cmd, Write op ((cmd OR USBCMD_INTE) OR USBCMD_RUN_OR_STOP)] @ map (Read (op + 0x04)) polls)"

lemma event_ring_and_start:
  assumes cap: "caplength io x n" and regs: "runtime_regs_ok io x" and off: "hhdm_offset s = Some off" and heap: "heap_serves io off"
  shows "\<exists>h' seg erst rts iman c3 running.
      do { (x, s) \<leftarrow> setup_event_ring (traced io) x (s\<lparr>outside := (h, l)\<rparr>); Some (x, start_controller (traced io) x s) } =
      Some (x\<lparr>event_ring_virt := seg, event_ring_phys := seg - off, dequeue_index := 0, cycle_state := True\<rparr>,
        s\<lparr>ram := wr32 (wr64 (mem_fill (mem_fill (ram s) seg 0 512) erst 0 64) erst (seg - off)) (erst + 8) 32,
          outside := (h', l @ event_ring_record (virt_base x) rts (seg - off) (erst - off) iman @ start_record (virt_base x) n c3 running)\<rparr>)
    \<and> length running \<le> 1000000"
proof -
  obtain seg h6 where b3: "heap_alloc io 512 64 h = Some (seg, h6)" "off \<le> seg" using heap by (meson heap_serves_def)
  obtain erst h7 where b4: "heap_alloc io 64 64 h6 = Some (erst, h7)" "off \<le> erst" using heap by (meson heap_serves_def)
  let ?m = "wr32 (wr64 (mem_fill (mem_fill (ram s) seg 0 512) erst 0 64) erst (seg - off)) (erst + 8) 32"
  let ?x = "x\<lparr>event_ring_virt := seg, event_ring_phys := seg - off, dequeue_index := 0, cycle_state := True\<rparr>"
  let ?l = "\<lambda>rts iman. l @ event_ring_record (virt_base x) rts (seg - off) (erst - off) iman"
  obtain h8 rts iman where e: "setup_event_ring (traced io) x (s\<lparr>outside := (h, l)\<rparr>) = Some (?x, s\<lparr>ram := ?m, outside := (h8, ?l rts iman)\<rparr>)"
    using setup_event_ring_traced [OF regs off b3 b4, where l = l] by (auto simp only: Let_def event_ring_record_def)
  have "caplength io ?x n" using cap by (simp add: caplength_def)
  from start_controller_traced [OF this, where s = "s\<lparr>ram := ?m\<rparr>" and h = h8 and l = "?l rts iman"] obtain h9 c3 running where
    "start_controller (traced io) ?x (s\<lparr>ram := ?m, outside := (h8, ?l rts iman)\<rparr>)
      = s\<lparr>ram := ?m, outside := (h9, ?l rts iman @ start_record (virt_base x) n c3 running)\<rparr>" "length running \<le> 1000000"
    by (auto simp: start_record_def Let_def)
  with e show ?thesis
    by (intro exI [of _ h9] exI [of _ seg] exI [of _ erst])
      (rule exI [of _ rts], rule exI [of _ iman], rule exI [of _ c3], rule exI [of _ running], simp)
qed

text \<open>Between the reset and the event ring.\<close>

lemma init_after_reset:
  assumes o: "op_regs (traced io) x t = (op, t1)" and r: "reset_controller (traced io) op t1 = Some (s\<lparr>outside := (h1, l)\<rparr>)"
    and off: "hhdm_offset s = Some off" and heap: "heap_serves io off"
  shows "\<exists>h2 hcs dcbaa ring. init_xhci (traced io) x t = do {
      (x, s) \<leftarrow> setup_event_ring (traced io)
        (x\<lparr>cmd_ring_virt := ring, cmd_ring_phys := ring - off, cmd_enqueue_index := 0, cmd_cycle_state := True, dcbaa_virt := dcbaa\<rparr>)
        (s\<lparr>ram := mem_fill (mem_fill (ram s) dcbaa 0 2048) ring 0 512, outside := (h2, l
          @ [Read (virt_base x + 0x04) hcs, Write (op + 0x38) (ucast (ucast (hcs AND 0xFF) :: u8)),
             Write64 (op + 0x30) (dcbaa - off), Write64 (op + 0x18) (((ring - off) AND NOT 0x3F) OR 1)])\<rparr>);
      Some (x, start_controller (traced io) x s) }"
proof -
  obtain hcs h2 where hcs: "mrd32 io (virt_base x + 0x04) h1 = (hcs, h2)" by fastforce
  let ?slots = "ucast (ucast (hcs AND 0xFF) :: u8) :: u32"
  obtain dcbaa h3 where b1: "heap_alloc io 2048 64 (mwr32 io (op + 0x38) ?slots h2) = Some (dcbaa, h3)" "off \<le> dcbaa"
    using heap by (meson heap_serves_def)
  obtain ring h4 where b2: "heap_alloc io 512 64 (mwr64 io (op + 0x30) (dcbaa - off) h3) = Some (ring, h4)" "off \<le> ring"
    using heap by (meson heap_serves_def)
  have p: "phys_unwrap dcbaa (s\<lparr>ram := k, outside := j\<rparr>) = Some (dcbaa - off)" "phys_unwrap ring (s\<lparr>ram := k, outside := j\<rparr>) = Some (ring - off)" for k j
    using off b1 b2 by (simp_all add: phys_unwrap_high)
  have slots: "max_slots (traced io) x (s\<lparr>outside := (h1, l)\<rparr>) = (ucast (hcs AND 0xFF), s\<lparr>outside := (h2, l @ [Read (virt_base x + 0x04) hcs])\<rparr>)"
    by (simp add: max_slots_def hcsparams1_def traced_accesses(2) [OF hcs])
  show ?thesis
    unfolding init_xhci_resets o Let_def split r bind.bind_lunit slots
    by (rule exI [of _ "mwr64 io (op + 0x18) (((ring - off) AND NOT 0x3F) OR 1) h4"], rule exI [of _ hcs], rule exI [of _ dcbaa], rule exI [of _ ring])
      (simp add: write_config_def write_dcbaap_def write_crcr_def traced_accesses(3,4) traced_accesses(5) [OF b1(1)]
        traced_accesses(5) [OF b2(1)] p ram_outside)
qed


text \<open>
  An example: the status register alternates between halted and not ready, and the heap hands out four pages in turn.
\<close>

definition status_machine :: "(bool \<times> nat) machine" where
  "status_machine =
     \<lparr>inb = \<lambda>p h. (0, h), outb = \<lambda>p v h. h, inl = \<lambda>p h. (0, h), outl = \<lambda>p v h. h,
      rdmsr = \<lambda>r h. (0, h), wrmsr = \<lambda>r v h. h, mrd8 = \<lambda>a h. (0x20, h),
      mrd32 = \<lambda>a (b, p). (if b then 1 else 0x800, (\<not> b, p)),
      mwr32 = \<lambda>a v h. h, mwr64 = \<lambda>a v h. h,
      heap_alloc = \<lambda>n al (b, p). Some (0xFFFF800000000000 + of_nat (p mod 4) * 0x1000, b, p + 1), heap_free = \<lambda>a h. h,
      hw_step = \<lambda>h m. (h, m, False)\<rparr>"

lemma status_machine_settles:
  assumes "\<not> busy 1 \<or> \<not> busy 0x800"
  shows "settles status_machine a busy"
  unfolding settles_def
proof
  fix h :: "bool \<times> nat"
  obtain b p where h: "h = (b, p)" by (cases h)
  show "\<exists>n. \<not> busy (fst (mrd32 status_machine a ((next_read status_machine a ^^ n) h)))"
  proof (cases "busy (if b then 1 else 0x800)")
    case False
    then show ?thesis by (intro exI [of _ 0]) (simp add: status_machine_def h)
  next
    case True
    with assms show ?thesis by (intro exI [of _ 1]) (auto simp: status_machine_def next_read_def h split: if_splits)
  qed
qed

lemma status_machine_serves: "heap_serves status_machine 0xFFFF800000000000"
proof -
  have "(0xFFFF800000000000 :: u64) \<le> 0xFFFF800000000000 + of_nat (p mod 4) * 0x1000" for p
  proof -
    have "p mod 4 = 0 \<or> p mod 4 = 1 \<or> p mod 4 = 2 \<or> p mod 4 = 3" by presburger
    then show ?thesis by (elim disjE) simp_all
  qed
  then show ?thesis by (auto simp: heap_serves_def status_machine_def)
qed


end
