(* ===== verification/Enumeration.thy ===== *)
theory Enumeration
  imports Usb Controller_Start
begin

text \<open>
  The enumeration of a device in \<^verbatim>\<open>kernel/src/usb/mod.rs\<close> as a conversation: \<open>init_one_device\<close> and everything it calls, with a
  controller and a device that answer each command and each request with success. The device answers what stands
  in the rings: when the last request on the endpoint-0 ring asks for the configuration descriptor, it writes its bytes
  into the buffer the request names.
\<close>

section \<open>A device that answers\<close>

text \<open>
  The setup packet and the buffer of the last request with a data stage on the endpoint-0 ring. The enqueue index runs
  through 0 to 14, and such a request is three TRBs.
\<close>

definition last_request :: "XHCI \<Rightarrow> mem \<Rightarrow> u64 \<times> u64" where
  "last_request x m =
     (parameter (trb_read m (trb_slot (ep0_ring_virt x) ((ep0_enqueue_index x + 12) mod 15))),
      parameter (trb_read m (trb_slot (ep0_ring_virt x) ((ep0_enqueue_index x + 13) mod 15))))"

definition config_request :: u64 where
  "config_request = setup_packet 0x80 USB_REQ_GET_DESCRIPTOR (push_bit 8 (ucast USB_DESC_TYPE_CONFIGURATION)) 0 256"

text \<open>The type of the last command; the command ring counts modulo 31.\<close>

definition last_command :: "XHCI \<Rightarrow> mem \<Rightarrow> u32" where
  "last_command x m = trb_type (trb_read m (trb_slot (cmd_ring_virt x) ((cmd_enqueue_index x + 30) mod 31)))"

text \<open>
  What happens between two looks of a waiting loop: memory may change in any way (DMA), and whatever was sent has been
  completed, a command with a code that may depend on the command and a request with code 1, for the slot that was given out.
\<close>

definition answering :: "(('h, 'z) kernel_scheme \<Rightarrow> ('h, 'z) kernel_scheme) \<Rightarrow> u32 \<Rightarrow> (u32 \<Rightarrow> u32) \<Rightarrow> bool" where
  "answering f slot code \<longleftrightarrow> (\<forall>s. \<exists>m c residue.
     f s = s\<lparr>ram := m, completion_pending := True, completion_code := c, completion_slot := slot,
             transfer_completion_pending := True, transfer_completion_code := 1, transfer_completion_length := residue\<rparr>
     \<and> (\<forall>x. xhci_instance s = Some x \<longrightarrow> c = code (last_command x (ram s))))"

text \<open>
  A device that obliges: every command succeeds, and the request for the configuration is answered with its
  bytes; the residue is what is missing to the 256 bytes asked for.
\<close>

definition obliging :: "(('h, 'z) kernel_scheme \<Rightarrow> ('h, 'z) kernel_scheme) \<Rightarrow> u32 \<Rightarrow> u64 \<Rightarrow> u8 list \<Rightarrow> bool" where
  "obliging f slot off cfg \<longleftrightarrow> answering f slot (\<lambda>_. 1)
     \<and> (\<forall>s x buf. xhci_instance s = Some x \<and> last_request x (ram s) = (config_request, buf) \<longrightarrow>
          mem_read (ram (f s)) (buf + off) (length cfg) = cfg \<and> transfer_completion_length (f s) = 256 - of_nat (length cfg))"

text \<open>What a command or a request leaves alone: the drivers, and what the boot loader said.\<close>

definition moved :: "('h, 'z) kernel_scheme \<Rightarrow> ('h, 'z) kernel_scheme \<Rightarrow> bool" where
  "moved s s' \<longleftrightarrow> hhdm_offset s' = hhdm_offset s \<and> kbd_dci s' = kbd_dci s \<and> kbd_slot_id s' = kbd_slot_id s
     \<and> kbd_report_pending s' = kbd_report_pending s \<and> mouse_dci s' = mouse_dci s \<and> mouse_slot_id s' = mouse_slot_id s
     \<and> mouse_report_pending s' = mouse_report_pending s \<and> kernel.more s' = kernel.more s"

definition ready :: "('h, 'e) machine_scheme \<Rightarrow> u64 \<Rightarrow> ('h, 'z) kernel_scheme \<Rightarrow> bool" where
  "ready io off s \<longleftrightarrow> hhdm_offset s = Some off
     \<and> (\<exists>x. xhci_instance s = Some x \<and> doorbells_ok io x \<and> ep0_enqueue_index x < 15 \<and> cmd_enqueue_index x < 31)"

lemma moved_refl: "moved s s"
  by (simp add: moved_def)

lemma moved_trans: "moved s t \<Longrightarrow> moved t u \<Longrightarrow> moved s u"
  by (simp add: moved_def)

lemma moved_usb:
  assumes "moved s s'"
  shows "kbd_state s' = kbd_state s" "mouse_state s' = mouse_state s" "active_ports s' = active_ports s" "console s' = console s"
  using assms by (cases s; cases s'; simp add: moved_def)+

section \<open>Commands and requests succeed\<close>

lemma command_answered:
  assumes f: "answering f slot code" and r: "ready io off s" and x: "xhci_instance s = Some x" "cmd_enqueue_index x < 31"
    and prep: "virt_base (prep x) = virt_base x" "ep0_enqueue_index x < 15 \<Longrightarrow> ep0_enqueue_index (prep x) < 15"
      "cmd_enqueue_index (prep x) = cmd_enqueue_index x"
    and ty: "ty AND 0x3F = ty"
  shows "\<exists>s' y. issue_command io (\<lambda>s. Some (f s)) prep param ty slot_id s = Some (if code ty = 1 then Inr () else Inl CommandFailed, s')
    \<and> ready io off s' \<and> moved s s' \<and> completion_slot s' = slot
    \<and> xhci_instance s' = Some y \<and> cmd_enqueue_index y = (cmd_enqueue_index x + 1) mod 31"
proof -
  have x': "hhdm_offset s = Some off" "doorbells_ok io x" "ep0_enqueue_index x < 15"
    using r x(1) by (auto simp: ready_def)
  then have "doorbells_ok io (prep x)" by (simp add: doorbells_ok_def prep(1))
  from issue_command_outcome [where prep = prep and f = f, OF x(1) this] obtain h where
    *: "issue_command io (\<lambda>s. Some (f s)) prep param ty slot_id s =
      (let s1 = command_sent (prep x) (param, 0, ty, slot_id) h s;
           n = first_up f completion_pending WAIT_LIMIT s1; s2 = (f ^^ n) s1
       in Some (if n = WAIT_LIMIT then Inl CompletionTimeout
                else if completion_code s2 = 1 then Inr () else Inl CommandFailed, s2))" by blast
  let ?s1 = "command_sent (prep x) (param, 0, ty, slot_id) h s" and ?i = "cmd_enqueue_index x"
  obtain y where y: "xhci_instance ?s1 = Some y" "virt_base y = virt_base x" "ep0_enqueue_index y < 15"
      "cmd_ring_virt y = cmd_ring_virt (prep x)" "cmd_enqueue_index y = (?i + 1) mod 31"
    and ram: "ram ?s1 = trb_write (ram s) (trb_slot (cmd_ring_virt (prep x)) ?i) (cmd_trb (param, 0, ty, slot_id) (cmd_cycle_state (prep x)))"
    using x'(3) x(2) prep by (auto simp: command_sent_def cmd_put_eq mod_Suc)
  have "(cmd_enqueue_index y + 30) mod 31 = ?i"
    using x(2) unfolding y(5) mod_add_left_eq by simp
  then have "last_command y (ram ?s1) = ty"
    using ty unfolding last_command_def y(4) ram by (simp add: trb_read_write_same cmd_trb_bits)
  with f y(1) obtain m res where fs: "f ?s1 = ?s1\<lparr>ram := m, completion_pending := True, completion_code := code ty, completion_slot := slot,
      transfer_completion_pending := True, transfer_completion_code := 1, transfer_completion_length := res\<rparr>"
    unfolding answering_def by metis
  then have "first_up f completion_pending WAIT_LIMIT ?s1 = 1"
    by (intro first_up_1) (simp_all add: WAIT_LIMIT_def)
  with * have "issue_command io (\<lambda>s. Some (f s)) prep param ty slot_id s
      = Some (if code ty = 1 then Inr () else Inl CommandFailed, f ?s1)"
    by (simp add: Let_def fs WAIT_LIMIT_def)
  moreover have m: "moved s ?s1" by (simp add: moved_def command_sent_def cmd_put_eq)
  then have "moved s (f ?s1)" by (simp add: moved_def fs)
  moreover have "doorbells_ok io y" using x'(2) y(2) by (simp add: doorbells_ok_def)
  then have "ready io off (f ?s1)" using x'(1) y m by (simp add: ready_def fs moved_def)
  ultimately show ?thesis using fs y(1,5) by (intro exI [of _ "f ?s1"] exI [of _ y]) simp
qed

lemma command_succeeds:
  assumes f: "obliging f slot off cfg" and r: "ready io off s" and ty: "ty AND 0x3F = ty"
    and prep: "\<And>x. virt_base (prep x) = virt_base x" "\<And>x. ep0_enqueue_index x < 15 \<Longrightarrow> ep0_enqueue_index (prep x) < 15"
      "\<And>x. cmd_enqueue_index (prep x) = cmd_enqueue_index x"
  shows "\<exists>s'. issue_command io (\<lambda>s. Some (f s)) prep param ty slot_id s = Some (Inr (), s')
    \<and> ready io off s' \<and> moved s s' \<and> completion_slot s' = slot"
proof -
  obtain x where x: "xhci_instance s = Some x" "cmd_enqueue_index x < 31" using r by (auto simp: ready_def)
  from f have "answering f slot (\<lambda>_. 1)" by (simp add: obliging_def)
  from command_answered [where prep = prep, OF this r x prep ty] show ?thesis by auto
qed

text \<open>The index of the endpoint-0 ring counts modulo 15.\<close>

lemma ep0_put_index:
  assumes "ep0_enqueue_index x < 15"
  shows "ep0_put r (x, s) = (y, t) \<Longrightarrow> ep0_enqueue_index y = (ep0_enqueue_index x + 1) mod 15 \<and> ep0_ring_virt y = ep0_ring_virt x
    \<and> t = s\<lparr>ram := trb_write (ram s) (trb_slot (ep0_ring_virt x) (ep0_enqueue_index x)) (ep0_trb r (ep0_cycle_state x))\<rparr>"
  using assms by (auto simp: ep0_put_eq mod_if)

lemma fold_ep0_put_index:
  assumes "ep0_enqueue_index x < 15"
  shows "ep0_enqueue_index (fst (fold ep0_put trbs (x, s))) = (ep0_enqueue_index x + length trbs) mod 15"
  using assms
proof (induction trbs arbitrary: x s)
  case (Cons r trbs)
  obtain y t where e: "ep0_put r (x, s) = (y, t)" by fastforce
  have y: "ep0_enqueue_index y = (ep0_enqueue_index x + 1) mod 15" using ep0_put_index [OF Cons.prems e] by blast
  then have "ep0_enqueue_index (fst (fold ep0_put trbs (y, t))) = (ep0_enqueue_index y + length trbs) mod 15"
    by (intro Cons.IH) simp
  with e y show ?case by (simp add: mod_add_left_eq)
qed simp

lemma mod_neq:
  assumes "i < (15 :: nat)"
  shows "i \<noteq> (i + 1) mod 15" "i \<noteq> (i + 2) mod 15" "(i + 1) mod 15 \<noteq> (i + 2) mod 15"
  using assms by (simp_all add: mod_Suc)

text \<open>A request with a data stage can be read back from the ring.\<close>

lemma last_request_sent:
  assumes "ep0_enqueue_index x < 15" and "fold ep0_put (control_in_trbs setup buf len) (x, s) = (y, t)"
  shows "last_request y (ram t) = (setup, buf)"
proof -
  obtain r1 r2 r3 where trbs: "control_in_trbs setup buf len = [r1, r2, r3]" "fst r1 = setup" "fst r2 = buf"
    by (simp add: control_in_trbs_def)
  obtain x1 t1 where 1: "ep0_put r1 (x, s) = (x1, t1)" by fastforce
  obtain x2 t2 where 2: "ep0_put r2 (x1, t1) = (x2, t2)" by fastforce
  have 3: "ep0_put r3 (x2, t2) = (y, t)" using assms(2) trbs(1) 1 2 by simp
  note p1 = ep0_put_index [OF assms(1) 1]
  then have "ep0_enqueue_index x1 < 15" by simp
  note p2 = ep0_put_index [OF this 2]
  then have "ep0_enqueue_index x2 < 15" by simp
  note p3 = ep0_put_index [OF this 3]
  let ?r = "ep0_ring_virt x" and ?i = "ep0_enqueue_index x"
  have v: "ep0_ring_virt y = ?r" "ep0_ring_virt x2 = ?r" "ep0_ring_virt x1 = ?r" using p1 p2 p3 by simp_all
  have x2: "ep0_enqueue_index x2 = (?i + 2) mod 15"
    using p1 p2 mod_add_left_eq [of "?i + 1" 15 1] by (simp add: add.assoc)
  then have "ep0_enqueue_index y = (?i + 3) mod 15"
    using p3 mod_add_left_eq [of "?i + 2" 15 1] by (simp add: add.commute)
  then have i: "(ep0_enqueue_index y + 12) mod 15 = ?i" "(ep0_enqueue_index y + 13) mod 15 = (?i + 1) mod 15"
    using mod_add_left_eq [of "?i + 3" 15 12] mod_add_left_eq [of "?i + 3" 15 13] mod_add_left_eq [of 15 15 "?i + 1"] assms(1)
    by (simp_all add: add.assoc add.commute)
  define a where "a = trb_slot ?r ?i"
  define b where "b = trb_slot ?r ((?i + 1) mod 15)"
  define c where "c = trb_slot ?r ((?i + 2) mod 15)"
  have d: "disj c 16 a 16" "disj c 16 b 16" "disj b 16 a 16"
    unfolding a_def b_def c_def using assms(1) mod_neq [OF assms(1)] less_trans [OF mod_less_divisor [of 15]]
    by (auto intro!: trb_slots_disj)
  have "ram t = trb_write (trb_write (trb_write (ram s) a (ep0_trb r1 (ep0_cycle_state x))) b (ep0_trb r2 (ep0_cycle_state x1)))
      c (ep0_trb r3 (ep0_cycle_state x2))"
    using p1 p2 p3 unfolding x2 v by (simp add: a_def b_def c_def)
  moreover have "last_request y (ram t) = (parameter (trb_read (ram t) a), parameter (trb_read (ram t) b))"
    unfolding last_request_def i v a_def b_def ..
  moreover have "parameter (ep0_trb r c) = fst r" for r c by (cases r) (simp add: ep0_trb_def)
  ultimately show ?thesis
    using d trbs(2,3) by (simp add: trb_read_write_same trb_read_write_disj)
qed

lemma fold_ep0_put_cmd: "cmd_enqueue_index (fst (fold ep0_put trbs (x, s))) = cmd_enqueue_index x"
  by (induction trbs arbitrary: x s) (auto simp: ep0_put_eq)

lemma transfer_succeeds:
  assumes f: "obliging f slot off cfg" and r: "ready io off s"
  shows "\<exists>s'. control_transfer io (\<lambda>s. Some (f s)) sl trbs s = Some (Inr 1, s') \<and> ready io off s' \<and> moved s s'
    \<and> (\<forall>buf len. trbs = control_in_trbs config_request buf len \<longrightarrow>
         mem_read (ram s') (buf + off) (length cfg) = cfg \<and> transfer_completion_length s' = 256 - of_nat (length cfg))"
proof -
  obtain x where x: "hhdm_offset s = Some off" "xhci_instance s = Some x" "doorbells_ok io x" "ep0_enqueue_index x < 15"
    "cmd_enqueue_index x < 31" using r by (auto simp: ready_def)
  from control_transfer_outcome [where f = f, OF x(2,3)] obtain h where
    *: "control_transfer io (\<lambda>s. Some (f s)) sl trbs s =
      (let s1 = transfer_sent x trbs h s;
           n = first_up f transfer_completion_pending WAIT_LIMIT s1; s2 = (f ^^ n) s1
       in Some (if n = WAIT_LIMIT then Inl CompletionTimeout else Inr (transfer_completion_code s2), s2))" by blast
  let ?s1 = "transfer_sent x trbs h s" and ?t = "s\<lparr>transfer_completion_pending := False\<rparr>"
  obtain y t where e: "fold ep0_put trbs (x, ?t) = (y, t)" by fastforce
  then obtain m1 where t: "t = ?t\<lparr>ram := m1\<rparr>" using fold_ep0_put_frame [of trbs x ?t] by auto
  have y: "virt_base y = virt_base x" "ep0_enqueue_index y < 15" "cmd_enqueue_index y = cmd_enqueue_index x"
    using e fold_ep0_put_base [of trbs x ?t] fold_ep0_put_index [OF x(4), of trbs ?t] fold_ep0_put_cmd [of trbs x ?t] by auto
  have s1: "?s1 = ?t\<lparr>ram := m1, outside := h, xhci_instance := Some y\<rparr>" by (simp add: transfer_sent_def e t)
  obtain m c res where fs: "f ?s1 = ?s1\<lparr>ram := m, completion_pending := True, completion_code := c, completion_slot := slot,
      transfer_completion_pending := True, transfer_completion_code := 1, transfer_completion_length := res\<rparr>"
    using f unfolding obliging_def answering_def by blast
  have "first_up f transfer_completion_pending WAIT_LIMIT ?s1 = 1"
    using fs by (intro first_up_1) (simp_all add: WAIT_LIMIT_def s1)
  with * have "control_transfer io (\<lambda>s. Some (f s)) sl trbs s = Some (Inr 1, f ?s1)"
    by (simp add: Let_def fs WAIT_LIMIT_def)
  moreover have "moved s (f ?s1)" unfolding fs by (simp add: moved_def s1)
  moreover have "ready io off (f ?s1)" using x y unfolding fs by (simp add: ready_def s1 doorbells_ok_def)
  moreover have "mem_read (ram (f ?s1)) (buf + off) (length cfg) = cfg \<and> transfer_completion_length (f ?s1) = 256 - of_nat (length cfg)"
    if "trbs = control_in_trbs config_request buf len" for buf len
  proof -
    have "xhci_instance ?s1 = Some y" "last_request y (ram ?s1) = (config_request, buf)"
      using that e last_request_sent [OF x(4), of config_request buf len ?t y t] t s1 by simp_all
    then show ?thesis using f unfolding obliging_def by blast
  qed
  ultimately show ?thesis by blast
qed

lemma no_data_succeeds:
  assumes "obliging f slot off cfg" and "ready io off s"
  shows "\<exists>s'. control_transfer_no_data io (\<lambda>s. Some (f s)) sl ty rq v i s = Some (Inr (), s') \<and> ready io off s' \<and> moved s s'"
  using transfer_succeeds [OF assms, of sl "control_no_data_trbs (setup_packet ty rq v i 0)"]
  by (auto simp: control_transfer_no_data_def Let_def)

text \<open>Allocations.\<close>

lemma box_ready:
  assumes "heap_serves io off" and "ready io off s"
  shows "\<exists>a s'. box_zeroed io n al s = Some (a, s') \<and> off \<le> a \<and> ready io off s' \<and> moved s s'
    \<and> phys_or_error a s' = Some (Inr (a - off), s') \<and> xhci_instance s' = xhci_instance s"
proof -
  obtain a h where h: "heap_alloc io n al (outside s) = Some (a, h)" "off \<le> a"
    using assms(1) by (meson heap_serves_def)
  let ?s = "s\<lparr>outside := h, ram := mem_fill (ram s) a 0 n\<rparr>"
  have "virtual_to_physical ?s a = Some (Some (a - off))"
    using assms(2) h(2) by (intro virtual_to_physical_eq) (auto simp: ready_def)
  then have "phys_or_error a ?s = Some (Inr (a - off), ?s)" by (simp add: phys_or_error_def)
  with h assms(2) show ?thesis
    by (intro exI [of _ a] exI [of _ ?s]) (simp add: box_zeroed_def ready_def moved_def)
qed

lemma ready_ram: "ready io off (s\<lparr>ram := m\<rparr>) \<longleftrightarrow> ready io off s" "moved (s\<lparr>ram := m\<rparr>) s' \<longleftrightarrow> moved s s'"
  by (simp_all add: ready_def moved_def)

lemma phys_or_error_ram: "phys_or_error a s = Some (Inr p, s) \<Longrightarrow> phys_or_error a (s\<lparr>ram := m\<rparr>) = Some (Inr p, s\<lparr>ram := m\<rparr>)"
  by (auto simp: phys_or_error_def virtual_to_physical_def split: option.splits Option.bind_splits)

section \<open>The steps of the enumeration\<close>

lemma enable_slot_answered:
  assumes f: "answering f slot code" "code TRB_TYPE_ENABLE_SLOT = 1" and r: "ready io off s" and x: "xhci_instance s = Some x" "cmd_enqueue_index x < 31"
  shows "\<exists>s' y. enable_slot io (\<lambda>s. Some (f s)) s = Some (Inr slot, s') \<and> ready io off s' \<and> moved s s'
    \<and> xhci_instance s' = Some y \<and> cmd_enqueue_index y = (cmd_enqueue_index x + 1) mod 31"
  using command_answered [where prep = id and ty = TRB_TYPE_ENABLE_SLOT, OF f(1) r x, of 0 0] f(2)
  by (auto simp: enable_slot_def TRB_TYPE_ENABLE_SLOT_def)

text \<open>Address Device, whatever the answer.\<close>

lemma address_device_answered:
  assumes f: "answering f slot code" and r: "ready io off s" and heap: "heap_serves io off"
    and x: "xhci_instance s = Some x" "cmd_enqueue_index x < 31"
  shows "\<exists>s' y. address_device io (\<lambda>s. Some (f s)) sl port speed s
      = Some (if code TRB_TYPE_ADDRESS_DEVICE = 1 then Inr () else Inl CommandFailed, s')
    \<and> ready io off s' \<and> moved s s' \<and> xhci_instance s' = Some y \<and> cmd_enqueue_index y = (cmd_enqueue_index x + 1) mod 31"
proof -
  from box_ready [OF heap r, of 256 64] obtain ring s1 where 1: "box_zeroed io 256 64 s = Some (ring, s1)" "ready io off s1"
    "moved s s1" "phys_or_error ring s1 = Some (Inr (ring - off), s1)" "xhci_instance s1 = xhci_instance s" by blast
  from box_ready [OF heap 1(2), of 1024 64] obtain dev s2 where 2: "box_zeroed io 1024 64 s1 = Some (dev, s2)" "ready io off s2"
    "moved s1 s2" "phys_or_error dev s2 = Some (Inr (dev - off), s2)" "xhci_instance s2 = xhci_instance s1" by blast
  let ?s3 = "s2\<lparr>ram := wr64 (ram s2) (dcbaa_entry x sl) (dev - off)\<rparr>"
  have "ready io off ?s3" using 2(2) by (simp add: ready_ram)
  from box_ready [OF heap this, of 128 64] obtain input s4 where 4: "box_zeroed io 128 64 ?s3 = Some (input, s4)" "ready io off s4"
    "moved ?s3 s4" "phys_or_error input s4 = Some (Inr (input - off), s4)" "xhci_instance s4 = xhci_instance ?s3" by blast
  let ?s5 = "s4\<lparr>ram := write_input_context input (ring - off) port speed (ram s4)\<rparr>"
  let ?prep = "\<lambda>x. x\<lparr>ep0_ring_virt := ring, ep0_ring_phys := ring - off, ep0_enqueue_index := 0, ep0_cycle_state := True\<rparr>"
  have s5: "ready io off ?s5" "xhci_instance ?s5 = Some x" using 4(2,5) 2(5) 1(5) x(1) by (simp_all add: ready_ram)
  obtain s6 y where 6: "issue_command io (\<lambda>s. Some (f s)) ?prep (input - off) TRB_TYPE_ADDRESS_DEVICE sl ?s5
      = Some (if code TRB_TYPE_ADDRESS_DEVICE = 1 then Inr () else Inl CommandFailed, s6)"
    "ready io off s6" "moved ?s5 s6" "xhci_instance s6 = Some y" "cmd_enqueue_index y = (cmd_enqueue_index x + 1) mod 31"
    using command_answered [where prep = ?prep and ty = TRB_TYPE_ADDRESS_DEVICE, OF f s5 x(2), of "input - off" sl]
    by (auto simp: TRB_TYPE_ADDRESS_DEVICE_def)
  have "address_device io (\<lambda>s. Some (f s)) sl port speed s
      = Some (if code TRB_TYPE_ADDRESS_DEVICE = 1 then Inr () else Inl CommandFailed, s6)"
    using 6(1) 1(5) 2(5) x(1) by (simp add: address_device_def 1(1,4) 2(1,4) 4(1) phys_or_error_ram [OF 4(4)])
  with 6 1(3) 2(3) 4(3) show ?thesis by (auto simp: ready_ram intro: moved_trans)
qed

lemma enable_slot_succeeds:
  assumes "obliging f slot off cfg" and "ready io off s"
  shows "\<exists>s'. enable_slot io (\<lambda>s. Some (f s)) s = Some (Inr slot, s') \<and> ready io off s' \<and> moved s s'"
proof -
  obtain x where "xhci_instance s = Some x" "cmd_enqueue_index x < 31" using assms(2) by (auto simp: ready_def)
  with assms show ?thesis using enable_slot_answered [of f slot "\<lambda>_. 1" io off s x] by (auto simp: obliging_def)
qed

lemma address_device_succeeds:
  assumes "obliging f slot off cfg" and "ready io off s" and "heap_serves io off"
  shows "\<exists>s'. address_device io (\<lambda>s. Some (f s)) sl port speed s = Some (Inr (), s') \<and> ready io off s' \<and> moved s s'"
proof -
  obtain x where "xhci_instance s = Some x" "cmd_enqueue_index x < 31" using assms(2) by (auto simp: ready_def)
  with assms show ?thesis using address_device_answered [of f slot "\<lambda>_. 1" io off s x sl port speed]
    by (auto simp: obliging_def)
qed

lemma get_device_descriptor_succeeds:
  assumes f: "obliging f slot off cfg" and r: "ready io off s" and heap: "heap_serves io off"
  shows "\<exists>d s'. get_device_descriptor io (\<lambda>s. Some (f s)) sl s = Some (Inr d, s') \<and> ready io off s' \<and> moved s s'"
proof -
  from box_ready [OF heap r, of 18 1] obtain buf s1 where 1: "box_zeroed io 18 1 s = Some (buf, s1)" "ready io off s1"
    "moved s s1" "phys_or_error buf s1 = Some (Inr (buf - off), s1)" by blast
  let ?request = "setup_packet 0x80 USB_REQ_GET_DESCRIPTOR (push_bit 8 (ucast USB_DESC_TYPE_DEVICE)) 0 18"
  from transfer_succeeds [OF f 1(2), of sl "control_in_trbs ?request (buf - off) 18"] obtain s2 where
    "control_transfer io (\<lambda>s. Some (f s)) sl (control_in_trbs ?request (buf - off) 18) s1 = Some (Inr 1, s2)"
    "ready io off s2" "moved s1 s2" by blast
  with 1 show ?thesis by (auto simp: get_device_descriptor_def Let_def intro: moved_trans)
qed

lemma configuration_succeeds:
  assumes f: "obliging f slot off cfg" and r: "ready io off s" and heap: "heap_serves io off"
    and cfg: "length cfg \<le> 256" "parse_descriptors cfg 0 0 0 0 = Some eps"
  shows "\<exists>s'. get_configuration_descriptor_and_find_interrupt_endpoints io (\<lambda>s. Some (f s)) sl s
      = Some (if eps = [] then Inl NoInterruptEndpoint else Inr eps, s') \<and> ready io off s' \<and> moved s s'"
proof -
  from box_ready [OF heap r, of 256 1] obtain buf s1 where 1: "box_zeroed io 256 1 s = Some (buf, s1)" "off \<le> buf" "ready io off s1"
    "moved s s1" "phys_or_error buf s1 = Some (Inr (buf - off), s1)" by blast
  from transfer_succeeds [OF f 1(3), of sl "control_in_trbs config_request (buf - off) 256"] obtain s2 where
    2: "control_transfer io (\<lambda>s. Some (f s)) sl (control_in_trbs config_request (buf - off) 256) s1 = Some (Inr 1, s2)"
    "ready io off s2" "moved s1 s2" "mem_read (ram s2) (buf - off + off) (length cfg) = cfg"
    "transfer_completion_length s2 = 256 - of_nat (length cfg)" by blast
  have "unat (saturating_sub 256 (256 - of_nat (length cfg) :: u32)) = length cfg"
    using cfg(1) by (simp add: saturating_sub_def word_le_nat_alt unat_sub_if' unat_of_nat)
  moreover have "control_transfer_in io (\<lambda>s. Some (f s)) sl 0x80 USB_REQ_GET_DESCRIPTOR (push_bit 8 (ucast USB_DESC_TYPE_CONFIGURATION)) 0
      (buf - off) 256 s1 = Some (Inr (saturating_sub 256 (256 - of_nat (length cfg))), s2)"
    using 2 by (simp add: control_transfer_in_def Let_def flip: config_request_def)
  ultimately show ?thesis
    using 1 2 cfg(2) by (auto simp: get_configuration_descriptor_and_find_interrupt_endpoints_def intro: moved_trans)
qed

lemma in_endpoint_dci: "bit a 7 \<Longrightarrow> dci_of a \<noteq> 0"
proof
  assume "bit a 7" and z: "dci_of a = 0"
  then have "dci_of a = ucast (a AND 0x0F) * 2 + 1" by (simp only: dci_of_def interrupt_in_bits(1) if_True)
  then have "odd (dci_of a)" by simp
  then show False by (simp add: z)
qed

lemma configure_endpoint_succeeds:
  assumes f: "obliging f slot off cfg" and r: "ready io off s" and heap: "heap_serves io off" and ep: "bit (ep_address ep) 7"
  shows "\<exists>ring s'. configure_endpoint io (\<lambda>s. Some (f s)) sl port ep s
      = Some (Inr \<lparr>eh_ring_virt = ring, eh_ring_phys = ring - off, eh_dci = dci_of (ep_address ep)\<rparr>, s')
    \<and> ready io off s' \<and> moved s s'"
proof -
  from box_ready [OF heap r, of 256 64] obtain ring s1 where 1: "box_zeroed io 256 64 s = Some (ring, s1)" "ready io off s1"
    "moved s s1" "phys_or_error ring s1 = Some (Inr (ring - off), s1)" by blast
  let ?s2 = "s1\<lparr>ram := write_link_trb ring (ring - off) CONTROL_RING_SIZE True (ram s1)\<rparr>"
  have "ready io off ?s2" using 1(2) by (simp add: ready_ram)
  from box_ready [OF heap this, of 1088 64] obtain input s3 where 3: "box_zeroed io 1088 64 ?s2 = Some (input, s3)" "ready io off s3"
    "moved ?s2 s3" "phys_or_error input s3 = Some (Inr (input - off), s3)" by blast
  let ?dci = "dci_of (ep_address ep)"
  have "1 \<le> ?dci" using in_endpoint_dci [OF ep] by (simp add: word_le_nat_alt Suc_le_eq unat_gt_0)
  then have idx: "checked_sub ?dci 1 = Some (?dci - 1)" by (simp add: checked_sub_def)
  let ?s4 = "s3\<lparr>ram := write_endpoint_context input ?dci (unat (?dci - 1)) port (ring - off) ep (ram s3)\<rparr>"
  obtain s5 where 5: "issue_command io (\<lambda>s. Some (f s)) id (input - off) TRB_TYPE_CONFIGURE_ENDPOINT sl ?s4 = Some (Inr (), s5)"
    "ready io off s5" "moved ?s4 s5"
    using command_succeeds [where prep = id, OF f, of io ?s4 TRB_TYPE_CONFIGURE_ENDPOINT "input - off" sl] 3(2)
    by (auto simp: ready_ram TRB_TYPE_CONFIGURE_ENDPOINT_def)
  then have "configure_endpoint io (\<lambda>s. Some (f s)) sl port ep s
      = Some (Inr \<lparr>eh_ring_virt = ring, eh_ring_phys = ring - off, eh_dci = ?dci\<rparr>, s5)"
    by (simp add: configure_endpoint_def Let_def 1 3(1) idx phys_or_error_ram [OF 3(4)])
  with 5 1(3) 3(3) show ?thesis by (auto simp: ready_ram intro: moved_trans)
qed

section \<open>The drivers after the enumeration\<close>

text \<open>
  What matters of a driver: the slot and endpoint the interrupt handler compares with, and, if the driver has a state, its
  slot and endpoint, the ring index and cycle state, the distance of the report buffer and of the ring to their
  physical addresses, and what the last report said.
\<close>

definition kbd_view :: "('h, 'z) usb_scheme \<Rightarrow> u32 \<times> u32 \<times> (u32 \<times> u32 \<times> nat \<times> bool \<times> u64 \<times> u64 \<times> u8 list) option" where
  "kbd_view s = (kbd_slot_id s, kbd_dci s, map_option (\<lambda>st. (k_slot_id st, k_dci st, k_enqueue_index st, k_cycle_state st,
     k_report_buf_virt st - k_report_buf_phys st, k_ring_virt st - k_ring_phys st, last_keycodes st)) (kbd_state s))"

definition mouse_view :: "('h, 'z) usb_scheme \<Rightarrow> u32 \<times> u32 \<times> (u32 \<times> u32 \<times> nat \<times> bool \<times> u64 \<times> u64 \<times> u8 \<times> int \<times> int) option" where
  "mouse_view s = (mouse_slot_id s, mouse_dci s, map_option (\<lambda>st. (m_slot_id st, m_dci st, m_enqueue_index st, m_cycle_state st,
     m_report_buf_virt st - m_report_buf_phys st, m_ring_virt st - m_ring_phys st, last_buttons st, pos_x st, pos_y st)) (mouse_state s))"

definition kbd_armed :: "u64 \<Rightarrow> u32 \<Rightarrow> u32 \<Rightarrow> u32 \<times> u32 \<times> (u32 \<times> u32 \<times> nat \<times> bool \<times> u64 \<times> u64 \<times> u8 list) option" where
  "kbd_armed off slot dci = (slot, dci, Some (slot, dci, 1, True, off, off, [0, 0, 0, 0, 0, 0]))"

definition mouse_armed :: "u64 \<Rightarrow> u32 \<Rightarrow> u32 \<Rightarrow> u32 \<times> u32 \<times> (u32 \<times> u32 \<times> nat \<times> bool \<times> u64 \<times> u64 \<times> u8 \<times> int \<times> int) option" where
  "mouse_armed off slot dci = (slot, dci, Some (slot, dci, 1, True, off, off, 0, 0, 0))"

lemma moved_views: "moved s s' \<Longrightarrow> kbd_view s' = kbd_view s \<and> mouse_view s' = mouse_view s \<and> console s' = console s"
  using moved_usb [of s s'] by (simp add: kbd_view_def mouse_view_def moved_def)

lemma init_keyboard_succeeds:
  fixes s :: "('h, 'z) usb_scheme"
  assumes f: "obliging f slot off cfg" and r: "ready io off s" and heap: "heap_serves io off"
    and ep: "eh_ring_phys ep = eh_ring_virt ep - off"
  shows "\<exists>s'. init_keyboard io (\<lambda>s. Some (f s)) sl ep n s = Some s' \<and> ready io off s'
    \<and> kbd_view s' = kbd_armed off sl (eh_dci ep) \<and> mouse_view s' = mouse_view s \<and> console s' = console s"
proof -
  obtain s1 where 1: "control_transfer_no_data io (\<lambda>s. Some (f s)) sl 0x21 HID_SET_PROTOCOL HID_BOOT_PROTOCOL (ucast n) s = Some (Inr (), s1)"
    "ready io off s1" "moved s s1" using no_data_succeeds [OF f r] by blast
  from box_ready [OF heap 1(2), of REPORT_LEN 1] obtain buf s2 where 2: "box_zeroed io REPORT_LEN 1 s1 = Some (buf, s2)" "off \<le> buf"
    "ready io off s2" "moved s1 s2" by blast
  have phys: "phys_unwrap buf s2 = Some (buf - off)"
    using 2(2,3) by (simp add: phys_unwrap_high ready_def)
  let ?st = "\<lparr>k_slot_id = sl, k_ring_virt = eh_ring_virt ep, k_ring_phys = eh_ring_phys ep, k_enqueue_index = 0,
      k_cycle_state = True, k_dci = eh_dci ep, k_report_buf_virt = buf, k_report_buf_phys = buf - off, last_keycodes = [0, 0, 0, 0, 0, 0]\<rparr>"
  let ?s3 = "s2\<lparr>kbd_dci := eh_dci ep, kbd_slot_id := sl, kbd_state := Some ?st\<rparr>"
  have "kbd_ready io (eh_ring_virt ep) (eh_ring_phys ep) (buf - off) ?s3"
    using 2(3) by (auto simp: kbd_ready_def ready_def)
  from keyboard_arm_eq [OF this, of ?st] obtain h m where
    "keyboard_arm_next_report io ?s3 = Some (?s3\<lparr>ram := m, outside := h, kbd_state := Some (?st\<lparr>k_enqueue_index := 1\<rparr>)\<rparr>)"
    by (auto simp: normal_put_eq Let_def)
  then have "init_keyboard io (\<lambda>s. Some (f s)) sl ep n s = Some (?s3\<lparr>ram := m, outside := h, kbd_state := Some (?st\<lparr>k_enqueue_index := 1\<rparr>)\<rparr>)"
    by (simp add: init_keyboard_def 1(1) 2(1) phys del: One_nat_def)
  moreover have "mouse_view s2 = mouse_view s" "console s2 = console s"
    using moved_views [OF moved_trans [OF 1(3) 2(4)]] by simp_all
  ultimately show ?thesis
    using 2(3) ep by (simp add: ready_def kbd_view_def kbd_armed_def) (simp add: mouse_view_def)
qed

lemma init_mouse_succeeds:
  fixes s :: "('h, 'z) usb_scheme"
  assumes f: "obliging f slot off cfg" and r: "ready io off s" and heap: "heap_serves io off"
    and ep: "eh_ring_phys ep = eh_ring_virt ep - off"
  shows "\<exists>s'. init_mouse io (\<lambda>s. Some (f s)) sl ep n s = Some s' \<and> ready io off s'
    \<and> mouse_view s' = mouse_armed off sl (eh_dci ep) \<and> kbd_view s' = kbd_view s \<and> console s' = console s"
proof -
  obtain s1 where 1: "control_transfer_no_data io (\<lambda>s. Some (f s)) sl 0x21 MOUSE_SET_PROTOCOL MOUSE_BOOT_PROTOCOL (ucast n) s = Some (Inr (), s1)"
    "ready io off s1" "moved s s1" using no_data_succeeds [OF f r] by blast
  from box_ready [OF heap 1(2), of REPORT_BUF_LEN 1] obtain buf s2 where 2: "box_zeroed io REPORT_BUF_LEN 1 s1 = Some (buf, s2)" "off \<le> buf"
    "ready io off s2" "moved s1 s2" by blast
  have phys: "phys_unwrap buf s2 = Some (buf - off)"
    using 2(2,3) by (simp add: phys_unwrap_high ready_def)
  let ?st = "\<lparr>m_slot_id = sl, m_ring_virt = eh_ring_virt ep, m_ring_phys = eh_ring_phys ep, m_enqueue_index = 0,
      m_cycle_state = True, m_dci = eh_dci ep, m_report_buf_virt = buf, m_report_buf_phys = buf - off, last_buttons = 0, pos_x = 0, pos_y = 0\<rparr>"
  let ?s3 = "s2\<lparr>mouse_dci := eh_dci ep, mouse_slot_id := sl, mouse_state := Some ?st\<rparr>"
  have "mouse_ready io (eh_ring_virt ep) (eh_ring_phys ep) (buf - off) ?s3"
    using 2(3) by (auto simp: mouse_ready_def ready_def)
  from mouse_arm_eq [OF this, of ?st] obtain h m where
    "mouse_arm_next_report io ?s3 = Some (?s3\<lparr>ram := m, outside := h, mouse_state := Some (?st\<lparr>m_enqueue_index := 1\<rparr>)\<rparr>)"
    by (auto simp: normal_put_eq Let_def)
  then have "init_mouse io (\<lambda>s. Some (f s)) sl ep n s = Some (?s3\<lparr>ram := m, outside := h, mouse_state := Some (?st\<lparr>m_enqueue_index := 1\<rparr>)\<rparr>)"
    by (simp add: init_mouse_def 1(1) 2(1) phys del: One_nat_def)
  moreover have "kbd_view s2 = kbd_view s" "console s2 = console s"
    using moved_views [OF moved_trans [OF 1(3) 2(4)]] by simp_all
  ultimately show ?thesis
    using 2(3) ep by (simp add: ready_def mouse_view_def mouse_armed_def) (simp add: kbd_view_def)
qed

section \<open>The whole enumeration\<close>

definition is_kbd :: "EndpointInfo \<Rightarrow> bool" where
  "is_kbd ep \<longleftrightarrow> interface_class ep = 3 \<and> interface_protocol ep = 1"

definition is_mouse :: "EndpointInfo \<Rightarrow> bool" where
  "is_mouse ep \<longleftrightarrow> interface_class ep = 3 \<and> interface_protocol ep = 2"

text \<open>The last endpoint of a list that has a property, if there is one.\<close>

definition last_of :: "('a \<Rightarrow> bool) \<Rightarrow> 'a list \<Rightarrow> 'a option" where
  "last_of P xs = (if filter P xs = [] then None else Some (last (filter P xs)))"

lemma last_of_simps: "last_of P [] = None" "last_of P (x # xs) = (case last_of P xs of None \<Rightarrow> if P x then Some x else None | Some y \<Rightarrow> Some y)"
  by (simp_all add: last_of_def)

lemma dispatch_endpoint_succeeds:
  fixes s :: "('h, 'z) usb_scheme"
  assumes f: "obliging f slot off cfg" and r: "ready io off s" and heap: "heap_serves io off" and ep: "bit (ep_address ep) 7"
  shows "\<exists>s'. dispatch_endpoint io (\<lambda>s. Some (f s)) sl port ep s
      = Some (if is_kbd ep then Some Keyboard else if is_mouse ep then Some Mouse else None, s')
    \<and> ready io off s' \<and> console s' = console s
    \<and> kbd_view s' = (if is_kbd ep then kbd_armed off sl (dci_of (ep_address ep)) else kbd_view s)
    \<and> mouse_view s' = (if is_mouse ep then mouse_armed off sl (dci_of (ep_address ep)) else mouse_view s)"
proof (cases "interface_class ep = 3")
  case True
  obtain ring s1 where 1: "configure_endpoint io (\<lambda>s. Some (f s)) sl port ep s
      = Some (Inr \<lparr>eh_ring_virt = ring, eh_ring_phys = ring - off, eh_dci = dci_of (ep_address ep)\<rparr>, s1)"
    "ready io off s1" "moved s s1" using configure_endpoint_succeeds [OF f r heap ep] by blast
  note views = moved_views [OF 1(3)]
  let ?ep = "\<lparr>eh_ring_virt = ring, eh_ring_phys = ring - off, eh_dci = dci_of (ep_address ep)\<rparr>"
  have h: "eh_ring_phys ?ep = eh_ring_virt ?ep - off" by simp
  from init_keyboard_succeeds [OF f 1(2) heap h, of sl "inteface_number ep"]
  obtain s2 where 2: "init_keyboard io (\<lambda>s. Some (f s)) sl ?ep (inteface_number ep) s1 = Some s2" "ready io off s2"
    "kbd_view s2 = kbd_armed off sl (eh_dci ?ep)" "mouse_view s2 = mouse_view s1" "console s2 = console s1" by blast
  from init_mouse_succeeds [OF f 1(2) heap h, of sl "inteface_number ep"]
  obtain s3 where 3: "init_mouse io (\<lambda>s. Some (f s)) sl ?ep (inteface_number ep) s1 = Some s3" "ready io off s3"
    "mouse_view s3 = mouse_armed off sl (eh_dci ?ep)" "kbd_view s3 = kbd_view s1" "console s3 = console s1" by blast
  from 1 2 3 True views show ?thesis
    by (simp add: dispatch_endpoint_def is_kbd_def is_mouse_def)
next
  case False
  with r show ?thesis by (simp add: dispatch_endpoint_def is_kbd_def is_mouse_def)
qed

lemma dispatch_endpoints_succeeds:
  fixes s :: "('h, 'z) usb_scheme"
  assumes f: "obliging f slot off cfg" and heap: "heap_serves io off"
  shows "ready io off s \<Longrightarrow> \<forall>ep \<in> set eps. bit (ep_address ep) 7 \<Longrightarrow>
    \<exists>s'. dispatch_endpoints io (\<lambda>s. Some (f s)) sl port eps k m s
      = Some (k \<or> last_of is_kbd eps \<noteq> None, m \<or> last_of is_mouse eps \<noteq> None, s')
    \<and> ready io off s' \<and> console s' = console s
    \<and> kbd_view s' = (case last_of is_kbd eps of None \<Rightarrow> kbd_view s | Some ep \<Rightarrow> kbd_armed off sl (dci_of (ep_address ep)))
    \<and> mouse_view s' = (case last_of is_mouse eps of None \<Rightarrow> mouse_view s | Some ep \<Rightarrow> mouse_armed off sl (dci_of (ep_address ep)))"
proof (induction eps arbitrary: k m s)
  case Nil
  then show ?case by (simp add: last_of_simps)
next
  case (Cons ep eps)
  have b: "bit (ep_address ep) 7" using Cons.prems(2) by simp
  obtain s1 where 1: "dispatch_endpoint io (\<lambda>s. Some (f s)) sl port ep s
      = Some (if is_kbd ep then Some Keyboard else if is_mouse ep then Some Mouse else None, s1)" "ready io off s1"
    "console s1 = console s"
    "kbd_view s1 = (if is_kbd ep then kbd_armed off sl (dci_of (ep_address ep)) else kbd_view s)"
    "mouse_view s1 = (if is_mouse ep then mouse_armed off sl (dci_of (ep_address ep)) else mouse_view s)"
    using dispatch_endpoint_succeeds [OF f Cons.prems(1) heap b, of sl port] by blast
  have eps: "\<forall>ep \<in> set eps. bit (ep_address ep) 7" using Cons.prems(2) by simp
  have "\<not> (is_kbd ep \<and> is_mouse ep)" by (simp add: is_kbd_def is_mouse_def)
  then consider "is_kbd ep" "\<not> is_mouse ep" | "is_mouse ep" "\<not> is_kbd ep" | "\<not> is_kbd ep" "\<not> is_mouse ep" by blast
  then show ?case
  proof cases
    case 1
    with Cons.IH [OF \<open>ready io off s1\<close> eps, of True m] \<open>dispatch_endpoint _ _ _ _ _ _ = _\<close> show ?thesis
      using \<open>console s1 = _\<close> \<open>kbd_view s1 = _\<close> \<open>mouse_view s1 = _\<close> by (auto simp: last_of_simps split: option.splits)
  next
    case 2
    with Cons.IH [OF \<open>ready io off s1\<close> eps, of k True] \<open>dispatch_endpoint _ _ _ _ _ _ = _\<close> show ?thesis
      using \<open>console s1 = _\<close> \<open>kbd_view s1 = _\<close> \<open>mouse_view s1 = _\<close> by (auto simp: last_of_simps split: option.splits)
  next
    case 3
    with Cons.IH [OF \<open>ready io off s1\<close> eps, of k m] \<open>dispatch_endpoint _ _ _ _ _ _ = _\<close> show ?thesis
      using \<open>console s1 = _\<close> \<open>kbd_view s1 = _\<close> \<open>mouse_view s1 = _\<close> by (auto simp: last_of_simps split: option.splits)
  qed
qed

lemma interrupt_ins_in: "ep \<in> set (interrupt_ins ds i c p) \<Longrightarrow> bit (ep_address ep) 7"
  by (induction ds i c p rule: interrupt_ins.induct) (auto split: if_splits)

lemma init_one_device_outcome:
  fixes s :: "('h, 'z) usb_scheme"
  assumes device: "obliging f slot off (concat (map encode ds) @ tail)"
    and cfg: "\<forall>d \<in> set ds. encodable d" "cut_off tail" "length (concat (map encode ds) @ tail) \<le> 256"
    and ready: "ready io off s" and heap: "heap_serves io off"
  shows "\<exists>s'. init_one_device io (\<lambda>s. Some (f s)) port speed s = Some (Some
      \<lparr>ap_root_port = port, ap_slot_id = slot, ap_has_keyboard = (\<exists>ep \<in> set (interrupt_ins ds 0 0 0). is_kbd ep),
       ap_has_mouse = (\<exists>ep \<in> set (interrupt_ins ds 0 0 0). is_mouse ep)\<rparr>, s')
    \<and> kbd_view s' = (case last_of is_kbd (interrupt_ins ds 0 0 0) of
        None \<Rightarrow> kbd_view s | Some ep \<Rightarrow> kbd_armed off slot (dci_of (ep_address ep)))
    \<and> mouse_view s' = (case last_of is_mouse (interrupt_ins ds 0 0 0) of
        None \<Rightarrow> mouse_view s | Some ep \<Rightarrow> mouse_armed off slot (dci_of (ep_address ep)))
    \<and> console s' = console s \<and> ready io off s'"
proof -
  let ?eps = "interrupt_ins ds 0 0 0" and ?tick = "\<lambda>s. Some (f s)"
  obtain s1 where 1: "enable_slot io ?tick s = Some (Inr slot, s1)" "ready io off s1" "moved s s1"
    using enable_slot_succeeds [OF device ready] by blast
  obtain s2 where 2: "address_device io ?tick slot port speed s1 = Some (Inr (), s2)" "ready io off s2" "moved s1 s2"
    using address_device_succeeds [OF device 1(2) heap] by blast
  obtain d s3 where 3: "get_device_descriptor io ?tick slot s2 = Some (Inr d, s3)" "ready io off s3" "moved s2 s3"
    using get_device_descriptor_succeeds [OF device 2(2) heap] by blast
  obtain s4 where 4: "get_configuration_descriptor_and_find_interrupt_endpoints io ?tick slot s3
      = Some (if ?eps = [] then Inl NoInterruptEndpoint else Inr ?eps, s4)" "ready io off s4" "moved s3 s4"
    using configuration_succeeds [OF device 3(2) heap cfg(3) parse_descriptors_encoded [OF cfg(1,2)]] by blast
  obtain s5 where 5: "control_transfer_no_data io ?tick slot 0x00 0x09 1 0 s4 = Some (Inr (), s5)" "ready io off s5" "moved s4 s5"
    using no_data_succeeds [OF device 4(2)] by blast
  note m4 = moved_trans [OF moved_trans [OF moved_trans [OF 1(3) 2(3)] 3(3)] 4(3)]
  note v4 = moved_views [OF m4] and v5 = moved_views [OF moved_trans [OF m4 5(3)]]
  have some: "(\<exists>ep \<in> set ?eps. P ep) \<longleftrightarrow> last_of P ?eps \<noteq> None" for P by (auto simp: last_of_def filter_empty_conv)
  show ?thesis
  proof (cases "?eps = []")
    case True
    with 1 2 3 4 v4 show ?thesis by (simp add: init_one_device_def last_of_simps)
  next
    case False
    obtain s6 where "dispatch_endpoints io ?tick slot port ?eps False False s5
        = Some (last_of is_kbd ?eps \<noteq> None, last_of is_mouse ?eps \<noteq> None, s6)" "ready io off s6" "console s6 = console s5"
      "kbd_view s6 = (case last_of is_kbd ?eps of None \<Rightarrow> kbd_view s5 | Some ep \<Rightarrow> kbd_armed off slot (dci_of (ep_address ep)))"
      "mouse_view s6 = (case last_of is_mouse ?eps of None \<Rightarrow> mouse_view s5 | Some ep \<Rightarrow> mouse_armed off slot (dci_of (ep_address ep)))"
      using dispatch_endpoints_succeeds [OF device heap 5(2), of ?eps slot port False False] interrupt_ins_in by fastforce
    with 1 2 3 4 5 v5 False show ?thesis by (simp add: init_one_device_def some cong: option.case_cong)
  qed
qed


text \<open>A device with the answers of \<open>obliging\<close>, as a program.\<close>

definition polite_device :: "u32 \<Rightarrow> u64 \<Rightarrow> u8 list \<Rightarrow> ('h, 'z) kernel_scheme \<Rightarrow> ('h, 'z) kernel_scheme" where
  "polite_device slot off cfg s =
     (let (m, residue) = (case xhci_instance s of
            None \<Rightarrow> (ram s, 0)
          | Some x \<Rightarrow> let (setup, buf) = last_request x (ram s) in
              if setup = config_request then (mem_write (ram s) (buf + off) cfg, 256 - of_nat (length cfg)) else (ram s, 0))
      in s\<lparr>ram := m, completion_pending := True, completion_code := 1, completion_slot := slot,
           transfer_completion_pending := True, transfer_completion_code := 1, transfer_completion_length := residue\<rparr>)"

lemma polite_device_obliging:
  assumes "length cfg < 2 ^ 64"
  shows "obliging (polite_device slot off cfg) slot off cfg"
proof -
  have "answering (polite_device slot off cfg) slot (\<lambda>_. 1)"
    unfolding answering_def polite_device_def Let_def case_prod_beta by (intro allI exI conjI) (rule refl, simp)
  then show ?thesis
    using assms by (auto simp: obliging_def polite_device_def Let_def mem_read_write_same)
qed

text \<open>The machine of the example: the heap hands out pages, and the doorbells are in the register window.\<close>

definition page_heap_machine :: "nat machine" where
  "page_heap_machine =
     \<lparr>inb = \<lambda>p h. (0, h), outb = \<lambda>p v h. h, inl = \<lambda>p h. (0, h), outl = \<lambda>p v h. h,
      rdmsr = \<lambda>r h. (0, h), wrmsr = \<lambda>r v h. h, mrd8 = \<lambda>a h. (0x20, h), mrd32 = \<lambda>a h. (0x1000, h),
      mwr32 = \<lambda>a v h. h, mwr64 = \<lambda>a v h. h,
      heap_alloc = \<lambda>n al p. Some (0xFFFF800000100000 + of_nat (p mod 256) * 0x1000, p + 1), heap_free = \<lambda>a h. h,
      hw_step = \<lambda>h m. (h, m, False)\<rparr>"

lemma page_heap_serves: "heap_serves page_heap_machine 0xFFFF800000000000"
proof -
  have "(0xFFFF800000000000 :: u64) \<le> 0xFFFF800000100000 + of_nat (p mod 256) * 0x1000" for p :: nat
  proof -
    have "unat (of_nat (p mod 256) * 0x1000 :: u64) = (p mod 256) * 4096"
      using pos_mod_bound [of 256 "int p"] by (subst unat_mult_lem [THEN iffD1]) (simp_all add: unat_of_nat less_imp_le)
    moreover have "p mod 256 \<le> 255" by (simp add: less_Suc_eq_le [symmetric])
    ultimately show ?thesis by (simp add: word_le_nat_alt unat_word_ariths)
  qed
  then show ?thesis by (simp add: heap_serves_def page_heap_machine_def)
qed

definition plugged_example :: "nat usb" where
  "plugged_example = (usb_start pg_example 0)\<lparr>xhci_instance := Some xhci_example\<rparr>"

lemma plugged_example_ready: "ready page_heap_machine 0xFFFF800000000000 plugged_example"
  by (simp add: ready_def plugged_example_def usb_start_def kernel.extend_def kernel_start_def pgstate.extend_def pg_example_def
      pg_base_def pg_link_def doorbells_ok_def page_heap_machine_def xhci_example_def)




section \<open>A device that does not take its address\<close>


definition deaf_device :: "u32 \<Rightarrow> ('h, 'z) kernel_scheme \<Rightarrow> ('h, 'z) kernel_scheme" where
  "deaf_device slot s = s\<lparr>ram := ram s, completion_pending := True,
     completion_code := (case xhci_instance s of Some x \<Rightarrow> if last_command x (ram s) = TRB_TYPE_ADDRESS_DEVICE then 4 else 1 | None \<Rightarrow> 1),
     completion_slot := slot, transfer_completion_pending := True, transfer_completion_code := 1, transfer_completion_length := 0\<rparr>"


end
