(* ===== verification/Port_Io.thy ===== *)
theory Port_Io
  imports Machine
begin

text \<open>
  \<^verbatim>\<open>kernel/src/io/mod.rs\<close> and the wrappers of the model-specific registers in \<^verbatim>\<open>kernel/src/apic.rs\<close>: one instruction of inline
  assembly each, with its operands in registers. The rest of the development uses the port and register accesses as the functions of
  \<open>Machine\<close>; here they are the wrappers, run on a processor with the registers the operands name.
\<close>

section \<open>The instructions\<close>

text \<open>
  What a processor is connected to: ports of one, two or four bytes, and registers of 64 bits that are moved in two halves
  (low and high).
\<close>

record 'd bus =
  port_in :: "nat \<Rightarrow> u16 \<Rightarrow> 'd \<Rightarrow> u32 \<times> 'd"
  port_out :: "nat \<Rightarrow> u16 \<Rightarrow> u32 \<Rightarrow> 'd \<Rightarrow> 'd"
  msr_in :: "u32 \<Rightarrow> 'd \<Rightarrow> (u32 \<times> u32) \<times> 'd"
  msr_out :: "u32 \<Rightarrow> u32 \<times> u32 \<Rightarrow> 'd \<Rightarrow> 'd"

record 'd cpu =
  eax :: u32
  ecx :: u32
  edx :: u32
  devices :: 'd

text \<open>The parts of a register with names of their own; writing one keeps the rest.\<close>

definition al :: "'d cpu \<Rightarrow> u8" where "al c = ucast (eax c)"
definition ax :: "'d cpu \<Rightarrow> u16" where "ax c = ucast (eax c)"
definition dx :: "'d cpu \<Rightarrow> u16" where "dx c = ucast (edx c)"

definition set_al :: "u8 \<Rightarrow> 'd cpu \<Rightarrow> 'd cpu" where
  "set_al v c = c\<lparr>eax := (eax c AND NOT (mask 8)) OR ucast v\<rparr>"

definition set_ax :: "u16 \<Rightarrow> 'd cpu \<Rightarrow> 'd cpu" where
  "set_ax v c = c\<lparr>eax := (eax c AND NOT (mask 16)) OR ucast v\<rparr>"

definition set_dx :: "u16 \<Rightarrow> 'd cpu \<Rightarrow> 'd cpu" where
  "set_dx v c = c\<lparr>edx := (edx c AND NOT (mask 16)) OR ucast v\<rparr>"

datatype io_instr = In8 | In16 | In32 | Out8 | Out16 | Out32 | Rdmsr | Wrmsr

fun exec :: "'d bus \<Rightarrow> io_instr \<Rightarrow> 'd cpu \<Rightarrow> 'd cpu" where
  "exec b In8 c = (let (v, d) = port_in b 1 (dx c) (devices c) in set_al (ucast v) (c\<lparr>devices := d\<rparr>))"
| "exec b In16 c = (let (v, d) = port_in b 2 (dx c) (devices c) in set_ax (ucast v) (c\<lparr>devices := d\<rparr>))"
| "exec b In32 c = (let (v, d) = port_in b 4 (dx c) (devices c) in c\<lparr>eax := v, devices := d\<rparr>)"
| "exec b Out8 c = c\<lparr>devices := port_out b 1 (dx c) (ucast (al c)) (devices c)\<rparr>"
| "exec b Out16 c = c\<lparr>devices := port_out b 2 (dx c) (ucast (ax c)) (devices c)\<rparr>"
| "exec b Out32 c = c\<lparr>devices := port_out b 4 (dx c) (eax c) (devices c)\<rparr>"
| "exec b Rdmsr c = (let ((lo, hi), d) = msr_in b (ecx c) (devices c) in c\<lparr>eax := lo, edx := hi, devices := d\<rparr>)"
| "exec b Wrmsr c = c\<lparr>devices := msr_out b (ecx c) (eax c, edx c) (devices c)\<rparr>"

section \<open>The wrappers\<close>

definition asm_outb :: "'d bus \<Rightarrow> u16 \<Rightarrow> u8 \<Rightarrow> 'd cpu \<Rightarrow> 'd cpu" where
  "asm_outb b port val c = exec b Out8 (set_al val (set_dx port c))"

definition asm_inb :: "'d bus \<Rightarrow> u16 \<Rightarrow> 'd cpu \<Rightarrow> u8 \<times> 'd cpu" where
  "asm_inb b port c = (let c = exec b In8 (set_dx port c) in (al c, c))"

definition asm_outw :: "'d bus \<Rightarrow> u16 \<Rightarrow> u16 \<Rightarrow> 'd cpu \<Rightarrow> 'd cpu" where
  "asm_outw b port val c = exec b Out16 (set_ax val (set_dx port c))"

definition asm_inw :: "'d bus \<Rightarrow> u16 \<Rightarrow> 'd cpu \<Rightarrow> u16 \<times> 'd cpu" where
  "asm_inw b port c = (let c = exec b In16 (set_dx port c) in (ax c, c))"

definition asm_outl :: "'d bus \<Rightarrow> u16 \<Rightarrow> u32 \<Rightarrow> 'd cpu \<Rightarrow> 'd cpu" where
  "asm_outl b port val c = exec b Out32 ((set_dx port c)\<lparr>eax := val\<rparr>)"

definition asm_inl :: "'d bus \<Rightarrow> u16 \<Rightarrow> 'd cpu \<Rightarrow> u32 \<times> 'd cpu" where
  "asm_inl b port c = (let c = exec b In32 (set_dx port c) in (eax c, c))"

definition read_msr :: "'d bus \<Rightarrow> u32 \<Rightarrow> 'd cpu \<Rightarrow> u64 \<times> 'd cpu" where
  "read_msr b msr c =
     (let c = exec b Rdmsr (c\<lparr>ecx := msr\<rparr>); low = eax c; high = edx c
      in (push_bit 32 (ucast high) OR ucast low, c))"

definition write_msr :: "'d bus \<Rightarrow> u32 \<Rightarrow> u64 \<Rightarrow> 'd cpu \<Rightarrow> 'd cpu" where
  "write_msr b msr value c =
     (let low = ucast value; high = ucast (drop_bit 32 value)
      in exec b Wrmsr (c\<lparr>ecx := msr, eax := low, edx := high\<rparr>))"

section \<open>What the wrappers do\<close>

lemma set_register [simp]: "al (set_al v c) = v" "ax (set_ax w c) = w" "dx (set_dx p c) = p"
  by (rule bit_word_eqI; simp add: al_def set_al_def ax_def set_ax_def dx_def set_dx_def bit_simps)+

lemma other_register [simp]:
  "dx (set_al v c) = dx c" "dx (set_ax w c) = dx c" "dx (c\<lparr>eax := e\<rparr>) = dx c" "dx (c\<lparr>devices := d\<rparr>) = dx c"
  "devices (set_al v c) = devices c" "devices (set_ax w c) = devices c" "devices (set_dx p c) = devices c"
  by (simp_all add: dx_def set_al_def set_ax_def set_dx_def)

text \<open>The functions of \<open>Machine\<close> that a bus gives.\<close>

definition ports_of :: "'d bus \<Rightarrow> 'd ports" where
  "ports_of b =
     \<lparr>inb = \<lambda>p d. (case port_in b 1 p d of (v, d) \<Rightarrow> (ucast v, d)),
      outb = \<lambda>p v d. port_out b 1 p (ucast v) d,
      inl = \<lambda>p d. port_in b 4 p d,
      outl = \<lambda>p v d. port_out b 4 p v d,
      rdmsr = \<lambda>r d. (case msr_in b r d of ((lo, hi), d) \<Rightarrow> (push_bit 32 (ucast hi) OR ucast lo, d)),
      wrmsr = \<lambda>r v d. msr_out b r (ucast v, ucast (drop_bit 32 v)) d\<rparr>"


text \<open>A register that keeps what is written gives it back: the two halves are put together as they were taken apart.\<close>

lemma halves: "push_bit 32 (ucast (ucast (drop_bit 32 v) :: u32)) OR ucast (ucast v :: u32) = v" for v :: u64
  by (rule bit_word_eqI) (auto simp: bit_simps)

theorem msr_round_trip:
  assumes "\<And>w d. fst (msr_in b r (msr_out b r w d)) = w"
  shows "fst (read_msr b r (write_msr b r v c)) = v"
  using assms [of "(ucast v, ucast (drop_bit 32 v))" "devices c"]
  by (auto simp: read_msr_def write_msr_def Let_def halves split: prod.splits)

text \<open>A bus of latches: every port and register gives back what was last written to it.\<close>

definition latch_bus :: "((u16 \<Rightarrow> u32) \<times> (u32 \<Rightarrow> u32 \<times> u32)) bus" where
  "latch_bus =
     \<lparr>port_in = \<lambda>n p d. (fst d p, d), port_out = \<lambda>n p v d. ((fst d)(p := v), snd d),
      msr_in = \<lambda>r d. (snd d r, d), msr_out = \<lambda>r v d. (fst d, (snd d)(r := v))\<rparr>"

theorem msr_round_trip_witness:
  "fst (read_msr latch_bus 0x1B (write_msr latch_bus 0x1B 0xFEE00000FEE00900
     \<lparr>eax = 1, ecx = 2, edx = 3, devices = (\<lambda>_. 0, \<lambda>_. (0, 0))\<rparr>)) = 0xFEE00000FEE00900"
  by (rule msr_round_trip) (simp add: latch_bus_def)

end
