(* ===== verification/Memory_Tests.thy ===== *)
theory Memory_Tests
  imports Kernel
begin

text \<open>
  The self-tests of \<^verbatim>\<open>kernel/src/memory/mod.rs\<close>, which no code calls but which a developer puts into \<open>kmain\<close>: one frame is taken
  and written to, and the heap is tried with boxes, a growing vector and a string. The heap is the function \<open>heap_alloc\<close> of the
  machine; a \<^verbatim>\<open>Box\<close> and a string are bytes in memory at the address it gave out. A \<^verbatim>\<open>Vec\<close> is the list of its elements with the address and
  the capacity of its buffer, which grows by the rule of the standard library.
\<close>

definition allocate_frame :: "'z memstate_scheme \<Rightarrow> (u64 option \<times> 'z memstate_scheme) option" where
  "allocate_frame s = allocate s"

definition mod_free_frame :: "u64 \<Rightarrow> 'z memstate_scheme \<Rightarrow> 'z memstate_scheme option" where
  "mod_free_frame frame s = free_frame frame s"

text \<open>A frame that is taken and given back is the first free one again.\<close>

lemma frame_taken_and_returned:
  assumes "fa_inv s (f # fs)"
  shows "\<exists>s1 s2. allocate_frame s = Some (Some f, s1) \<and> fa_inv s1 fs \<and> mod_free_frame f s1 = Some s2 \<and> fa_inv s2 (f # fs)"
proof -
  let ?s1 = "s\<lparr>fa_head := head_of fs, ram := mem_fill (ram s) (f + hhdm s) 0 4096\<rparr>"
  have "fa_inv ?s1 fs" "frame_ok ?s1 f" "f \<notin> set fs"
    using allocate_cons_list [OF assms] assms
    by (simp_all add: fa_inv_def free_list_def frame_ok_def hhdm_ok_def hhdm_def)
  moreover from this obtain s2 where "free_frame f ?s1 = Some s2" "fa_inv s2 (f # fs)" using free_frame_list by blast
  ultimately show ?thesis using allocate_cons_eq [OF assms] by (simp add: allocate_frame_def mod_free_frame_def)
qed

definition print_out :: "string list \<Rightarrow> ('h, 'z) boot_scheme \<Rightarrow> ('h, 'z) boot_scheme option" where
  "print_out pieces s = do { d \<leftarrow> print_fmt pieces (display s); Some (s\<lparr>display := d\<rparr>) }"

text \<open>\<open>{:p}\<close>, and \<open>{:?}\<close> of a pointer.\<close>

definition pointer_text :: "u64 \<Rightarrow> string" where
  "pointer_text a = ''0x'' @ hex_nat (unat a)"

definition test_frame_allocator :: "('h, 'z) boot_scheme \<Rightarrow> ('h, 'z) boot_scheme option" where
  "test_frame_allocator s = do {
     (r, s) \<leftarrow> allocate s;
     frame_test \<leftarrow> r;
     s \<leftarrow> print_out [newline @ ''Frame: '', dec_nat (unat frame_test), newline] s;
     v \<leftarrow> physical_to_virtual s frame_test;
     virt_address \<leftarrow> v;
     let s = s\<lparr>ram := (ram s)(virt_address := 123)\<rparr>;
     let value = ram s virt_address;
     s \<leftarrow> print_out [newline @ ''valuenya: '', pointer_text virt_address] s;
     print_out [newline @ ''valuenya: '', dec_nat (unat value)] s
   }"

section \<open>Boxes, vectors and strings\<close>

definition box_u32 :: "('h, 'e) machine_scheme \<Rightarrow> u32 \<Rightarrow> ('h, 'z) kernel_scheme \<Rightarrow> (u64 \<times> ('h, 'z) kernel_scheme) option" where
  "box_u32 io v s = do { (a, h) \<leftarrow> heap_alloc io 4 4 (outside s); Some (a, s\<lparr>outside := h, ram := wr32 (ram s) a v\<rparr>) }"

definition box_u64 :: "('h, 'e) machine_scheme \<Rightarrow> u64 \<Rightarrow> ('h, 'z) kernel_scheme \<Rightarrow> (u64 \<times> ('h, 'z) kernel_scheme) option" where
  "box_u64 io v s = do { (a, h) \<leftarrow> heap_alloc io 8 8 (outside s); Some (a, s\<lparr>outside := h, ram := wr64 (ram s) a v\<rparr>) }"

definition string_from :: "('h, 'e) machine_scheme \<Rightarrow> string \<Rightarrow> ('h, 'z) kernel_scheme \<Rightarrow> (u64 \<times> ('h, 'z) kernel_scheme) option" where
  "string_from io t s = do {
     (a, h) \<leftarrow> heap_alloc io (length t) 1 (outside s);
     Some (a, s\<lparr>outside := h, ram := mem_write (ram s) a (map of_char t)\<rparr>)
   }"

definition string_at :: "mem \<Rightarrow> u64 \<Rightarrow> nat \<Rightarrow> string" where
  "string_at m a n = map (\<lambda>b. char_of (unat b)) (mem_read m a n)"

record 'a vec =
  elems :: "'a list"
  vec_buf :: u64
  vec_cap :: nat

definition vec_new :: "'a vec" where "vec_new = \<lparr>elems = [], vec_buf = 0, vec_cap = 0\<rparr>"

text \<open>
  A full vector of elements of up to 1024 bytes doubles its capacity, to 4 at least (8 for bytes): a new buffer is allocated,
  the elements are moved and the old buffer is freed.
\<close>

definition vec_push :: "('h, 'e) machine_scheme \<Rightarrow> nat \<Rightarrow> 'a \<Rightarrow> 'a vec \<times> ('h, 'z) kernel_scheme \<Rightarrow> ('a vec \<times> ('h, 'z) kernel_scheme) option" where
  "vec_push io width x = (\<lambda>(v, s).
     if length (elems v) < vec_cap v then Some (v\<lparr>elems := elems v @ [x]\<rparr>, s)
     else do {
       let n = max (max (2 * vec_cap v) (length (elems v) + 1)) (if width = 1 then 8 else 4);
       (a, h) \<leftarrow> heap_alloc io (width * n) width (outside s);
       let h = (if vec_cap v = 0 then h else heap_free io (vec_buf v) h);
       Some (v\<lparr>elems := elems v @ [x], vec_buf := a, vec_cap := n\<rparr>, s\<lparr>outside := h\<rparr>)
     })"

definition vec_drop :: "('h, 'e) machine_scheme \<Rightarrow> 'a vec \<Rightarrow> ('h, 'z) kernel_scheme \<Rightarrow> ('h, 'z) kernel_scheme" where
  "vec_drop io v s = (if vec_cap v = 0 then s else box_drop io (vec_buf v) s)"

section \<open>The tests of the heap\<close>

text \<open>The sum of the elements is checked in \<open>i32\<close>.\<close>

definition sum_i32 :: "int list \<Rightarrow> int option" where
  "sum_i32 xs = for_each (\<lambda>x acc. i32_add acc x) xs 0"

definition test_heap_allocator :: "('h, 'e) machine_scheme \<Rightarrow> ('h, 'z) boot_scheme \<Rightarrow> ('h, 'z) boot_scheme option" where
  "test_heap_allocator io s = do {
     s \<leftarrow> print_out [newline @ ''--- TEST HEAP ALLOCATOR ---''] s;
     (boxed, s) \<leftarrow> box_u32 io 42 s;
     s \<leftarrow> print_out [newline @ ''Box value: '', dec_int (sint (rd32 (ram s) boxed)), '', addr: '', pointer_text boxed] s;
     (vec, s) \<leftarrow> for_each (\<lambda>i. vec_push io 4 (int i)) [0..<100] (vec_new, s);
     sum \<leftarrow> sum_i32 (elems vec);
     s \<leftarrow> print_out [newline @ ''Vec len: '', dec_nat (length (elems vec)), '', sum: '', dec_int sum] s;
     (str, s) \<leftarrow> string_from io ''halo dari heap!'' s;
     s \<leftarrow> print_out [newline @ ''String: '', string_at (ram s) str 15] s;
     (big, s) \<leftarrow> box_zeroed io 100000 1 s;
     s \<leftarrow> print_out [newline @ ''Big vec len: '', dec_nat 100000] s;
     let s = box_drop io big (box_drop io str (vec_drop io vec (box_drop io boxed s)));
     print_out [newline @ ''--- HEAP TEST SELESAI, TIDAK CRASH ---'' @ newline] s
   }"

definition push_box :: "('h, 'e) machine_scheme \<Rightarrow> nat \<Rightarrow> u64 vec \<times> ('h, 'z) kernel_scheme \<Rightarrow> (u64 vec \<times> ('h, 'z) kernel_scheme) option" where
  "push_box io i = (\<lambda>(v, s). do { (b, s) \<leftarrow> box_u64 io (of_nat i) s; vec_push io 8 b (v, s) })"

text \<open>A failed assertion panics. At the end of the function the boxes are dropped in order, and then the buffer of the vector.\<close>

definition stress_test_heap :: "('h, 'e) machine_scheme \<Rightarrow> ('h, 'z) boot_scheme \<Rightarrow> ('h, 'z) boot_scheme option" where
  "stress_test_heap io s = do {
     (boxes, s) \<leftarrow> for_each (push_box io) [0..<1000] (vec_new, s);
     u \<leftarrow> for_each (\<lambda>(i, b) u. if rd64 (ram s) b = of_nat i then Some u else None) (enumerate 0 (elems boxes)) ();
     s \<leftarrow> print_out [newline @ ''STRESS TEST OK: 1000 alokasi konsisten'' @ newline] s;
     let s = fold (box_drop io) (elems boxes) s;
     Some (vec_drop io boxes s)
   }"

section \<open>A heap\<close>

text \<open>
  What a heap promises: as long as there is room it gives out a block apart from all blocks in use, and a block that is freed
  is no longer in use. \<open>live\<close> are the blocks in use and \<open>room\<close> is a number of bytes it can still serve in any blocks.
\<close>

definition block_heap :: "('h, 'e) machine_scheme \<Rightarrow> ('h \<Rightarrow> (u64 \<times> nat) set) \<Rightarrow> ('h \<Rightarrow> nat) \<Rightarrow> bool" where
  "block_heap io live room \<longleftrightarrow>
     (\<forall>n al h. 0 < n \<and> n \<le> room h \<longrightarrow> (\<exists>a h'. heap_alloc io n al h = Some (a, h') \<and> (\<forall>(b, k) \<in> live h. disj a n b k)
        \<and> live h' = insert (a, n) (live h) \<and> room h \<le> room h' + n))
     \<and> (\<forall>a h. live (heap_free io a h) = {r \<in> live h. fst r \<noteq> a} \<and> room h \<le> room (heap_free io a h))"

lemma block_heap_alloc:
  assumes "block_heap io live room" "0 < n" "n \<le> room h"
  obtains a h' where "heap_alloc io n al h = Some (a, h')" "\<And>b k. (b, k) \<in> live h \<Longrightarrow> disj a n b k" "a \<notin> fst ` live h"
    "live h' = insert (a, n) (live h)" "room h \<le> room h' + n"
proof -
  from assms obtain a h' where *: "heap_alloc io n al h = Some (a, h')" "\<forall>(b, k) \<in> live h. disj a n b k"
    "live h' = insert (a, n) (live h)" "room h \<le> room h' + n" unfolding block_heap_def by blast
  then have "a \<notin> fst ` live h" using assms(2) by (force simp: disj_def)
  with * that show thesis by blast
qed

lemma block_heap_free:
  "block_heap io live room \<Longrightarrow> live (heap_free io a h) = {r \<in> live h. fst r \<noteq> a}"
  "block_heap io live room \<Longrightarrow> room h \<le> room (heap_free io a h)"
  by (auto simp: block_heap_def)

section \<open>The stress test\<close>

text \<open>
  After \<open>k\<close> boxes: the vector has their addresses, each box holds its number, and the blocks in use are those from before, the
  boxes and the buffer of the vector.
\<close>

definition boxes_ok :: "('h \<Rightarrow> (u64 \<times> nat) set) \<Rightarrow> ('h \<Rightarrow> nat) \<Rightarrow> (u64 \<times> nat) set \<Rightarrow> nat \<Rightarrow> nat \<Rightarrow> u64 vec \<times> ('h, 'z) kernel_scheme \<Rightarrow> bool" where
  "boxes_ok live room base bytes k = (\<lambda>(v, s).
     length (elems v) = k \<and> k \<le> vec_cap v \<and> vec_cap v \<le> max 4 (2 * k) \<and> (vec_cap v = 0 \<longleftrightarrow> k = 0)
     \<and> live (outside s) = base \<union> (\<lambda>b. (b, 8)) ` set (elems v) \<union> (if vec_cap v = 0 then {} else {(vec_buf v, 8 * vec_cap v)})
     \<and> fst ` base \<inter> set (elems v) = {} \<and> (vec_cap v \<noteq> 0 \<longrightarrow> vec_buf v \<notin> set (elems v) \<and> vec_buf v \<notin> fst ` base)
     \<and> (\<forall>i < k. rd64 (ram s) (elems v ! i) = of_nat i)
     \<and> bytes \<le> room (outside s) + 8 * k + 16 * vec_cap v)"

lemma boxes_ok_new: "bytes \<le> room (outside s) \<Longrightarrow> boxes_ok live room (live (outside s)) bytes 0 (vec_new, s)"
  by (simp add: boxes_ok_def vec_new_def)

lemma rd64_kept: "disj a 8 b 8 \<Longrightarrow> rd64 (wr64 m a v) b = rd64 m b"
  using mem_read_write_disj [of a "le_bytes 8 v" b 8] by (simp add: rd64_def wr64_def)

lemma push_box_ok:
  assumes heap: "block_heap io live room" and ok: "boxes_ok live room base bytes k (v, s)" and bytes: "8 * k + 16 * max 4 (2 * k + 2) + 16 \<le> bytes"
  shows "\<exists>v' h m. push_box io k (v, s) = Some (v', s\<lparr>outside := h, ram := m\<rparr>)
    \<and> boxes_ok live room base bytes (Suc k) (v', s\<lparr>outside := h, ram := m\<rparr>)"
proof -
  from ok have len: "length (elems v) = k" "k \<le> vec_cap v" "vec_cap v \<le> max 4 (2 * k)" "vec_cap v = 0 \<longleftrightarrow> k = 0"
    and live: "live (outside s) = base \<union> (\<lambda>b. (b, 8)) ` set (elems v) \<union> (if vec_cap v = 0 then {} else {(vec_buf v, 8 * vec_cap v)})"
    and new: "fst ` base \<inter> set (elems v) = {}" "vec_cap v \<noteq> 0 \<Longrightarrow> vec_buf v \<notin> set (elems v) \<and> vec_buf v \<notin> fst ` base"
    and val: "\<And>i. i < k \<Longrightarrow> rd64 (ram s) (elems v ! i) = of_nat i"
    and room: "bytes \<le> room (outside s) + 8 * k + 16 * vec_cap v"
    by (auto simp: boxes_ok_def)
  have "8 \<le> room (outside s)" using room bytes len(3) by simp
  from block_heap_alloc [OF heap _ this, of 8] obtain b h1 where b: "heap_alloc io 8 8 (outside s) = Some (b, h1)"
    "\<And>c n. (c, n) \<in> live (outside s) \<Longrightarrow> disj b 8 c n" "b \<notin> fst ` live (outside s)" "live h1 = insert (b, 8) (live (outside s))"
    "room (outside s) \<le> room h1 + 8" by auto
  let ?m = "wr64 (ram s) b (of_nat k)"
  have kept: "rd64 ?m ((elems v @ [b]) ! i) = of_nat i" if "i < Suc k" for i
  proof (cases "i < k")
    case True
    then have "(elems v ! i, 8) \<in> live (outside s)" using len(1) unfolding live by auto
    then show ?thesis using True len(1) val b(2) by (simp add: nth_append rd64_kept)
  qed (use that len(1) in \<open>auto simp: nth_append rd64_wr64_same less_Suc_eq\<close>)
  have bnew: "b \<notin> fst ` base" "b \<notin> set (elems v)" "vec_cap v \<noteq> 0 \<Longrightarrow> b \<noteq> vec_buf v"
    using b(3) unfolding live by (auto simp: image_Un image_image split: if_splits)
  have grown: "vec_cap v \<le> 2 * k + 2" using len(3,4) by (cases k) auto
  show ?thesis
  proof (cases "k < vec_cap v")
    case True
    then have "push_box io k (v, s) = Some (v\<lparr>elems := elems v @ [b]\<rparr>, s\<lparr>outside := h1, ram := ?m\<rparr>)"
      using len by (simp add: push_box_def box_u64_def b(1) vec_push_def)
    moreover have "boxes_ok live room base bytes (Suc k) (v\<lparr>elems := elems v @ [b]\<rparr>, s\<lparr>outside := h1, ram := ?m\<rparr>)"
      using True len grown new bnew kept room b(4,5) live by (auto simp: boxes_ok_def)
    ultimately show ?thesis by blast
  next
    case False
    then have cap: "vec_cap v = k" using len(2) by simp
    obtain N where N: "max (max (2 * k) (k + 1)) 4 = N" by simp
    then have n: "0 < 8 * N" "Suc k \<le> N" "N \<le> 2 * k + 4" "N \<le> max 4 (2 * Suc k)" "N \<noteq> 0" "2 * k \<le> N" by auto
    have "8 * k + 16 * (2 * k + 2) + 16 \<le> bytes" using bytes by (auto simp: max_def split: if_splits)
    then have "8 * (2 * k + 4) \<le> room h1" using room cap b(5) by simp
    then have fits: "8 * N \<le> room h1" using n(3) by simp
    obtain a h2 where a: "heap_alloc io (8 * N) 8 h1 = Some (a, h2)"
      "a \<notin> fst ` live h1" "live h2 = insert (a, 8 * N) (live h1)" "room h1 \<le> room h2 + 8 * N"
      by (rule block_heap_alloc [OF heap n(1) fits, of 8])
    let ?h = "if k = 0 then h2 else heap_free io (vec_buf v) h2" and ?v = "v\<lparr>elems := elems v @ [b], vec_buf := a, vec_cap := N\<rparr>"
    have run: "push_box io k (v, s) = Some (?v, s\<lparr>outside := ?h, ram := ?m\<rparr>)"
      using len(1) cap N by (simp add: push_box_def box_u64_def b(1) vec_push_def a(1))
    have anew: "a \<notin> fst ` base" "a \<notin> set (elems v)" "a \<noteq> b" "k \<noteq> 0 \<Longrightarrow> a \<noteq> vec_buf v"
      using a(2) cap unfolding b(4) live by (auto simp: image_Un image_image split: if_splits)
    have old: "{r \<in> live (outside s). k \<noteq> 0 \<longrightarrow> fst r \<noteq> vec_buf v} = base \<union> (\<lambda>b. (b, 8)) ` set (elems v)"
    proof (cases "k = 0")
      case False
      then have "vec_buf v \<notin> fst ` base" "vec_buf v \<notin> set (elems v)" using new(2) cap by simp_all
      then have "\<forall>r \<in> base \<union> (\<lambda>b. (b, 8)) ` set (elems v). fst r \<noteq> vec_buf v" by force
      then show ?thesis using False cap unfolding live by auto
    qed (use cap in \<open>auto simp: live\<close>)
    have "live ?h = {r \<in> live h2. k \<noteq> 0 \<longrightarrow> fst r \<noteq> vec_buf v}" by (simp add: block_heap_free(1) [OF heap])
    also have "\<dots> = insert (a, 8 * N) (insert (b, 8) {r \<in> live (outside s). k \<noteq> 0 \<longrightarrow> fst r \<noteq> vec_buf v})"
      using anew(4) bnew(3) cap unfolding a(3) b(4) by auto
    finally have "live ?h = base \<union> (\<lambda>b. (b, 8)) ` set (elems v @ [b]) \<union> {(a, 8 * N)}" unfolding old by simp
    moreover have "bytes \<le> room ?h + 8 * Suc k + 16 * N"
      using room b(5) a(4) block_heap_free(2) [OF heap, of h2 "vec_buf v"] cap n(2,6) by auto
    ultimately have "boxes_ok live room base bytes (Suc k) (?v, s\<lparr>outside := ?h, ram := ?m\<rparr>)"
      using len(1) n(2,4,5) new(1) bnew(1,2) anew kept unfolding boxes_ok_def by auto
    with run show ?thesis by blast
  qed
qed

lemma push_boxes_ok:
  assumes heap: "block_heap io live room" and ok: "boxes_ok live room base bytes k (v, s)"
    and bytes: "8 * (k + n) + 16 * max 4 (2 * (k + n)) + 16 \<le> bytes"
  shows "\<exists>v' h m. for_each (push_box io) [k..<k + n] (v, s) = Some (v', s\<lparr>outside := h, ram := m\<rparr>)
    \<and> boxes_ok live room base bytes (k + n) (v', s\<lparr>outside := h, ram := m\<rparr>)"
  using ok bytes
proof (induction n arbitrary: k v s)
  case 0
  then show ?case by (intro exI [of _ v] exI [of _ "outside s"] exI [of _ "ram s"]) simp
next
  case (Suc n)
  have "8 * k + 16 * max 4 (2 * k + 2) + 16 \<le> bytes" using Suc.prems(2) by (auto simp: max_def split: if_splits)
  from push_box_ok [OF heap Suc.prems(1) this] obtain v1 h m where
    1: "push_box io k (v, s) = Some (v1, s\<lparr>outside := h, ram := m\<rparr>)"
    "boxes_ok live room base bytes (Suc k) (v1, s\<lparr>outside := h, ram := m\<rparr>)" by blast
  have "8 * (Suc k + n) + 16 * max 4 (2 * (Suc k + n)) + 16 \<le> bytes" using Suc.prems(2) by simp
  from Suc.IH [OF 1(2) this] obtain v2 h2 m2 where
    "for_each (push_box io) [Suc k..<Suc k + n] (v1, s\<lparr>outside := h, ram := m\<rparr>) = Some (v2, s\<lparr>outside := h2, ram := m2\<rparr>)"
    "boxes_ok live room base bytes (Suc k + n) (v2, s\<lparr>outside := h2, ram := m2\<rparr>)" by auto
  moreover have "[k..<k + Suc n] = k # [Suc k..<Suc k + n]" by (simp add: upt_conv_Cons del: upt_Suc)
  ultimately show ?case
    using 1(1) by (intro exI [of _ v2] exI [of _ h2] exI [of _ m2]) simp
qed

lemma drops: "fold (box_drop io) as s = s\<lparr>outside := fold (heap_free io) as (outside s)\<rparr>"
  by (induction as arbitrary: s) (simp_all add: box_drop_def)

lemma live_after_frees:
  "block_heap io live room \<Longrightarrow> live (fold (heap_free io) as h) = {r \<in> live h. fst r \<notin> set as}"
  by (induction as arbitrary: h) (auto simp: block_heap_free)

text \<open>
  Property C36. The stress test of the heap passes, and gives back every byte, on every heap that keeps its promises: with room for
  64 KiB no assertion fails, the message is printed, and the blocks in use afterwards are those from before.
\<close>

theorem stress_test_passes:
  fixes s :: "('h, 'z) boot_scheme"
  assumes heap: "block_heap io live room" and room: "65536 \<le> room (outside s)"
    and printed: "print_fmt [newline @ ''STRESS TEST OK: 1000 alokasi konsisten'' @ newline] (display s) = Some d"
  shows "\<exists>h m. stress_test_heap io s = Some (s\<lparr>ram := m, display := d, outside := h\<rparr>) \<and> live h = live (outside s)"
proof -
  from push_boxes_ok [OF heap boxes_ok_new [of 65536 room s live, OF room], of 1000] obtain v h m where
    run: "for_each (push_box io) [0..<1000] (vec_new, s) = Some (v, s\<lparr>outside := h, ram := m\<rparr>)"
    and ok: "boxes_ok live room (live (outside s)) 65536 1000 (v, s\<lparr>outside := h, ram := m\<rparr>)" by auto
  let ?base = "live (outside s)"
  have len: "length (elems v) = 1000" "vec_cap v \<noteq> 0"
    and val: "\<And>i. i < 1000 \<Longrightarrow> rd64 m (elems v ! i) = of_nat i"
    and live: "live h = ?base \<union> (\<lambda>b. (b, 8)) ` set (elems v) \<union> {(vec_buf v, 8 * vec_cap v)}"
    and new: "fst ` ?base \<inter> set (elems v) = {}" "vec_buf v \<notin> fst ` ?base"
    using ok by (auto simp: boxes_ok_def split: if_splits)
  have "for_each (\<lambda>(i, b) u. if rd64 m b = of_nat i then Some u else None) ps u = Some u"
    if "\<forall>(i, b) \<in> set ps. rd64 m b = of_nat i" for ps and u :: unit
    using that by (induction ps) auto
  moreover have "\<forall>(i, b) \<in> set (enumerate 0 (elems v)). rd64 m b = of_nat i"
    using val len(1) by (auto simp: in_set_enumerate_eq)
  ultimately have check: "for_each (\<lambda>(i, b) u. if rd64 m b = of_nat i then Some u else None) (enumerate 0 (elems v)) () = Some ()" by blast
  let ?h = "heap_free io (vec_buf v) (fold (heap_free io) (elems v) h)"
  have "stress_test_heap io s = Some (s\<lparr>outside := ?h, ram := m, display := d\<rparr>)"
    using printed len(2) by (simp add: stress_test_heap_def run check print_out_def drops vec_drop_def box_drop_def del: upt_Suc)
  moreover have "s\<lparr>outside := ?h, ram := m, display := d\<rparr> = s\<lparr>ram := m, display := d, outside := ?h\<rparr>" by simp
  moreover have "live ?h = ?base"
    using new unfolding block_heap_free(1) [OF heap] live_after_frees [OF heap] live by force
  ultimately show ?thesis by auto
qed

text \<open>A heap that gives out the bytes of a region of 1 MiB in order.\<close>

type_synonym bump = "nat \<times> (u64 \<times> nat) set"

definition bump_alloc :: "nat \<Rightarrow> bump \<Rightarrow> (u64 \<times> bump) option" where
  "bump_alloc n = (\<lambda>(p, bs). if p + n \<le> 2 ^ 20 then Some (of_nat p, p + n, insert (of_nat p, n) bs) else None)"

definition bump_free :: "u64 \<Rightarrow> bump \<Rightarrow> bump" where
  "bump_free a = (\<lambda>(p, bs). (p, {r \<in> bs. fst r \<noteq> a}))"

definition bump_room :: "bump \<Rightarrow> nat" where
  "bump_room = (\<lambda>(p, bs). if \<forall>(b, k) \<in> bs. 0 < k \<and> unat b + k \<le> p then 2 ^ 20 - p else 0)"

definition bump_machine :: "bump machine" where
  "bump_machine =
     \<lparr>inb = \<lambda>p h. (0, h), outb = \<lambda>p v h. h, inl = \<lambda>p h. (0, h), outl = \<lambda>p v h. h,
      rdmsr = \<lambda>r h. (0, h), wrmsr = \<lambda>r v h. h, mrd8 = \<lambda>a h. (0, h), mrd32 = \<lambda>a h. (0, h),
      mwr32 = \<lambda>a v h. h, mwr64 = \<lambda>a v h. h, heap_alloc = \<lambda>n al. bump_alloc n, heap_free = bump_free,
      hw_step = \<lambda>h m. (h, m, False)\<rparr>"

lemma bump_disj:
  assumes "p + n \<le> 2 ^ 20" "0 < k" "unat b + k \<le> p"
  shows "disj (of_nat p) n b k"
proof -
  have p: "unat (of_nat p :: u64) = p" using assms by (simp add: unat_of_nat)
  then have "unat (of_nat p - b) = p - unat b" using assms by (simp add: unat_sub_if')
  moreover have "unat (b - of_nat p) = 2 ^ 64 + unat b - p" using assms p by (simp add: unat_sub_if')
  moreover have "n \<le> 2 ^ 64 + unat b - p" "k \<le> p - unat b" using assms by simp_all
  ultimately show ?thesis unfolding disj_def by metis
qed

lemma bump_heap: "block_heap bump_machine snd bump_room"
proof -
  have "\<exists>a h'. bump_alloc n h = Some (a, h') \<and> (\<forall>(b, k) \<in> snd h. disj a n b k)
      \<and> snd h' = insert (a, n) (snd h) \<and> bump_room h \<le> bump_room h' + n" if n: "0 < n" "n \<le> bump_room h" for n h
  proof -
    obtain p bs where h: "h = (p, bs)" by (cases h)
    have good: "\<forall>(b, k) \<in> bs. 0 < k \<and> unat b + k \<le> p" and p: "p + n \<le> 2 ^ 20"
      using n by (auto simp: h bump_room_def split: if_splits)
    then have "\<forall>(b, k) \<in> insert (of_nat p, n) bs. 0 < k \<and> unat b + k \<le> p + n"
      using n(1) by (fastforce simp: unat_of_nat)
    then have "bump_room (p + n, insert (of_nat p, n) bs) = 2 ^ 20 - (p + n)" by (simp add: bump_room_def)
    moreover have "bump_room h = 2 ^ 20 - p" using good by (simp add: h bump_room_def)
    ultimately show ?thesis using good p bump_disj [OF p] by (fastforce simp: h bump_alloc_def)
  qed
  moreover have "snd (bump_free a h) = {r \<in> snd h. fst r \<noteq> a} \<and> bump_room h \<le> bump_room (bump_free a h)" for a h
    by (auto simp: bump_free_def bump_room_def split: prod.splits)
  ultimately show ?thesis by (simp add: block_heap_def bump_machine_def)
qed

definition stress_boot :: "bump boot" where
  "stress_boot = system.extend (system_start (usb_start pg_example (0, {})))
     \<lparr>base_revision_supported = True, rsdp_response = None,
      display = \<lparr>vram = (\<lambda>a. 0), framebuffer = None, POSITION_X = 0, POSITION_Y = 0\<rparr>, idt_table = [],
      cpu_tables = \<lparr>gdtr = \<lparr>tp_limit = 0, tp_base = 0\<rparr>, idtr = \<lparr>tp_limit = 0, tp_base = 0\<rparr>,
        seg_cs = 0, seg_ds = 0, seg_es = 0, seg_ss = 0\<rparr>\<rparr>"

theorem stress_test_passes_witness:
  "\<exists>p m. stress_test_heap bump_machine stress_boot = Some (stress_boot\<lparr>ram := m, outside := (p, {})\<rparr>)"
proof -
  have o: "outside stress_boot = (0, {})"
    by (simp add: stress_boot_def system_start_def usb_start_def kernel_start_def system.extend_def usb.extend_def kernel.extend_def pgstate.extend_def)
  have d: "framebuffer (display stress_boot) = None" by (simp add: stress_boot_def system.extend_def)
  have "65536 \<le> bump_room (outside stress_boot)" by (simp add: o bump_room_def)
  from stress_test_passes [OF bump_heap this print_fmt_dark [OF d]] show ?thesis
    by (auto simp: o)
qed

section \<open>The other two tests\<close>

text \<open>
  The test of the frame allocator takes the first free frame, which comes zeroed, and writes 123 into its first byte; the frame
  stays allocated. Without a free frame the test panics.
\<close>

theorem frame_test_takes_a_frame:
  fixes s :: "('h, 'z) boot_scheme"
  assumes "framebuffer (display s) = None"
  shows "fa_inv s (f # fs) \<Longrightarrow> test_frame_allocator s
      = Some (s\<lparr>fa_head := head_of fs, ram := (mem_fill (ram s) (f + hhdm s) 0 4096)(f + hhdm s := 123)\<rparr>)"
    and "fa_inv s [] \<Longrightarrow> test_frame_allocator s = None"
proof -
  show "test_frame_allocator s
      = Some (s\<lparr>fa_head := head_of fs, ram := (mem_fill (ram s) (f + hhdm s) 0 4096)(f + hhdm s := 123)\<rparr>)" if "fa_inv s (f # fs)"
  proof -
    have "frame_ok s f" using that by (simp add: fa_inv_def free_list_def)
    then have "physical_to_virtual (s\<lparr>fa_head := h, ram := m\<rparr>) f = Some (Some (f + hhdm s))" for h m
      using p2v_frame [of s f] by (simp add: physical_to_virtual_def)
    then show ?thesis
      using assms by (simp add: test_frame_allocator_def allocate_cons_eq [OF that] print_out_def print_fmt_dark)
  qed
  show "test_frame_allocator s = None" if "fa_inv s []"
    using that by (simp add: test_frame_allocator_def allocate_nil)
qed

definition heap_lasts :: "('h, 'e) machine_scheme \<Rightarrow> bool" where
  "heap_lasts io \<longleftrightarrow> (\<forall>n al h. \<exists>a h'. heap_alloc io n al h = Some (a, h'))"

lemma vec_pushes:
  assumes "heap_lasts io"
  shows "\<exists>v' h. for_each (\<lambda>i. vec_push io w (g i)) xs (v, s) = Some (v', s\<lparr>outside := h\<rparr>) \<and> elems v' = elems v @ map g xs"
proof (induction xs arbitrary: v s)
  case Nil
  show ?case by (intro exI [of _ v] exI [of _ "outside s"]) simp
next
  case (Cons x xs)
  have "\<exists>v' h. vec_push io w (g x) (v, s) = Some (v', s\<lparr>outside := h\<rparr>) \<and> elems v' = elems v @ [g x]"
  proof (cases "length (elems v) < vec_cap v")
    case True
    then show ?thesis by (intro exI [of _ "v\<lparr>elems := elems v @ [g x]\<rparr>"] exI [of _ "outside s"]) (simp add: vec_push_def)
  next
    case False
    let ?n = "max (max (2 * vec_cap v) (length (elems v) + 1)) (if w = 1 then 8 else 4)"
    obtain a h where "heap_alloc io (w * ?n) w (outside s) = Some (a, h)" using assms unfolding heap_lasts_def by blast
    then show ?thesis
      using False by (intro exI [of _ "v\<lparr>elems := elems v @ [g x], vec_buf := a, vec_cap := ?n\<rparr>"]) (auto simp: vec_push_def)
  qed
  then obtain v1 h1 where 1: "vec_push io w (g x) (v, s) = Some (v1, s\<lparr>outside := h1\<rparr>)" "elems v1 = elems v @ [g x]" by blast
  from Cons [of v1 "s\<lparr>outside := h1\<rparr>"] 1 show ?case by auto
qed

lemma sum_hundred: "sum_i32 (map int [0..<100]) = Some 4950"
  by code_simp

text \<open>
  The test of the heap ends as long as the heap does not run out: the sum of the hundred numbers stays inside \<open>i32\<close>, and only
  bytes on the heap change.
\<close>

theorem heap_test_ends:
  fixes s :: "('h, 'z) boot_scheme"
  assumes heap: "heap_lasts io" and dark: "framebuffer (display s) = None"
  shows "\<exists>h m. test_heap_allocator io s = Some (s\<lparr>ram := m, outside := h\<rparr>)"
proof -
  have print: "framebuffer (display t) = None \<Longrightarrow> print_out ps t = Some t" for ps and t :: "('h, 'z) boot_scheme"
    by (simp add: print_out_def print_fmt_dark)
  have alloc: "\<exists>a h'. heap_alloc io n al h = Some (a, h')" for n al h using heap unfolding heap_lasts_def by blast
  obtain a h where a: "heap_alloc io 4 4 (outside s) = Some (a, h)" using alloc by blast
  let ?s = "\<lambda>h. s\<lparr>outside := h, ram := wr32 (ram s) a 42\<rparr>"
  obtain v h1 where v: "for_each (\<lambda>i. vec_push io 4 (int i)) [0..<100] (vec_new, ?s h) = Some (v, (?s h)\<lparr>outside := h1\<rparr>)"
    and "elems v = elems vec_new @ map int [0..<100]" using vec_pushes [OF heap] by blast
  then have e: "elems v = map int [0..<100]" by (simp add: vec_new_def)
  obtain b h2 where b: "heap_alloc io (length ''halo dari heap!'') 1 h1 = Some (b, h2)" using alloc by blast
  obtain c h3 where c: "heap_alloc io 100000 1 h2 = Some (c, h3)" using alloc by blast
  show ?thesis
    unfolding test_heap_allocator_def box_u32_def string_from_def box_zeroed_def
    using b c dark by (simp add: print a v e sum_hundred vec_drop_def box_drop_def del: upt_Suc) blast
qed

end
