(* ===== verification/Locking.thy ===== *)
theory Locking
  imports Prelude
begin

text \<open>
  The locks of \<^verbatim>\<open>kernel/src/usb\<close> against the interrupt handler. The kernel has one processor: when the handler of
  vector 44 spins on a lock that the interrupted code holds, neither ever moves again. A function is the sequence of
  its \<open>cli\<close>, \<open>sti\<close>, lock and unlock operations (a guard that goes out of scope unlocks); \<open>sched\<close> is the interrupted
  code, the handler when it runs, and the interrupt flag, which the interrupt gate clears and \<open>iretq\<close> restores.
\<close>

datatype lock = XhciInstance | KbdState | MouseState | ActivePorts | FrameAllocatorLock | HeapLock

text \<open>The order in which the sources nest them: the registry, the state of a driver, the controller; the frames before the heap.\<close>

instantiation lock :: linorder
begin

definition lock_rank :: "lock \<Rightarrow> nat" where
  "lock_rank l = (case l of ActivePorts \<Rightarrow> 0 | KbdState \<Rightarrow> 1 | MouseState \<Rightarrow> 2 | XhciInstance \<Rightarrow> 3 | FrameAllocatorLock \<Rightarrow> 4
     | HeapLock \<Rightarrow> 5)"

definition less_eq_lock :: "lock \<Rightarrow> lock \<Rightarrow> bool" where
  "less_eq_lock a b \<longleftrightarrow> lock_rank a \<le> lock_rank b"

definition less_lock :: "lock \<Rightarrow> lock \<Rightarrow> bool" where
  "less_lock a b \<longleftrightarrow> lock_rank a < lock_rank b"

instance
  by standard (auto simp: less_eq_lock_def less_lock_def lock_rank_def split: lock.splits)

end

datatype act = Cli | Sti | Acquire lock | Release lock

section \<open>The functions\<close>

definition arm_keyboard_locks :: "act list" where
  "arm_keyboard_locks = [Acquire KbdState, Acquire XhciInstance, Release XhciInstance, Release KbdState]"

definition arm_mouse_locks :: "act list" where
  "arm_mouse_locks = [Acquire MouseState, Acquire XhciInstance, Release XhciInstance, Release MouseState]"

definition poll_keyboard_locks :: "act list" where
  "poll_keyboard_locks = [Acquire KbdState, Release KbdState] @ [Acquire KbdState, Release KbdState] @ arm_keyboard_locks"

definition poll_mouse_locks :: "act list" where
  "poll_mouse_locks = [Acquire MouseState, Release MouseState] @ [Acquire MouseState, Release MouseState] @ arm_mouse_locks"

text \<open>The handler of vector 44, by whether a keyboard and a mouse report is pending.\<close>

definition isr_locks :: "bool \<Rightarrow> bool \<Rightarrow> act list" where
  "isr_locks kbd mouse = [Acquire XhciInstance, Release XhciInstance]
     @ (if kbd then poll_keyboard_locks else []) @ (if mouse then poll_mouse_locks else [])"

text \<open>A command or a control transfer: the lock is taken with interrupts off.\<close>

definition command_locks :: "act list" where
  "command_locks = [Cli, Acquire XhciInstance, Release XhciInstance, Sti]"

definition enable_slot_locks :: "act list" where
  "enable_slot_locks = command_locks"

definition disable_slot_locks :: "act list" where
  "disable_slot_locks = command_locks @ [Acquire XhciInstance, Release XhciInstance]"

definition address_device_locks :: "act list" where
  "address_device_locks = [Acquire XhciInstance, Release XhciInstance] @ command_locks"

definition init_keyboard_locks :: "act list" where
  "init_keyboard_locks = command_locks @ [Acquire KbdState, Release KbdState] @ arm_keyboard_locks"

definition init_mouse_locks :: "act list" where
  "init_mouse_locks = command_locks @ [Acquire MouseState, Release MouseState] @ arm_mouse_locks"

definition shutdown_keyboard_locks :: "act list" where
  "shutdown_keyboard_locks = [Acquire KbdState, Release KbdState]"

definition shutdown_mouse_locks :: "act list" where
  "shutdown_mouse_locks = [Acquire MouseState, Release MouseState]"

text \<open>\<open>discover_and_init_hid_devices\<close>: reading the ports, then \<open>body\<close> for the devices that come and go, under the registry's lock.\<close>

definition discover_locks :: "act list \<Rightarrow> act list" where
  "discover_locks body = [Acquire XhciInstance, Release XhciInstance] @ [Acquire ActivePorts] @ body @ [Release ActivePorts]"

text \<open>
  The functions of \<^verbatim>\<open>memory/mod.rs\<close>: \<open>memory::init\<close> holds the frame allocator while \<open>init_heap\<close> hands the heap its block, and the
  entry points take it for one call. The allocations a function makes on the heap, each under the lock of the heap alone, are left out of
  the other sequences.
\<close>

definition memory_init_locks :: "act list" where
  "memory_init_locks = [Acquire FrameAllocatorLock, Acquire HeapLock, Release HeapLock, Release FrameAllocatorLock]"

definition frame_entry_locks :: "act list" where
  "frame_entry_locks = [Acquire FrameAllocatorLock, Release FrameAllocatorLock]"

section \<open>The processor\<close>

record sched =
  code :: "act list"
  held :: "lock set"
  irqs_on :: bool
  isr :: "act list option"
  isr_held :: "lock set"

definition start :: "act list \<Rightarrow> sched" where
  "start p = \<lparr>code = p, held = {}, irqs_on = True, isr = None, isr_held = {}\<rparr>"

inductive step :: "sched \<Rightarrow> sched \<Rightarrow> bool" where
  cli: "isr s = None \<Longrightarrow> code s = Cli # p \<Longrightarrow> step s (s\<lparr>code := p, irqs_on := False\<rparr>)"
| sti: "isr s = None \<Longrightarrow> code s = Sti # p \<Longrightarrow> step s (s\<lparr>code := p, irqs_on := True\<rparr>)"
| acquire: "isr s = None \<Longrightarrow> code s = Acquire l # p \<Longrightarrow> l \<notin> held s \<Longrightarrow> step s (s\<lparr>code := p, held := insert l (held s)\<rparr>)"
| release: "isr s = None \<Longrightarrow> code s = Release l # p \<Longrightarrow> step s (s\<lparr>code := p, held := held s - {l}\<rparr>)"
| interrupt: "isr s = None \<Longrightarrow> irqs_on s \<Longrightarrow> step s (s\<lparr>isr := Some (isr_locks k m), irqs_on := False\<rparr>)"
| isr_acquire: "isr s = Some (Acquire l # q) \<Longrightarrow> l \<notin> held s \<union> isr_held s \<Longrightarrow>
    step s (s\<lparr>isr := Some q, isr_held := insert l (isr_held s)\<rparr>)"
| isr_release: "isr s = Some (Release l # q) \<Longrightarrow> step s (s\<lparr>isr := Some q, isr_held := isr_held s - {l}\<rparr>)"
| iret: "isr s = Some [] \<Longrightarrow> step s (s\<lparr>isr := None, irqs_on := True\<rparr>)"

inductive reach :: "sched \<Rightarrow> sched \<Rightarrow> bool" where
  reach_refl: "reach s s"
| reach_step: "reach s t \<Longrightarrow> step t u \<Longrightarrow> reach s u"

text \<open>The handler waits for a lock of the code it interrupted.\<close>

definition deadlocked :: "sched \<Rightarrow> bool" where
  "deadlocked s \<longleftrightarrow> (\<exists>l q. isr s = Some (Acquire l # q) \<and> l \<in> held s)"

inductive_cases stepE: "step s s'"

lemma deadlock_is_final: "deadlocked s \<Longrightarrow> \<not> step s s'"
  by (auto simp: deadlocked_def elim: stepE)

section \<open>The discipline\<close>

text \<open>
  A function is well locked when it takes no lock twice and gives back what it takes. It is safe when, wherever
  interrupts are on, it holds no lock of the handler.
\<close>

definition isr_lock_set :: "lock set" where
  "isr_lock_set = {XhciInstance, KbdState, MouseState}"

fun well_locked :: "lock set \<Rightarrow> act list \<Rightarrow> bool" where
  "well_locked h [] \<longleftrightarrow> h = {}"
| "well_locked h (Cli # p) \<longleftrightarrow> well_locked h p"
| "well_locked h (Sti # p) \<longleftrightarrow> well_locked h p"
| "well_locked h (Acquire l # p) \<longleftrightarrow> l \<notin> h \<and> well_locked (insert l h) p"
| "well_locked h (Release l # p) \<longleftrightarrow> l \<in> h \<and> well_locked (h - {l}) p"

fun irq_safe :: "bool \<Rightarrow> lock set \<Rightarrow> act list \<Rightarrow> bool" where
  "irq_safe on h [] \<longleftrightarrow> (on \<longrightarrow> h \<inter> isr_lock_set = {})"
| "irq_safe on h (Cli # p) \<longleftrightarrow> (on \<longrightarrow> h \<inter> isr_lock_set = {}) \<and> irq_safe False h p"
| "irq_safe on h (Sti # p) \<longleftrightarrow> (on \<longrightarrow> h \<inter> isr_lock_set = {}) \<and> irq_safe True h p"
| "irq_safe on h (Acquire l # p) \<longleftrightarrow> (on \<longrightarrow> h \<inter> isr_lock_set = {}) \<and> irq_safe on (insert l h) p"
| "irq_safe on h (Release l # p) \<longleftrightarrow> (on \<longrightarrow> h \<inter> isr_lock_set = {}) \<and> irq_safe on (h - {l}) p"

lemma irq_safe_now: "irq_safe on h p \<Longrightarrow> on \<Longrightarrow> h \<inter> isr_lock_set = {}"
  by (cases p) (auto elim: irq_safe.elims)

text \<open>What the handler still has to do is well locked too, and only touches its locks.\<close>

definition acquires :: "act list \<Rightarrow> lock set" where
  "acquires q = {l. Acquire l \<in> set q}"

lemma isr_locks_ok: "well_locked {} (isr_locks k m)" "acquires (isr_locks k m) \<subseteq> isr_lock_set"
    "Cli \<notin> set (isr_locks k m)" "Sti \<notin> set (isr_locks k m)"
  by (auto simp: isr_locks_def poll_keyboard_locks_def poll_mouse_locks_def arm_keyboard_locks_def arm_mouse_locks_def
      acquires_def isr_lock_set_def)

definition sched_inv :: "sched \<Rightarrow> bool" where
  "sched_inv s \<longleftrightarrow> well_locked (held s) (code s)
     \<and> (case isr s of
          None \<Rightarrow> isr_held s = {} \<and> irq_safe (irqs_on s) (held s) (code s)
        | Some q \<Rightarrow> irq_safe True (held s) (code s) \<and> well_locked (isr_held s) q \<and> acquires q \<subseteq> isr_lock_set
            \<and> Cli \<notin> set q \<and> Sti \<notin> set q)"

lemma sched_inv_step: "step s s' \<Longrightarrow> sched_inv s \<Longrightarrow> sched_inv s'"
proof (induction rule: step.induct)
  case (interrupt s k m)
  then show ?case using isr_locks_ok [of k m] by (simp add: sched_inv_def)
qed (auto simp: sched_inv_def acquires_def)

lemma sched_inv_reach: "reach s t \<Longrightarrow> sched_inv s \<Longrightarrow> sched_inv t"
  by (induction rule: reach.induct) (auto intro: sched_inv_step)

lemma sched_inv_no_deadlock: "sched_inv s \<Longrightarrow> \<not> deadlocked s"
proof
  assume inv: "sched_inv s" and "deadlocked s"
  then obtain l q where l: "isr s = Some (Acquire l # q)" "l \<in> held s" by (auto simp: deadlocked_def)
  with inv have "l \<in> isr_lock_set" "irq_safe True (held s) (code s)"
    by (auto simp: sched_inv_def acquires_def)
  with l(2) irq_safe_now [of True "held s" "code s"] show False by blast
qed

text \<open>And something can always be done, until the code is at its end.\<close>

lemma sched_inv_progress: "sched_inv s \<Longrightarrow> code s = [] \<and> isr s = None \<or> (\<exists>s'. step s s')"
proof (cases "isr s")
  case None
  assume inv: "sched_inv s"
  show ?thesis
  proof (cases "code s")
    case (Cons a p)
    with inv None show ?thesis
      by (cases a) (auto simp: sched_inv_def intro: step.intros)
  qed (simp add: None)
next
  case (Some q)
  assume inv: "sched_inv s"
  show ?thesis
  proof (cases q)
    case Nil
    with Some show ?thesis by (auto intro: step.iret)
  next
    case (Cons a p)
    show ?thesis
    proof (cases a)
      case (Acquire l)
      with inv Some Cons have "l \<notin> held s" "l \<notin> isr_held s"
        using irq_safe_now [of True "held s" "code s"] by (auto simp: sched_inv_def acquires_def)
      with Some Cons Acquire show ?thesis by (blast intro: step.isr_acquire)
    qed (use inv Some Cons in \<open>auto simp: sched_inv_def intro: step.isr_release\<close>)
  qed
qed

section \<open>A deadlock is reached wherever the discipline is broken\<close>

lemma reach_trans: "reach t u \<Longrightarrow> reach s t \<Longrightarrow> reach s u"
  by (induction rule: reach.induct) (auto intro: reach.reach_step)

lemma step_then: "step s t \<Longrightarrow> \<exists>u. reach t u \<and> P u \<Longrightarrow> \<exists>u. reach s u \<and> P u"
  by (blast intro: reach_trans reach.intros)

text \<open>The handler runs up to the first lock that is taken.\<close>

lemma isr_runs_into:
  assumes "isr s = Some q" "well_locked (isr_held s) q" "Cli \<notin> set q" "Sti \<notin> set q"
    and "\<exists>l. Acquire l \<in> set q \<and> l \<in> held s"
  shows "\<exists>t. reach s t \<and> deadlocked t"
  using assms
proof (induction q arbitrary: s)
  case (Cons a q)
  show ?case
  proof (cases a)
    case (Acquire l)
    show ?thesis
    proof (cases "l \<in> held s")
      case True
      with Cons.prems(1) Acquire show ?thesis by (auto simp: deadlocked_def intro: reach_refl)
    next
      case False
      with Cons.prems Acquire have "step s (s\<lparr>isr := Some q, isr_held := insert l (isr_held s)\<rparr>)"
        by (auto intro: step.isr_acquire)
      then show ?thesis
        by (rule step_then) (rule Cons.IH, use Cons.prems Acquire False in auto)
    qed
  next
    case (Release l)
    with Cons.prems have "step s (s\<lparr>isr := Some q, isr_held := isr_held s - {l}\<rparr>)"
      by (auto intro: step.isr_release)
    then show ?thesis
      by (rule step_then) (rule Cons.IH, use Cons.prems Release in auto)
  qed (use Cons.prems in auto)
qed simp

lemma isr_takes_all: "l \<in> isr_lock_set \<Longrightarrow> Acquire l \<in> set (isr_locks True True)"
  by (auto simp: isr_locks_def poll_keyboard_locks_def poll_mouse_locks_def arm_keyboard_locks_def arm_mouse_locks_def
      isr_lock_set_def)

lemma interrupted_with_lock:
  assumes "isr s = None" "isr_held s = {}" "irqs_on s" "held s \<inter> isr_lock_set \<noteq> {}"
  shows "\<exists>t. reach s t \<and> deadlocked t"
proof (rule step_then)
  show "step s (s\<lparr>isr := Some (isr_locks True True), irqs_on := False\<rparr>)"
    by (rule step.interrupt [OF assms(1,3)])
  show "\<exists>t. reach (s\<lparr>isr := Some (isr_locks True True), irqs_on := False\<rparr>) t \<and> deadlocked t"
    using isr_locks_ok [of True True] isr_takes_all assms by (intro isr_runs_into [of _ "isr_locks True True"]) auto
qed

lemma unsafe_deadlocks:
  assumes "well_locked (held s) (code s)" "\<not> irq_safe (irqs_on s) (held s) (code s)" "isr s = None" "isr_held s = {}"
  shows "\<exists>t. reach s t \<and> deadlocked t"
  using assms
proof (induction "code s" arbitrary: s)
  case Nil
  then show ?case by (metis irq_safe.simps(1) well_locked.simps(1) inf_bot_left)
next
  case (Cons a p)
  note code = Cons.hyps(2) [symmetric]
  show ?case
  proof (cases "irqs_on s \<and> held s \<inter> isr_lock_set \<noteq> {}")
    case True
    with Cons.prems show ?thesis by (intro interrupted_with_lock) auto
  next
    case ok: False
    show ?thesis
    proof (cases a)
      case Cli
      have "step s (s\<lparr>code := p, irqs_on := False\<rparr>)" using Cons.prems(3) code Cli by (auto intro: step.cli)
      then show ?thesis
        by (rule step_then) (rule Cons.hyps(1), use Cons.prems ok code Cli in auto)
    next
      case Sti
      have "step s (s\<lparr>code := p, irqs_on := True\<rparr>)" using Cons.prems(3) code Sti by (auto intro: step.sti)
      then show ?thesis
        by (rule step_then) (rule Cons.hyps(1), use Cons.prems ok code Sti in auto)
    next
      case (Acquire l)
      have "step s (s\<lparr>code := p, held := insert l (held s)\<rparr>)"
        using Cons.prems(1,3) code Acquire by (auto intro: step.acquire)
      then show ?thesis
        by (rule step_then) (rule Cons.hyps(1), use Cons.prems ok code Acquire in auto)
    next
      case (Release l)
      have "step s (s\<lparr>code := p, held := held s - {l}\<rparr>)" using Cons.prems(3) code Release by (auto intro: step.release)
      then show ?thesis
        by (rule step_then) (rule Cons.hyps(1), use Cons.prems ok code Release in auto)
    qed
  qed
qed

lemma start_inv: "well_locked {} p \<Longrightarrow> irq_safe True {} p \<Longrightarrow> sched_inv (start p)"
  by (simp add: sched_inv_def start_def)

lemma start_deadlocks: "well_locked {} p \<Longrightarrow> \<not> irq_safe True {} p \<Longrightarrow> \<exists>t. reach (start p) t \<and> deadlocked t"
  using unsafe_deadlocks [of "start p"] by (simp add: start_def)

text \<open>
  Property C18. The discipline is exact: a well-locked function, interrupted at any point and any number of times by the
  handler of vector 44, always goes on to its end if and only if it holds no lock of the handler while interrupts are
  on. Where it does, a state is reachable in which the handler waits for the code it interrupted, and nothing moves.
\<close>

theorem irq_safe_exact:
  assumes "well_locked {} p"
  shows "(irq_safe True {} p \<longleftrightarrow> (\<forall>t. reach (start p) t \<longrightarrow> code t = [] \<and> isr t = None \<or> (\<exists>u. step t u)))
    \<and> (\<not> irq_safe True {} p \<longleftrightarrow> (\<exists>t. reach (start p) t \<and> deadlocked t))"
proof (cases "irq_safe True {} p")
  case True
  then have "sched_inv t" if "reach (start p) t" for t
    using sched_inv_reach [OF that] start_inv [OF assms] by blast
  then show ?thesis
    using True sched_inv_progress sched_inv_no_deadlock by meson
next
  case False
  from start_deadlocks [OF assms this] obtain t where t: "reach (start p) t" "deadlocked t" by blast
  then have "isr t \<noteq> None" "\<And>u. \<not> step t u"
    using deadlock_is_final by (auto simp: deadlocked_def)
  with t False show ?thesis by meson
qed

theorem irq_safe_exact_witness:
  "(\<exists>t. reach (start [Acquire KbdState, Release KbdState]) t \<and> deadlocked t)
    \<and> \<not> (\<exists>t. reach (start command_locks) t \<and> deadlocked t)"
  using irq_safe_exact [of "[Acquire KbdState, Release KbdState]"] irq_safe_exact [of command_locks]
  by (simp add: command_locks_def isr_lock_set_def)

text \<open>
  Property C19. The functions of the USB modules: \<open>enable_slot\<close> (and the commands and control transfers, which take the lock
  the same way) never deadlock. \<open>disable_slot\<close> and \<open>address_device\<close> read the device context array's address under the
  lock with interrupts on, the drivers take their state and the controller with interrupts on, and
  \<open>discover_and_init_hid_devices\<close> reads the ports so: an interrupt of the controller at that moment stops the kernel for good.
\<close>

theorem usb_functions_deadlock:
  "\<not> (\<exists>t. reach (start enable_slot_locks) t \<and> deadlocked t)
    \<and> (\<forall>p \<in> {disable_slot_locks, address_device_locks, init_keyboard_locks, init_mouse_locks,
             shutdown_keyboard_locks, shutdown_mouse_locks, discover_locks []}.
          \<exists>t. reach (start p) t \<and> deadlocked t \<and> (\<forall>u. \<not> step t u))"
proof (intro conjI ballI)
  have "sched_inv (start enable_slot_locks)"
    by (intro start_inv) (simp_all add: enable_slot_locks_def command_locks_def)
  then show "\<not> (\<exists>t. reach (start enable_slot_locks) t \<and> deadlocked t)"
    using sched_inv_reach sched_inv_no_deadlock by blast
next
  note defs = disable_slot_locks_def address_device_locks_def init_keyboard_locks_def init_mouse_locks_def
    shutdown_keyboard_locks_def shutdown_mouse_locks_def discover_locks_def command_locks_def arm_keyboard_locks_def
    arm_mouse_locks_def
  fix p assume "p \<in> {disable_slot_locks, address_device_locks, init_keyboard_locks, init_mouse_locks,
    shutdown_keyboard_locks, shutdown_mouse_locks, discover_locks []}"
  then have "well_locked {} p \<and> \<not> irq_safe True {} p"
    by (elim insertE emptyE) (simp_all add: defs isr_lock_set_def)
  then show "\<exists>t. reach (start p) t \<and> deadlocked t \<and> (\<forall>u. \<not> step t u)"
    using start_deadlocks [of p] deadlock_is_final by blast
qed

theorem usb_functions_deadlock_witness:
  "\<exists>t. reach (start disable_slot_locks) t \<and> deadlocked t"
  using usb_functions_deadlock by blast

text \<open>
  The locks are always taken in their order, so no two of these functions could wait for each other in a circle: the
  interrupt handler is the only danger, and turning interrupts off around the lock would be enough.
\<close>

fun in_order :: "lock set \<Rightarrow> act list \<Rightarrow> bool" where
  "in_order h [] \<longleftrightarrow> True"
| "in_order h (Acquire l # p) \<longleftrightarrow> (\<forall>k \<in> h. k < l) \<and> in_order (insert l h) p"
| "in_order h (Release l # p) \<longleftrightarrow> in_order (h - {l}) p"
| "in_order h (_ # p) \<longleftrightarrow> in_order h p"

lemma locks_in_order:
  "p \<in> {disable_slot_locks, address_device_locks, init_keyboard_locks, init_mouse_locks, shutdown_keyboard_locks,
     shutdown_mouse_locks, isr_locks k m} \<Longrightarrow> in_order {} p \<and> in_order {} (discover_locks p)"
  by (elim insertE emptyE)
    (simp_all add: disable_slot_locks_def address_device_locks_def init_keyboard_locks_def init_mouse_locks_def
      shutdown_keyboard_locks_def shutdown_mouse_locks_def isr_locks_def poll_keyboard_locks_def poll_mouse_locks_def
      discover_locks_def command_locks_def arm_keyboard_locks_def arm_mouse_locks_def less_lock_def lock_rank_def)

text \<open>The functions of \<^verbatim>\<open>memory/mod.rs\<close> are safe with interrupts on: the handler takes neither of their locks.\<close>

theorem memory_functions_finish:
  "p \<in> {memory_init_locks, frame_entry_locks} \<Longrightarrow> reach (start p) t \<Longrightarrow> code t = [] \<and> isr t = None \<or> (\<exists>u. step t u)"
proof -
  assume "p \<in> {memory_init_locks, frame_entry_locks}" "reach (start p) t"
  then have "sched_inv t"
    using sched_inv_reach [OF _ start_inv]
    by (auto simp: memory_init_locks_def frame_entry_locks_def isr_lock_set_def)
  then show ?thesis by (rule sched_inv_progress)
qed

end
