(* ===== verification/Spec2Isabelle.thy ===== *)
theory Spec2Isabelle
  imports Kernel_Invariant Enumeration Port_Io Memory_Tests Controller_Start Locking Heap_Allocator Pci Xhci_Rings Slot_Commands
    Descriptors
begin

text \<open>
  OCTAGRAM-OS: a model of the kernel in \<^verbatim>\<open>kernel/src\<close>, a single-processor x86-64 kernel in Rust that is booted by
  Limine, prints on a framebuffer, and drives USB keyboards and mice through an xHCI controller by interrupts.

  \<^bold>\<open>The parts and how they interact.\<close> \<^verbatim>\<open>main.rs\<close> brings everything up: the descriptor tables, the interrupt controllers, the
  heap, the PCI scan and the USB controllers. The drivers map device registers through the page tables (\<^verbatim>\<open>memory/paging.rs\<close>),
  which take their frames from the frame allocator; rings and contexts come from the heap. A driver puts transfer
  request blocks (TRBs) on a ring and rings a doorbell; the controller answers with an event and interrupt 44; the stub of
  the vector saves the registers and calls the handler, which takes the events off the event ring, notes them in statics,
  and lets the keyboard and mouse drivers read their reports. The code that waits for a command looks at these statics.
  The main loop sleeps, and synchronises the devices with the ports when an event said that a port changed.

  \<^bold>\<open>Theories and sources.\<close>
    \<^item> \<open>Prelude\<close>: machine integers, checked arithmetic, lists and options. \<open>Phys_Memory\<close>: memory as a function from
      addresses to bytes, with the locale \<open>cell_store\<close> of what a store promises. \<open>Machine\<close>: the world outside the sources.
      \<open>Port_Io\<close>: \<^verbatim>\<open>io/mod.rs\<close> and the MSR functions of \<^verbatim>\<open>apic.rs\<close>, assembly on the registers of the processor.
    \<^item> \<open>Memory\<close>, \<open>Frame_Allocator\<close>, \<open>Heap_Allocator\<close>, \<open>Paging\<close>: the files of \<^verbatim>\<open>memory/\<close>. The free list is threaded through the
      free frames; \<open>fa_inv\<close> is its invariant, \<open>pt_inv\<close> that of the page tables, and the tree of tables is a finite map
      from paths of indices to frames. The locale \<open>frame_pool\<close> is what the page tables need of the allocator.
      \<open>Memory_Tests\<close>: the self-tests of \<^verbatim>\<open>memory/mod.rs\<close>.
    \<^item> \<open>Pci\<close>: \<^verbatim>\<open>pci.rs\<close>, over the ports 0xCF8 and 0xCFC. \<open>Pci_Console\<close>: what its scan prints.
    \<^item> \<open>Trb_Ring\<close>, \<open>Xhci\<close>, \<open>Xhci_Rings\<close>, \<open>Xhci_Device\<close>, \<open>Slot_Commands\<close>, \<open>Descriptors\<close>: \<^verbatim>\<open>usb/xhci.rs\<close>, in this order the rings
      (locales \<open>producer_ring\<close>, \<open>linked_ring\<close>, \<open>unlinked_ring\<close>), the transport, what it promises, the commands and control transfers,
      their outcome, and the configuration-descriptor parser.
      \<open>Contexts\<close> has the structures both sides read (contexts, rings, segment table) as records, and \<open>Controller_Start\<close> the
      accesses \<open>init_xhci\<close> makes, recorded one by one.
    \<^item> \<open>Hid\<close>, \<open>Keyboard\<close>, \<open>Mouse\<close>: \<^verbatim>\<open>usb/keyboard_usb.rs\<close> and \<^verbatim>\<open>usb/mouse_usb.rs\<close>, two instances of the locale \<open>report_driver\<close>.
      \<open>Usb\<close>: \<^verbatim>\<open>usb/mod.rs\<close>. \<open>Enumeration\<close>: the whole way of a device from the plug to its driver.
    \<^item> \<open>Font\<close>, \<open>Terminal\<close>: \<^verbatim>\<open>terminal/\<close> and \<^verbatim>\<open>graphics/mod.rs\<close>, against the abstract \<open>text_screen\<close>.
      \<open>Console\<close>: the macros \<^verbatim>\<open>print!\<close> and \<^verbatim>\<open>println!\<close>, and the messages of the HID drivers and of \<^verbatim>\<open>memory/mod.rs\<close> on the screen.
    \<^item> \<open>Descriptor_Tables\<close>: \<^verbatim>\<open>gdt.rs\<close> and \<^verbatim>\<open>idt.rs\<close>. \<open>Interrupt_Stubs\<close>: the assembly of \<^verbatim>\<open>interrupt.rs\<close> on a small machine. \<open>Apic\<close>: \<^verbatim>\<open>apic.rs\<close>.
      \<open>Interrupt\<close>: the handler of \<^verbatim>\<open>interrupt.rs\<close>, together with the drivers it calls. \<open>Rsdp\<close>: \<^verbatim>\<open>rsdp.rs\<close>.
    \<^item> \<open>Kernel\<close>: \<^verbatim>\<open>main.rs\<close>. \<open>Kernel_Invariant\<close>: an invariant of all states of the main loop, from boot on, with the locale
      \<open>driver_world\<close> for what runs while a driver waits. \<open>Locking\<close>: the locks of the USB modules against the handler.

  \<^bold>\<open>State.\<close> One record per layer, each extending the one below: memory and allocator, heap, page tables, controller
  driver and its statics, HID drivers, USB registry, local APIC, boot. An operation takes the state and returns it
  changed, under an option that is \<open>None\<close> when the call never comes back: a panic, an endless loop, a page fault. Rust's
  \<open>Option\<close> and \<open>Result\<close> are an option and a sum inside. Integers have their width; arithmetic is checked as the profile
  of the kernel has it. Hardware is a parameter: a record of access functions over a state \<open>'h\<close>; what a theorem
  assumes of a device is a named predicate stating its documented behaviour, and each such theorem is applied to a concrete device.

  \<^bold>\<open>What the lemmas show.\<close> The allocator refines a list of frames and the page tables a map from pages to entries; the heap
  gets the frames it needs at boot, or addresses that are not its own. The PCI scan is exact. The controller receives every TRB of
  a HID ring, and of the command ring and the endpoint-0 ring only those before the first wrap; events are taken in order. The
  controller is reset and ready before it is programmed, and finds empty rings and the contexts the source describes. The
  descriptor parser inverts the encoding. A key pressed becomes a typed character and a new request; a command
  returns through its interrupt; a device plugged in gets the registry entry and the drivers its descriptors call for, and its
  keyboard types; a device that refuses its address costs a slot; a port change reaches the discovery, which keeps the registry in line with the ports. The
  ring indices stay in their rings and the handler's statics agree with the drivers in every state the kernel reaches. The
  stubs are invisible to the code they interrupt. Text printed appears in the pixels, typed text can be read back
  from them, and a character is torn exactly when an interrupt that prints comes between its first and last row.
  The lock discipline decides exactly which functions can deadlock with the handler. The assembly of the port and MSR functions
  makes the accesses the other theories assume. The line of the scan tells the whole identity of a device. The stress test of
  the heap passes on every heap that gives out separate blocks.

  \<^bold>\<open>Bounds and fuel.\<close> A loop with a counter is a recursion on it: the waiting loops of the commands make 10000000 looks
  (\<open>WAIT_LIMIT\<close>), with a step \<open>tick\<close> of the rest of the machine between two looks, which \<open>Interrupt\<close> instantiates with the
  delivery of an interrupt; the capability list is followed for 48 entries. The loops that end only when the hardware says so (the
  resets, the polling fallback, \<open>hcf\<close>) are \<open>partial_function (option)\<close>, and not ending is \<open>None\<close>. No fuel is used elsewhere.

  \<^bold>\<open>Not modelled, and why.\<close> \<^verbatim>\<open>vfs.rs\<close> is empty. The crates (\<^verbatim>\<open>limine\<close>, \<^verbatim>\<open>spin\<close>, \<^verbatim>\<open>linked_list_allocator\<close>) and the linker's
  choices are parameters. \<^verbatim>\<open>test_xhci\<close> only prints and is not called. The messages of \<^verbatim>\<open>kmain\<close>, of the HID drivers, of the PCI scan, of
  the self-tests and on the memory map are modelled; the progress messages of the other functions are not.
  The sequential model has no contention on a lock and no interrupt between two arbitrary instructions: interrupts are
  delivered where the code waits. \<open>Locking\<close> covers every point of a function for the locks the handler takes, and
  \<open>print_char_interrupted\<close> the drawing of a character.
  Caches and the order in which a device sees the writes of the processor are not modelled: each write is
  seen at once.
\<close>

end
